(* ===== verification/Prelude.thy ===== *)
theory Prelude
  imports Main "HOL-Library.Word"
begin

text \<open>
  The shared vocabulary of the development: machine integer types, the faults a C
  expression can run into, sequencing of computations that may fault, bounds-checked
  access to C arrays, and C's truncating remainder.

  A computation that may have undefined behaviour has type \<open>'a outcome\<close>: \<open>Inl f\<close> is the
  undefined behaviour \<open>f\<close>, \<open>Inr x\<close> the value computed otherwise. Arrays are lists whose
  length is the capacity of the C array.
\<close>

unbundle bit_operations_syntax

named_theorems fault_simps "unfolding of faulting computations"
named_theorems array_simps "array reads and writes"

type_synonym u8 = "8 word"
type_synonym u16 = "16 word"
type_synonym u32 = "32 word"
type_synonym byte = "8 word"
type_synonym bytes = "8 word list"

section \<open>Faults and sequencing\<close>

datatype fault =
    NullDeref | UseAfterFree | DoubleFree | OutOfBounds | Uninitialised | DivByZero | Diverges

type_synonym 'a outcome = "fault + 'a"

definition andthen :: "'a outcome \<Rightarrow> ('a \<Rightarrow> 'b outcome) \<Rightarrow> 'b outcome" where
  "andthen m f = (case m of Inl e \<Rightarrow> Inl e | Inr x \<Rightarrow> f x)"

lemma andthen_Inl [simp]: "andthen (Inl e) f = Inl e"
  by (simp add: andthen_def)

lemma andthen_Inr [simp]: "andthen (Inr x) f = f x"
  by (simp add: andthen_def)

lemma andthen_eq_Inr [fault_simps]:
  "andthen m f = Inr y \<longleftrightarrow> (\<exists>x. m = Inr x \<and> f x = Inr y)"
  by (cases m) auto

lemma andthen_eq_Inl [fault_simps]:
  "andthen m f = Inl e \<longleftrightarrow> m = Inl e \<or> (\<exists>x. m = Inr x \<and> f x = Inl e)"
  by (cases m) auto

lemma andthen_assoc: "andthen (andthen m f) g = andthen m (\<lambda>x. andthen (f x) g)"
  by (cases m) auto

section \<open>C arrays\<close>

definition put_at :: "nat \<Rightarrow> 'a list \<Rightarrow> 'a list \<Rightarrow> 'a list" where
  "put_at i xs a = take i a @ xs @ drop (i + length xs) a"

definition arr_write :: "'a list \<Rightarrow> nat \<Rightarrow> 'a list \<Rightarrow> 'a list outcome" where
  "arr_write a i xs = (if i + length xs \<le> length a then Inr (put_at i xs a) else Inl OutOfBounds)"

definition arr_read :: "'a list \<Rightarrow> nat \<Rightarrow> nat \<Rightarrow> 'a list outcome" where
  "arr_read a i n = (if i + n \<le> length a then Inr (take n (drop i a)) else Inl OutOfBounds)"

definition arr_get :: "'a list \<Rightarrow> int \<Rightarrow> 'a outcome" where
  "arr_get a i = (if 0 \<le> i \<and> i < int (length a) then Inr (a ! nat i) else Inl OutOfBounds)"

definition arr_set :: "'a list \<Rightarrow> int \<Rightarrow> 'a \<Rightarrow> 'a list outcome" where
  "arr_set a i x = (if 0 \<le> i \<and> i < int (length a) then Inr (a[nat i := x]) else Inl OutOfBounds)"

lemma length_put_at [simp]: "i + length xs \<le> length a \<Longrightarrow> length (put_at i xs a) = length a"
  by (simp add: put_at_def)

lemma put_at_nil [simp]: "put_at i [] a = a"
  by (simp add: put_at_def)

lemma arr_write_ok [array_simps]: "i + length xs \<le> length a \<Longrightarrow> arr_write a i xs = Inr (put_at i xs a)"
  by (simp add: arr_write_def)

lemma arr_read_ok [array_simps]: "i + n \<le> length a \<Longrightarrow> arr_read a i n = Inr (take n (drop i a))"
  by (simp add: arr_read_def)

lemma arr_get_ok [array_simps]: "0 \<le> i \<Longrightarrow> i < int (length a) \<Longrightarrow> arr_get a i = Inr (a ! nat i)"
  by (simp add: arr_get_def)

lemma arr_set_ok [array_simps]: "0 \<le> i \<Longrightarrow> i < int (length a) \<Longrightarrow> arr_set a i x = Inr (a[nat i := x])"
  by (simp add: arr_set_def)

text \<open>Writing consecutive pieces from the start of an array builds up a prefix.\<close>

lemma put_at_0: "put_at 0 xs a = xs @ drop (length xs) a"
  by (simp add: put_at_def)

lemma put_at_extend: "i = length xs \<Longrightarrow> put_at i ys (xs @ zs) = xs @ ys @ drop (length ys) zs"
  by (simp add: put_at_def)

lemma put_at_snoc:
  assumes "i + length xs < length a"
  shows "put_at (i + length xs) [x] (put_at i xs a) = put_at i (xs @ [x]) a"
proof -
  have d: "drop (Suc (length xs)) (xs @ drop (i + length xs) a) = drop (Suc (i + length xs)) a"
    by (simp add: Suc_diff_le)
  from assms show ?thesis
    by (simp add: put_at_def d)
qed

lemma take_put_at_0: "length xs = n \<Longrightarrow> take n (put_at 0 xs a) = xs"
  by (simp add: put_at_def)

lemma take_drop_prefix:
  "take n (drop i (xs @ ys)) = take n (drop i xs)" if "i + n \<le> length xs"
  using that by simp

section \<open>C integer operators\<close>

text \<open>C's \<open>%\<close> truncates: the result has the sign of the left operand. A zero divisor is
  undefined behaviour.\<close>

definition c_rem :: "int \<Rightarrow> int \<Rightarrow> int" where
  "c_rem a b = (if a < 0 then - ((- a) mod \<bar>b\<bar>) else a mod \<bar>b\<bar>)"

definition c_mod :: "int \<Rightarrow> int \<Rightarrow> int outcome" where
  "c_mod a b = (if b = 0 then Inl DivByZero else Inr (c_rem a b))"

lemma c_rem_nonneg [simp]: "0 \<le> a \<Longrightarrow> 0 < b \<Longrightarrow> c_rem a b = a mod b"
  by (simp add: c_rem_def)

lemma c_mod_ok [simp]: "0 \<le> a \<Longrightarrow> 0 < b \<Longrightarrow> c_mod a b = Inr (a mod b)"
  by (simp add: c_mod_def)

end
