(* ===== verification/Bytes.thy ===== *)
theory Bytes
  imports Prelude
begin

text \<open>
  Byte order. The host is little endian (x86-64, the platform the packed bit-field struct of
  packet_implem.c is laid out for): an integer is stored least significant byte first, and
  \<open>htons\<close>/\<open>ntohs\<close>/\<open>htonl\<close>/\<open>ntohl\<close> of arpa/inet.h reverse the bytes of a value.
\<close>

definition le16 :: "u16 \<Rightarrow> bytes" where
  "le16 x = [ucast x, ucast (drop_bit 8 x)]"

definition le32 :: "u32 \<Rightarrow> bytes" where
  "le32 x = [ucast x, ucast (drop_bit 8 x), ucast (drop_bit 16 x), ucast (drop_bit 24 x)]"

fun of_le :: "bytes \<Rightarrow> 'a::len word" where
  "of_le [] = 0"
| "of_le (b # bs) = ucast b OR push_bit 8 (of_le bs)"

definition htons :: "u16 \<Rightarrow> u16" where
  "htons x = of_le (rev (le16 x))"

definition ntohs :: "u16 \<Rightarrow> u16" where
  "ntohs x = htons x"

definition htonl :: "u32 \<Rightarrow> u32" where
  "htonl x = of_le (rev (le32 x))"

definition ntohl :: "u32 \<Rightarrow> u32" where
  "ntohl x = htonl x"

lemma length_le16 [simp]: "length (le16 x) = 2"
  by (simp add: le16_def)

lemma length_le32 [simp]: "length (le32 x) = 4"
  by (simp add: le32_def)

lemma of_le_le16 [simp]: "of_le (le16 x) = x"
  unfolding le16_def of_le.simps by (rule bit_word_eqI) (auto simp: bit_simps)

lemma of_le_le32 [simp]: "of_le (le32 x) = x"
proof (rule bit_word_eqI)
  fix n assume "n < LENGTH(32)"
  then show "bit (of_le (le32 x) :: u32) n \<longleftrightarrow> bit x n"
    unfolding le32_def of_le.simps
    by (cases "n < 16"; cases "n < 24") (auto simp: bit_simps)
qed

lemma le16_of_le [simp]: "length bs = 2 \<Longrightarrow> le16 (of_le bs) = bs"
proof -
  assume "length bs = 2"
  then obtain a b where bs: "bs = [a, b]"
    by (auto simp: numeral_eq_Suc length_Suc_conv)
  have "le16 (of_le [a, b]) = [a, b]"
    unfolding le16_def of_le.simps list.inject
    by (intro conjI refl; rule bit_word_eqI) (auto simp: bit_simps dest: bit_imp_le_length)
  then show ?thesis by (simp only: bs)
qed

lemma le32_of_le [simp]: "length bs = 4 \<Longrightarrow> le32 (of_le bs) = bs"
proof -
  assume "length bs = 4"
  then obtain a b c d where bs: "bs = [a, b, c, d]"
    by (auto simp: numeral_eq_Suc length_Suc_conv)
  have "le32 (of_le [a, b, c, d]) = [a, b, c, d]"
    unfolding le32_def of_le.simps list.inject
    by (intro conjI refl; rule bit_word_eqI) (auto simp: bit_simps dest: bit_imp_le_length)
  then show ?thesis by (simp only: bs)
qed

text \<open>Most significant byte first: how a value converted with \<open>htons\<close> or \<open>htonl\<close> lies in
  memory.\<close>

definition be16 :: "u16 \<Rightarrow> bytes" where
  "be16 x = rev (le16 x)"

definition be32 :: "u32 \<Rightarrow> bytes" where
  "be32 x = rev (le32 x)"

lemma le16_htons [simp]: "le16 (htons x) = be16 x"
  by (simp add: htons_def be16_def)

lemma le32_htonl [simp]: "le32 (htonl x) = be32 x"
  by (simp add: htonl_def be32_def)

lemma htons_htons [simp]: "htons (htons x) = x"
  by (simp add: htons_def [of "htons x"] be16_def)

lemma htonl_htonl [simp]: "htonl (htonl x) = x"
  by (simp add: htonl_def [of "htonl x"] be32_def)

lemma length_be16 [simp]: "length (be16 x) = 2"
  by (simp add: be16_def)

lemma length_be32 [simp]: "length (be32 x) = 4"
  by (simp add: be32_def)

lemma ntohs_htons [simp]: "ntohs (htons x) = x" "htons (ntohs x) = x"
  by (simp_all add: ntohs_def)

lemma ntohl_htonl [simp]: "ntohl (htonl x) = x" "htonl (ntohl x) = x"
  by (simp_all add: ntohl_def)

lemma htons_eq_iff [simp]: "htons x = htons y \<longleftrightarrow> x = y"
  by (metis htons_htons)

lemma htonl_eq_iff [simp]: "htonl x = htonl y \<longleftrightarrow> x = y"
  by (metis htonl_htonl)

lemma htons_0 [simp]: "htons 0 = 0" "ntohs 0 = 0"
  by (simp_all add: ntohs_def htons_def le16_def)

lemma htonl_0 [simp]: "htonl 0 = 0" "ntohl 0 = 0"
  by (simp_all add: ntohl_def htonl_def le32_def)

lemma ntohs_eq_0_iff [simp]: "ntohs x = 0 \<longleftrightarrow> x = 0" "htons x = 0 \<longleftrightarrow> x = 0"
  by (metis ntohs_def htons_0(1) htons_htons)+

lemma be32_eq_iff [simp]: "be32 x = be32 y \<longleftrightarrow> x = y"
  by (metis le32_htonl of_le_le32 htonl_htonl)

lemma ntohl_of_le_be32 [simp]: "ntohl (of_le (be32 x)) = x"
  by (simp add: be32_def ntohl_def htonl_def)

lemma be32_ntohl_of_le [simp]: "length bs = 4 \<Longrightarrow> be32 (ntohl (of_le bs)) = bs"
  by (simp add: be32_def ntohl_def htonl_def)

lemma ntohs_of_le_be16 [simp]: "ntohs (of_le (be16 x)) = x"
  by (simp add: be16_def ntohs_def htons_def)

end
