(* ===== verification/Sockets.thy ===== *)
theory Sockets
  imports Bytes
begin

text \<open>
  Setting up the socket: \<open>real_address\<close>, \<open>create_socket\<close> and \<open>wait_for_client\<close> of socket.c. What
  the system calls answer is the parameter \<open>'a os\<close>, asked with the number of calls made so far;
  what they change is kept in \<open>'a kernel\<close>: the open descriptors, the addresses a socket is bound
  and connected to, and the authors of the datagrams waiting at it. \<open>'a\<close> stands for the fields
  of \<open>sockaddr_in6\<close> but the port. Messages on \<open>stderr\<close> are left out.
\<close>

section \<open>The system\<close>

record 'a sockaddr_in6 =
  sin6_addr :: 'a
  sin6_port :: u16    \<comment> \<open>in network byte order\<close>

record 'a os =
  os_getaddrinfo :: "string \<Rightarrow> int \<times> 'a sockaddr_in6"  \<comment> \<open>the error code and the first result\<close>
  os_gai_strerror :: "int \<Rightarrow> string"
  os_socket :: "nat \<Rightarrow> int"
  os_bind_fails :: "nat \<Rightarrow> 'a sockaddr_in6 \<Rightarrow> bool"
  os_connect_fails :: "nat \<Rightarrow> 'a sockaddr_in6 \<Rightarrow> bool"
  os_recv_fails :: "nat \<Rightarrow> bool"
  os_open :: "nat \<Rightarrow> string \<Rightarrow> int"

record 'a kernel =
  k_calls :: nat
  k_open :: "int set"
  k_bound :: "int \<rightharpoonup> 'a sockaddr_in6"
  k_peer :: "int \<rightharpoonup> 'a sockaddr_in6"
  k_queue :: "int \<Rightarrow> 'a sockaddr_in6 list"

abbreviation called :: "'a kernel \<Rightarrow> 'a kernel" where
  "called k \<equiv> k\<lparr>k_calls := Suc (k_calls k)\<rparr>"

definition sys_socket :: "'a os \<Rightarrow> 'a kernel \<Rightarrow> int \<times> 'a kernel" where
  "sys_socket os k =
     (let fd = os_socket os (k_calls k); k1 = called k in
      if fd = -1 then (-1, k1) else (fd, k1\<lparr>k_open := insert fd (k_open k)\<rparr>))"

definition sys_bind :: "'a os \<Rightarrow> int \<Rightarrow> 'a sockaddr_in6 \<Rightarrow> 'a kernel \<Rightarrow> int \<times> 'a kernel" where
  "sys_bind os fd a k =
     (if os_bind_fails os (k_calls k) a then (-1, called k)
      else (0, (called k)\<lparr>k_bound := (k_bound k)(fd \<mapsto> a)\<rparr>))"

definition sys_connect :: "'a os \<Rightarrow> int \<Rightarrow> 'a sockaddr_in6 \<Rightarrow> 'a kernel \<Rightarrow> int \<times> 'a kernel" where
  "sys_connect os fd a k =
     (if os_connect_fails os (k_calls k) a then (-1, called k)
      else (0, (called k)\<lparr>k_peer := (k_peer k)(fd \<mapsto> a)\<rparr>))"

text \<open>\<open>recvfrom\<close> with \<open>MSG_PEEK\<close>: the author of the first datagram, which stays in the queue; \<open>None\<close>
  when there is none and the call blocks.\<close>

definition sys_peek ::
    "'a os \<Rightarrow> int \<Rightarrow> 'a sockaddr_in6 \<Rightarrow> 'a kernel \<Rightarrow> (int \<times> 'a sockaddr_in6 \<times> 'a kernel) option" where
  "sys_peek os fd a k =
     (if os_recv_fails os (k_calls k) then Some (-1, a, called k)
      else (case k_queue k fd of [] \<Rightarrow> None | b # _ \<Rightarrow> Some (0, b, called k)))"

definition sys_open :: "'a os \<Rightarrow> string \<Rightarrow> 'a kernel \<Rightarrow> int \<times> 'a kernel" where
  "sys_open os name k =
     (let fd = os_open os (k_calls k) name; k1 = called k in
      if fd < 0 then (fd, k1) else (fd, k1\<lparr>k_open := insert fd (k_open k)\<rparr>))"

definition sys_close :: "int \<Rightarrow> 'a kernel \<Rightarrow> 'a kernel" where
  "sys_close fd k = k\<lparr>k_open := k_open k - {fd}\<rparr>"

section \<open>The functions of socket.c\<close>

text \<open>The result is the message, \<open>None\<close> for \<open>NULL\<close>, and the new value of \<open>*rval\<close>.\<close>

definition real_address ::
    "'a os \<Rightarrow> string \<Rightarrow> 'a sockaddr_in6 \<Rightarrow> string option \<times> 'a sockaddr_in6" where
  "real_address os address rval =
     (let (err, res) = os_getaddrinfo os address in
      if err \<noteq> 0 then (Some (os_gai_strerror os err), rval) else (None, res))"

text \<open>The argument of \<open>htons\<close> is an \<open>int\<close>, of which the low 16 bits count. The addresses are passed
  by reference and their port is assigned, so they are part of the result; the model is for calls
  whose two pointers differ, as they do everywhere in the program.\<close>

definition bind_source ::
    "'a os \<Rightarrow> int \<Rightarrow> 'a sockaddr_in6 option \<Rightarrow> int \<Rightarrow> 'a kernel \<Rightarrow> int \<times> 'a sockaddr_in6 option \<times> 'a kernel" where
  "bind_source os sockfd source_addr src_port k =
     (case source_addr of
        None \<Rightarrow> (0, None, k)
      | Some a \<Rightarrow>
          if src_port > 0 then
            (let a1 = a\<lparr>sin6_port := htons (word_of_int src_port)\<rparr>; (err, k1) = sys_bind os sockfd a1 k in
             (err, Some a1, k1))
          else (0, Some a, k))"

definition connect_dest ::
    "'a os \<Rightarrow> int \<Rightarrow> 'a sockaddr_in6 option \<Rightarrow> int \<Rightarrow> 'a kernel \<Rightarrow> int \<times> 'a sockaddr_in6 option \<times> 'a kernel" where
  "connect_dest os sockfd dest_addr dst_port k =
     (case dest_addr of
        None \<Rightarrow> (0, None, k)
      | Some a \<Rightarrow>
          if dst_port > 0 then
            (let a1 = a\<lparr>sin6_port := htons (word_of_int dst_port)\<rparr>; (err, k1) = sys_connect os sockfd a1 k in
             (err, Some a1, k1))
          else (0, Some a, k))"

definition create_socket ::
    "'a os \<Rightarrow> 'a sockaddr_in6 option \<Rightarrow> int \<Rightarrow> 'a sockaddr_in6 option \<Rightarrow> int \<Rightarrow> 'a kernel
      \<Rightarrow> int \<times> 'a sockaddr_in6 option \<times> 'a sockaddr_in6 option \<times> 'a kernel" where
  "create_socket os source_addr src_port dest_addr dst_port k =
     (let (sockfd, k1) = sys_socket os k in
      if sockfd = -1 then (-1, source_addr, dest_addr, k1)
      else
        (let (err, src, k2) = bind_source os sockfd source_addr src_port k1 in
         if err \<noteq> 0 then (-1, src, dest_addr, k2)
         else
           (let (err2, dst, k3) = connect_dest os sockfd dest_addr dst_port k2 in
            if err2 \<noteq> 0 then (-1, src, dst, k3) else (sockfd, src, dst, k3))))"

text \<open>\<open>zero\<close> is the address \<open>memset\<close> leaves in \<open>their_addr\<close>; \<open>None\<close> means the call blocks.\<close>

definition wait_for_client ::
    "'a os \<Rightarrow> 'a sockaddr_in6 \<Rightarrow> int \<Rightarrow> 'a kernel \<Rightarrow> (int \<times> 'a kernel) option" where
  "wait_for_client os zero sfd k =
     (case sys_peek os sfd zero k of
        None \<Rightarrow> None
      | Some (err, their_addr, k1) \<Rightarrow>
          Some (if err = -1 then (-1, k1) else sys_connect os sfd their_addr k1))"

section \<open>Laws\<close>

lemmas socket_defs = create_socket_def bind_source_def connect_dest_def sys_socket_def sys_bind_def
  sys_connect_def

text \<open>The socket of a sender: connected to the address with its port, or the call fails; a
  descriptor made before \<open>connect\<close> fails stays open.\<close>

lemma create_socket_connect:
  assumes "p > 0"
  shows "create_socket os None 0 (Some a) p k =
    (let fd = os_socket os (k_calls k);
         b = a\<lparr>sin6_port := htons (word_of_int p)\<rparr>;
         k1 = k\<lparr>k_calls := k_calls k + 2, k_open := insert fd (k_open k)\<rparr> in
     if fd = -1 then (-1, None, Some a, called k)
     else if os_connect_fails os (Suc (k_calls k)) b then (-1, None, Some b, k1)
     else (fd, None, Some b, k1\<lparr>k_peer := (k_peer k)(fd \<mapsto> b)\<rparr>))"
  using assms by (simp add: socket_defs Let_def)

lemma create_socket_bind:
  assumes "p > 0"
  shows "create_socket os (Some a) p None 0 k =
    (let fd = os_socket os (k_calls k);
         b = a\<lparr>sin6_port := htons (word_of_int p)\<rparr>;
         k1 = k\<lparr>k_calls := k_calls k + 2, k_open := insert fd (k_open k)\<rparr> in
     if fd = -1 then (-1, Some a, None, called k)
     else if os_bind_fails os (Suc (k_calls k)) b then (-1, Some b, None, k1)
     else (fd, Some b, None, k1\<lparr>k_bound := (k_bound k)(fd \<mapsto> b)\<rparr>))"
  using assms by (simp add: socket_defs Let_def)

text \<open>A port that is not positive leaves the socket unbound or unconnected without an error.\<close>

lemma create_socket_port0:
  assumes "sp \<le> 0" "dp \<le> 0" "os_socket os (k_calls k) \<noteq> -1"
  shows "create_socket os src sp dst dp k =
    (os_socket os (k_calls k), src, dst, (called k)\<lparr>k_open := insert (os_socket os (k_calls k)) (k_open k)\<rparr>)"
  using assms by (auto simp: socket_defs Let_def split: option.splits)

text \<open>What a call of \<open>create_socket\<close> can change, and when it fails with the descriptor left open.\<close>

lemma create_socket_frame:
  assumes "create_socket os src sp dst dp k = (r, src', dst', k')"
  shows "k_open k' = (if os_socket os (k_calls k) = -1 then k_open k else insert (os_socket os (k_calls k)) (k_open k)) \<and>
    k_queue k' = k_queue k \<and> (r = os_socket os (k_calls k) \<or> r = -1)"
  using assms by (auto simp: socket_defs Let_def split: if_splits option.splits prod.splits)

lemma wait_for_client_spec:
  "wait_for_client os zero sfd k =
     (if os_recv_fails os (k_calls k) then Some (-1, called k)
      else case k_queue k sfd of
        [] \<Rightarrow> None
      | b # _ \<Rightarrow>
          let k1 = k\<lparr>k_calls := k_calls k + 2\<rparr> in
          Some (if os_connect_fails os (Suc (k_calls k)) b then (-1, k1)
                else (0, k1\<lparr>k_peer := (k_peer k)(sfd \<mapsto> b)\<rparr>)))"
  by (auto simp: wait_for_client_def sys_peek_def sys_connect_def Let_def split: list.splits)

section \<open>Contracts\<close>

definition with_port :: "'a sockaddr_in6 option \<Rightarrow> int \<Rightarrow> 'a sockaddr_in6 option" where
  "with_port a p = (if p > 0 then map_option (\<lambda>b. b\<lparr>sin6_port := htons (word_of_int p)\<rparr>) a else None)"

text \<open>C36. \<open>create_socket\<close> gives a socket bound to the source address with the port given and connected
  to the destination address with its port, each when there is one and the port is positive, and
  the port taken modulo 65536; it gives -1 only when a call it makes fails. Whatever the result,
  the descriptor it made stays open, so a failure of \<open>bind\<close> or \<open>connect\<close> leaks it.\<close>

theorem create_socket_spec:
  assumes "create_socket os src sp dst dp k = (r, src', dst', k')" "os_socket os (k_calls k) = fd"
  shows "k_open k' = (if fd = -1 then k_open k else insert fd (k_open k)) \<and> k_queue k' = k_queue k \<and>
    (if r = -1 then fd = -1 \<or> (\<exists>a i. with_port src sp = Some a \<and> os_bind_fails os i a)
       \<or> (\<exists>a i. with_port dst dp = Some a \<and> os_connect_fails os i a)
     else r = fd \<and>
       k_bound k' = (case with_port src sp of Some a \<Rightarrow> (k_bound k)(fd \<mapsto> a) | None \<Rightarrow> k_bound k) \<and>
       k_peer k' = (case with_port dst dp of Some a \<Rightarrow> (k_peer k)(fd \<mapsto> a) | None \<Rightarrow> k_peer k))"
  using assms
  by (auto simp: socket_defs with_port_def Let_def split: if_splits option.splits prod.splits)

text \<open>The promise of \<open>wait_for_client\<close>: it connects the socket to the author of the first
  datagram that waits, and does not consume it, so a second call gives the same result, does not
  block, and leaves the socket connected to the same address.\<close>

theorem wait_for_client_idempotent:
  assumes "wait_for_client os zero sfd k = Some (0, k1)"
    and "\<not> os_recv_fails os (k_calls k1)" "\<forall>a\<in>set (k_queue k sfd). \<not> os_connect_fails os (Suc (k_calls k1)) a"
  shows "\<exists>b bs k2. k_queue k sfd = b # bs \<and> k_peer k1 sfd = Some b \<and> k_queue k1 = k_queue k \<and>
    wait_for_client os zero sfd k1 = Some (0, k2) \<and> k2 = k1\<lparr>k_calls := k_calls k1 + 2\<rparr>"
  using assms by (auto simp: wait_for_client_spec Let_def split: if_splits list.splits)

section \<open>Instances\<close>

text \<open>A system where the next descriptor is 3, \<open>connect\<close> fails for port 0 only, and a datagram waits.\<close>

definition os_good :: "unit os" where
  "os_good = \<lparr>os_getaddrinfo = (\<lambda>_. (0, \<lparr>sin6_addr = (), sin6_port = 0\<rparr>)), os_gai_strerror = (\<lambda>_. []),
     os_socket = (\<lambda>_. 3), os_bind_fails = (\<lambda>_ _. False), os_connect_fails = (\<lambda>_ a. sin6_port a = 0),
     os_recv_fails = (\<lambda>_. False), os_open = (\<lambda>_ _. 4)\<rparr>"

definition any_addr :: "unit sockaddr_in6" where
  "any_addr = \<lparr>sin6_addr = (), sin6_port = 0\<rparr>"

definition kernel0 :: "unit kernel" where
  "kernel0 = \<lparr>k_calls = 0, k_open = {0, 1, 2}, k_bound = (\<lambda>_. None), k_peer = (\<lambda>_. None),
     k_queue = (\<lambda>_. [\<lparr>sin6_addr = (), sin6_port = 7\<rparr>])\<rparr>"

theorem create_socket_spec_witness:
  "\<exists>k1 k2 s1 s2 d1 d2. create_socket os_good None 0 (Some any_addr) 65536 kernel0 = (-1, s1, d1, k1) \<and>
    k_open k1 = {0, 1, 2, 3} \<and>
    create_socket os_good None 0 (Some any_addr) 8080 kernel0 = (3, s2, d2, k2) \<and>
    k_peer k2 = [3 \<mapsto> \<lparr>sin6_addr = (), sin6_port = htons 8080\<rparr>]"
proof -
  let ?b = "\<lambda>p. any_addr\<lparr>sin6_port := htons p\<rparr>"
  have 1: "\<exists>k1. create_socket os_good None 0 (Some any_addr) 65536 kernel0 = (-1, None, Some (?b 0), k1)"
    and 2: "\<exists>k2. create_socket os_good None 0 (Some any_addr) 8080 kernel0 = (3, None, Some (?b 8080), k2)"
    by (simp_all add: create_socket_connect os_good_def Let_def)
  from 1 obtain k1 where k1: "create_socket os_good None 0 (Some any_addr) 65536 kernel0 = (-1, None, Some (?b 0), k1)" ..
  from 2 obtain k2 where k2: "create_socket os_good None 0 (Some any_addr) 8080 kernel0 = (3, None, Some (?b 8080), k2)" ..
  have fd: "os_socket os_good (k_calls kernel0) = 3" by (simp add: os_good_def)
  from create_socket_spec [OF k1 fd] create_socket_spec [OF k2 fd] k1 k2 show ?thesis
    by (auto simp: kernel0_def with_port_def any_addr_def)
qed

theorem wait_for_client_idempotent_witness:
  "\<exists>k1 k2 b. wait_for_client os_good any_addr 3 kernel0 = Some (0, k1) \<and> k_peer k1 3 = Some b \<and>
    wait_for_client os_good any_addr 3 k1 = Some (0, k2) \<and> k_peer k2 3 = Some b \<and> k_queue k2 3 = k_queue kernel0 3"
proof -
  obtain k1 where k1: "wait_for_client os_good any_addr 3 kernel0 = Some (0, k1)"
    by (simp add: wait_for_client_spec os_good_def kernel0_def Let_def)
  have "\<not> os_recv_fails os_good (k_calls k1)" by (simp add: os_good_def)
  moreover have "\<not> os_connect_fails os_good (Suc (k_calls k1)) b" if "b \<in> set (k_queue kernel0 3)" for b
    using that by (simp add: os_good_def kernel0_def)
  ultimately show ?thesis using wait_for_client_idempotent [OF k1] k1 by fastforce
qed

end
