(* ===== verification/Getopt.thy ===== *)
theory Getopt
  imports Prelude
begin

text \<open>
  Command lines, as the programs read them with the C library: \<open>getopt\<close> and \<open>getopt_long\<close> of the
  GNU library, which move the operands behind the options, and \<open>atoi\<close>. An argument vector is the
  list of its strings after the program's name; what the calls of \<open>getopt\<close> return one after the
  other is a list, with the operands left when it answers -1.
\<close>

datatype gopt =
    Opt char                \<comment> \<open>an option without an argument\<close>
  | OptArg char string      \<comment> \<open>an option with \<open>optarg\<close>\<close>
  | Missing char            \<comment> \<open>\<open>?\<close> with \<open>optopt\<close>: the argument is missing\<close>
  | Unknown char            \<comment> \<open>\<open>?\<close> with \<open>optopt\<close>: no such option\<close>
  | BadLong                 \<comment> \<open>\<open>?\<close>: an unknown, ambiguous or ill-used long option\<close>

text \<open>\<open>optstring\<close> as a function: \<open>Some True\<close> for an option followed by a colon.\<close>

type_synonym optstring = "char \<Rightarrow> bool option"

fun cluster :: "optstring \<Rightarrow> string \<Rightarrow> string list \<Rightarrow> gopt list \<times> string list" where
  "cluster t [] args = ([], args)"
| "cluster t (c # cs) args =
     (case t c of
        None \<Rightarrow> (let (gs, r) = cluster t cs args in (Unknown c # gs, r))
      | Some False \<Rightarrow> (let (gs, r) = cluster t cs args in (Opt c # gs, r))
      | Some True \<Rightarrow>
          (if cs \<noteq> [] then ([OptArg c cs], args)
           else case args of [] \<Rightarrow> ([Missing c], []) | a # args' \<Rightarrow> ([OptArg c a], args')))"

lemma cluster_shrinks: "cluster t cs args = (gs, r) \<Longrightarrow> length r \<le> length args"
  by (induction t cs args arbitrary: gs r rule: cluster.induct)
     (fastforce split: option.splits bool.splits if_splits list.splits prod.splits)+

text \<open>Long options: name, whether it takes an argument, and the value it stands for. A prefix is
  enough when only one name has it.\<close>

type_synonym longopts = "(string \<times> bool \<times> char) list"

definition long_find :: "longopts \<Rightarrow> string \<Rightarrow> (bool \<times> char) option" where
  "long_find ls n =
     (case map_of ls n of
        Some x \<Rightarrow> Some x
      | None \<Rightarrow> (case filter (\<lambda>(m, _). take (length n) m = n) ls of [(_, x)] \<Rightarrow> Some x | _ \<Rightarrow> None))"

definition long_option :: "longopts \<Rightarrow> string \<Rightarrow> string list \<Rightarrow> gopt \<times> string list" where
  "long_option ls body args =
     (let n = takeWhile (\<lambda>c. c \<noteq> CHR ''='') body; rest = dropWhile (\<lambda>c. c \<noteq> CHR ''='') body in
      case long_find ls n of
        None \<Rightarrow> (BadLong, args)
      | Some (False, c) \<Rightarrow> (if rest = [] then Opt c else BadLong, args)
      | Some (True, c) \<Rightarrow>
          (case rest of
             _ # a \<Rightarrow> (OptArg c a, args)
           | [] \<Rightarrow> (case args of [] \<Rightarrow> (Missing c, []) | a # args' \<Rightarrow> (OptArg c a, args'))))"

lemma long_option_shrinks: "long_option ls body args = (g, r) \<Longrightarrow> length r \<le> length args"
  by (auto simp: long_option_def Let_def split: option.splits bool.splits list.splits if_splits)

text \<open>The scan of a whole command line. With no long options (\<open>getopt\<close>) a word after two dashes
  is a cluster like any other, which starts with the unknown option \<open>-\<close>.\<close>

function scan :: "optstring \<Rightarrow> longopts \<Rightarrow> string list \<Rightarrow> gopt list \<times> string list" where
  "scan t ls [] = ([], [])"
| "scan t ls (a # args) =
     (if a = ''--'' then ([], args)
      else if length a \<ge> 2 \<and> a ! 0 = CHR ''-'' then
        (if ls \<noteq> [] \<and> a ! 1 = CHR ''-''
         then (let (g, r) = long_option ls (drop 2 a) args; (gs, ops) = scan t ls r in (g # gs, ops))
         else (let (gs1, r) = cluster t (tl a) args; (gs2, ops) = scan t ls r in (gs1 @ gs2, ops)))
      else (let (gs, ops) = scan t ls args in (gs, a # ops)))"
  by pat_completeness auto
termination
  by (relation "measure (\<lambda>(_, _, args). length args)")
     (auto simp: less_Suc_eq_le dest: cluster_shrinks [OF sym] long_option_shrinks [OF sym])

section \<open>Numbers\<close>

definition is_space :: "char \<Rightarrow> bool" where
  "is_space c \<longleftrightarrow> of_char c \<in> {9, 10, 11, 12, 13, 32 :: nat}"

definition is_digit :: "char \<Rightarrow> bool" where
  "is_digit c \<longleftrightarrow> 48 \<le> (of_char c :: nat) \<and> (of_char c :: nat) \<le> 57"

definition is_print :: "char \<Rightarrow> bool" where
  "is_print c \<longleftrightarrow> 32 \<le> (of_char c :: nat) \<and> (of_char c :: nat) \<le> 126"

text \<open>\<open>atoi\<close> is \<open>strtol\<close> in base 10, which saturates at the limits of a 64 bit \<open>long\<close>, converted to
  \<open>int\<close>.\<close>

definition atoi :: "string \<Rightarrow> int" where
  "atoi s =
     (let s1 = dropWhile is_space s;
          neg = (case s1 of c # _ \<Rightarrow> c = CHR ''-'' | [] \<Rightarrow> False);
          s2 = (case s1 of c # cs \<Rightarrow> if c = CHR ''-'' \<or> c = CHR ''+'' then cs else s1 | [] \<Rightarrow> []);
          n = foldl (\<lambda>v c. 10 * v + (of_char c - 48)) (0 :: int) (takeWhile is_digit s2);
          v = max (- (2 ^ 63)) (min (2 ^ 63 - 1) (if neg then - n else n)) in
      sint (word_of_int v :: u32))"

lemma atoi_range: "- (2 ^ 31) \<le> atoi s" "atoi s < 2 ^ 31"
  unfolding atoi_def Let_def by (rule order_trans [OF _ sint_ge] order_less_le_trans [OF sint_lt]; simp)+

lemma atoi_examples:
  "atoi ''12345'' = 12345" "atoi '' -7x'' = -7" "atoi ''http'' = 0" "atoi ''4294967297'' = 1"
  by code_simp+

section \<open>Operands and options\<close>

text \<open>A word of one character or one that does not start with a dash is an operand wherever it
  stands.\<close>

definition plain :: "string \<Rightarrow> bool" where
  "plain a \<longleftrightarrow> length a < 2 \<or> a ! 0 \<noteq> CHR ''-''"

lemma scan_Nil [simp]: "scan t ls [] = ([], [])"
  by simp

lemma scan_plain: "plain a \<Longrightarrow> scan t ls (a # args) = (fst (scan t ls args), a # snd (scan t ls args))"
  by (auto simp: plain_def split: prod.split)

lemma scan_operands: "\<forall>a\<in>set args. plain a \<Longrightarrow> scan t ls args = ([], args)"
  by (induction args) (auto simp del: scan.simps(2) simp: scan_plain)

lemma scan_optarg:
  "t c = Some True \<Longrightarrow> c \<noteq> CHR ''-'' \<Longrightarrow>
     scan t ls ([CHR ''-'', c] # a # args) = (OptArg c a # fst (scan t ls args), snd (scan t ls args))"
  by (auto split: prod.split)

declare scan.simps(2) [simp del]

section \<open>Which options a scan can give\<close>

definition opt_ok :: "optstring \<Rightarrow> longopts \<Rightarrow> gopt \<Rightarrow> bool" where
  "opt_ok t ls g =
     (case g of
        Opt c \<Rightarrow> t c = Some False \<or> (False, c) \<in> snd ` set ls
      | OptArg c _ \<Rightarrow> t c = Some True \<or> (True, c) \<in> snd ` set ls
      | Missing c \<Rightarrow> t c = Some True \<or> (True, c) \<in> snd ` set ls
      | Unknown c \<Rightarrow> t c = None
      | BadLong \<Rightarrow> ls \<noteq> [])"

lemma cluster_ok: "g \<in> set (fst (cluster t cs args)) \<Longrightarrow> opt_ok t ls g"
  by (induction t cs args rule: cluster.induct)
     (auto simp: opt_ok_def split: option.splits bool.splits if_splits list.splits prod.splits)

lemma long_find_in: "long_find ls n = Some x \<Longrightarrow> x \<in> snd ` set ls"
  by (auto simp: long_find_def image_iff split: option.splits list.splits dest!: map_of_SomeD filter_eq_ConsD)
     (metis in_set_conv_decomp snd_conv)+

lemma long_option_ok: "ls \<noteq> [] \<Longrightarrow> opt_ok t ls (fst (long_option ls body args))"
  by (auto simp: long_option_def opt_ok_def Let_def dest: long_find_in split: option.splits bool.splits list.splits)

lemma scan_ok: "g \<in> set (fst (scan t ls args)) \<Longrightarrow> opt_ok t ls g"
proof (induction t ls args rule: scan.induct)
  case (2 t ls a args)
  have c: "opt_ok t ls g" if "cluster t (tl a) args = (gs, r)" "g \<in> set gs" for gs r
    using cluster_ok [of g t "tl a" args ls] that by simp
  have l: "opt_ok t ls g" if "long_option ls (drop 2 a) args = (g, r)" "ls \<noteq> []" for r
    using long_option_ok [of ls t "drop 2 a" args] that by simp
  from 2 show ?case
    by (auto simp: scan.simps(2) split: if_splits prod.splits dest: c l)
qed simp

end
