(* ===== verification/Memory.thy ===== *)
theory Memory
  imports Bytes
begin

text \<open>
  The part of the C run-time environment the program touches: the heap of byte blocks that
  \<open>malloc\<close> and \<open>free\<close> manage, the clock read by \<open>gettimeofday\<close>, and the log of what the
  program wrote with \<open>write(2)\<close>.

  Blocks are numbered by the allocation that made them; a number is never used again, so a
  dangling pointer stays recognisable. What the environment decides is a field no operation
  changes: which allocations fail (\<open>oom\<close>), what a fresh block contains (\<open>junk\<close>), what the
  clock says (\<open>clock\<close>), which writes fail (\<open>wfail\<close>), and how a pointer is represented in
  memory (\<open>ptr_repr\<close>).
\<close>

type_synonym ptr = "nat option" \<comment> \<open>\<open>None\<close> is \<open>NULL\<close>\<close>

record timeval =
  tv_sec :: int
  tv_usec :: int

datatype obs =
    Sent bytes    \<comment> \<open>a datagram written to the socket\<close>
  | Wrote bytes   \<comment> \<open>bytes written to the output file\<close>

record world =
  mem :: "nat \<Rightarrow> bytes option"
  nalloc :: nat
  oom :: "nat \<Rightarrow> bool"
  junk :: "nat \<Rightarrow> nat \<Rightarrow> byte"
  nclock :: nat
  clock :: "nat \<Rightarrow> timeval"
  nwrite :: nat
  wfail :: "nat \<Rightarrow> bool"
  ptr_repr :: "ptr \<Rightarrow> 64 word"
  obslog :: "obs list"

section \<open>Operations\<close>

definition malloc :: "nat \<Rightarrow> world \<Rightarrow> ptr \<times> world" where
  "malloc n w =
     (let k = nalloc w in
      if oom w k then (None, w\<lparr>nalloc := Suc k\<rparr>)
      else (Some k, w\<lparr>nalloc := Suc k, mem := (mem w)(k \<mapsto> map (junk w k) [0..<n])\<rparr>))"

definition free :: "ptr \<Rightarrow> world \<Rightarrow> world outcome" where
  "free p w =
     (case p of
        None \<Rightarrow> Inr w
      | Some a \<Rightarrow> (case mem w a of
                    None \<Rightarrow> Inl DoubleFree
                  | Some bs \<Rightarrow> Inr (w\<lparr>mem := (mem w)(a := None)\<rparr>)))"

text \<open>Reading \<open>n\<close> bytes from offset \<open>off\<close> of a block, and \<open>memcpy\<close> of \<open>n\<close> bytes of a
  source region to the start of a block. A transfer of no bytes touches nothing.\<close>

definition load :: "ptr \<Rightarrow> nat \<Rightarrow> nat \<Rightarrow> world \<Rightarrow> bytes outcome" where
  "load p off n w =
     (if n = 0 then Inr []
      else case p of
        None \<Rightarrow> Inl NullDeref
      | Some a \<Rightarrow> (case mem w a of None \<Rightarrow> Inl UseAfterFree | Some bs \<Rightarrow> arr_read bs off n))"

definition memcpy_to :: "ptr \<Rightarrow> bytes option \<Rightarrow> nat \<Rightarrow> world \<Rightarrow> world outcome" where
  "memcpy_to p src n w =
     (if n = 0 then Inr w
      else case (p, src) of
        (Some a, Some bs) \<Rightarrow>
          (case mem w a of
             None \<Rightarrow> Inl UseAfterFree
           | Some blk \<Rightarrow>
               andthen (arr_read bs 0 n) (\<lambda>xs.
               andthen (arr_write blk 0 xs) (\<lambda>blk'.
               Inr (w\<lparr>mem := (mem w)(a \<mapsto> blk')\<rparr>))))
      | _ \<Rightarrow> Inl NullDeref)"

definition gettimeofday :: "world \<Rightarrow> timeval \<times> world" where
  "gettimeofday w = (clock w (nclock w), w\<lparr>nclock := Suc (nclock w)\<rparr>)"

text \<open>\<open>write(2)\<close>: the return value is negative when the call fails, else the byte count.\<close>

definition do_write :: "(bytes \<Rightarrow> obs) \<Rightarrow> bytes \<Rightarrow> world \<Rightarrow> int \<times> world" where
  "do_write k bs w =
     (let w1 = w\<lparr>nwrite := Suc (nwrite w)\<rparr> in
      if wfail w (nwrite w) then (-1, w1)
      else (int (length bs), w1\<lparr>obslog := obslog w @ [k bs]\<rparr>))"

section \<open>Frame conditions\<close>

text \<open>No block beyond the allocation counter is live.\<close>

definition heap_ok :: "world \<Rightarrow> bool" where
  "heap_ok w \<longleftrightarrow> (\<forall>a\<ge>nalloc w. mem w a = None)"

text \<open>Every block live in \<open>w\<close> is live in \<open>w'\<close> with the same contents.\<close>

definition keeps :: "world \<Rightarrow> world \<Rightarrow> bool" where
  "keeps w w' \<longleftrightarrow> (\<forall>a bs. mem w a = Some bs \<longrightarrow> mem w' a = Some bs)"

definition live :: "world \<Rightarrow> ptr \<Rightarrow> bool" where
  "live w p \<longleftrightarrow> (case p of None \<Rightarrow> True | Some a \<Rightarrow> mem w a \<noteq> None)"

text \<open>The choices of the environment are the same in both worlds.\<close>

definition same_env :: "world \<Rightarrow> world \<Rightarrow> bool" where
  "same_env w w' \<longleftrightarrow> oom w' = oom w \<and> junk w' = junk w \<and> clock w' = clock w \<and> wfail w' = wfail w
     \<and> ptr_repr w' = ptr_repr w"

lemma keeps_refl [simp]: "keeps w w"
  by (simp add: keeps_def)

lemma keeps_trans [trans]: "keeps w w' \<Longrightarrow> keeps w' w'' \<Longrightarrow> keeps w w''"
  by (simp add: keeps_def)

lemma keepsD: "keeps w w' \<Longrightarrow> mem w a = Some bs \<Longrightarrow> mem w' a = Some bs"
  by (simp add: keeps_def)

lemma keeps_mem_eq: "mem w' = mem w \<Longrightarrow> keeps w w'"
  by (simp add: keeps_def)

lemma keeps_live: "keeps w w' \<Longrightarrow> live w p \<Longrightarrow> live w' p"
  by (auto simp: live_def keeps_def split: option.splits)

lemma live_None [simp]: "live w None"
  by (simp add: live_def)

lemma live_Some [simp]: "live w (Some a) \<longleftrightarrow> mem w a \<noteq> None"
  by (simp add: live_def)

lemma same_env_refl [simp]: "same_env w w"
  by (simp add: same_env_def)

lemma same_env_trans [trans]: "same_env w w' \<Longrightarrow> same_env w' w'' \<Longrightarrow> same_env w w''"
  by (simp add: same_env_def)

lemma heap_ok_nalloc: "heap_ok w \<Longrightarrow> mem w (nalloc w) = None"
  by (simp add: heap_ok_def)

lemma gettimeofday_mem [simp]:
  "mem (snd (gettimeofday w)) = mem w" "nalloc (snd (gettimeofday w)) = nalloc w"
  "oom (snd (gettimeofday w)) = oom w" "obslog (snd (gettimeofday w)) = obslog w"
  "wfail (snd (gettimeofday w)) = wfail w" "nwrite (snd (gettimeofday w)) = nwrite w"
  by (simp_all add: gettimeofday_def)

lemma same_env_gettimeofday [simp]: "same_env w (snd (gettimeofday w))"
  by (simp add: gettimeofday_def same_env_def)

lemma same_env_malloc [simp]: "same_env w (snd (malloc n w))"
  by (simp add: malloc_def same_env_def Let_def)

lemma same_env_do_write [simp]: "same_env w (snd (do_write k bs w))"
  by (simp add: do_write_def same_env_def Let_def)

lemma same_env_free: "free p w = Inr w' \<Longrightarrow> same_env w w'"
  by (auto simp: free_def same_env_def split: option.splits)

lemma do_write_mem [simp]:
  "mem (snd (do_write k bs w)) = mem w" "nalloc (snd (do_write k bs w)) = nalloc w"
  "oom (snd (do_write k bs w)) = oom w" "nclock (snd (do_write k bs w)) = nclock w"
  by (simp_all add: do_write_def Let_def)

lemma load_0 [simp]: "load p off 0 w = Inr []"
  by (simp add: load_def)

lemma load_ok:
  "mem w a = Some bs \<Longrightarrow> off + n \<le> length bs \<Longrightarrow> load (Some a) off n w = Inr (take n (drop off bs))"
  by (simp add: load_def arr_read_def)

lemma free_live: "live w p \<Longrightarrow> \<exists>w'. free p w = Inr w'"
  by (auto simp: free_def live_def split: option.splits)

lemma free_None [simp]: "free None w = Inr w"
  by (simp add: free_def)

lemma free_Some: "mem w a = Some bs \<Longrightarrow> free (Some a) w = Inr (w\<lparr>mem := (mem w)(a := None)\<rparr>)"
  by (simp add: free_def)

section \<open>The allocator as an interface\<close>

text \<open>
  What the packet code relies on: an allocation that succeeds returns a block that was not
  live before and leaves every live block alone; releasing a block leaves all others alone.
\<close>

locale block_store =
  fixes blocks :: "'w \<Rightarrow> nat \<Rightarrow> 'b option"
    and alloc :: "nat \<Rightarrow> 'w \<Rightarrow> nat option \<times> 'w"
    and release :: "nat option \<Rightarrow> 'w \<Rightarrow> 'w outcome"
    and inv :: "'w \<Rightarrow> bool"
  assumes alloc_inv: "inv w \<Longrightarrow> inv (snd (alloc n w))"
    and alloc_fresh: "inv w \<Longrightarrow> fst (alloc n w) = Some a \<Longrightarrow> blocks w a = None"
    and alloc_live: "fst (alloc n w) = Some a \<Longrightarrow> blocks (snd (alloc n w)) a \<noteq> None"
    and alloc_other: "fst (alloc n w) \<noteq> Some b \<Longrightarrow> blocks (snd (alloc n w)) b = blocks w b"
    and release_inv: "inv w \<Longrightarrow> release p w = Inr w' \<Longrightarrow> inv w'"
    and release_gone: "release (Some a) w = Inr w' \<Longrightarrow> blocks w' a = None"
    and release_other: "release p w = Inr w' \<Longrightarrow> p \<noteq> Some b \<Longrightarrow> blocks w' b = blocks w b"
    and release_live: "blocks w a \<noteq> None \<Longrightarrow> \<exists>w'. release (Some a) w = Inr w'"
    and release_null: "release None w = Inr w"
    and release_dead: "blocks w a = None \<Longrightarrow> release (Some a) w = Inl DoubleFree"
begin

lemma alloc_keeps: "inv w \<Longrightarrow> blocks w b = Some x \<Longrightarrow> blocks (snd (alloc n w)) b = Some x"
  by (cases "fst (alloc n w) = Some b") (auto simp: alloc_other dest: alloc_fresh)

lemma alloc_distinct: "inv w \<Longrightarrow> fst (alloc n w) = Some a \<Longrightarrow> blocks w b = Some x \<Longrightarrow> a \<noteq> b"
  using alloc_fresh by fastforce

lemma release_twice: "release (Some a) w = Inr w' \<Longrightarrow> release (Some a) w' = Inl DoubleFree"
  by (simp add: release_dead release_gone)

lemma alloc_release:
  assumes "inv w" "fst (alloc n w) = Some a" "release (Some a) (snd (alloc n w)) = Inr w'"
  shows "blocks w' = blocks w"
proof
  fix b show "blocks w' b = blocks w b"
    using assms release_gone release_other alloc_other alloc_fresh by (cases "b = a") fastforce+
qed

end

lemma malloc_heap_ok: "heap_ok w \<Longrightarrow> heap_ok (snd (malloc n w))"
  by (auto simp: heap_ok_def malloc_def Let_def)

interpretation heap: block_store mem malloc free heap_ok
  by unfold_locales
    (auto simp: malloc_heap_ok heap_ok_nalloc,
     auto simp: malloc_def free_def heap_ok_def Let_def split: option.splits if_splits)

lemma malloc_keeps: "heap_ok w \<Longrightarrow> keeps w (snd (malloc n w))"
  by (auto simp: keeps_def heap.alloc_keeps)

lemma malloc_ok:
  "\<not> oom w (nalloc w) \<Longrightarrow>
     malloc n w = (Some (nalloc w),
       w\<lparr>nalloc := Suc (nalloc w), mem := (mem w)(nalloc w \<mapsto> map (junk w (nalloc w)) [0..<n])\<rparr>)"
  by (simp add: malloc_def Let_def)

end
