(* ===== verification/Packet.thy ===== *)
theory Packet
  imports Memory
begin

text \<open>
  The packet structure of packet_implem.c: \<open>struct pkt\<close> with its packed bit-fields as a
  record, the constants of packet_interface.h, the constructor, the accessors and
  \<open>pkt_set_payload\<close>. A \<open>pkt_t*\<close> variable of the program never shares its structure with
  another variable (\<open>pkt_copy\<close> copies the structure), so a packet is passed as a value; its
  \<open>PAYLOAD\<close> pointer is shared by copies and refers to the heap of theory Memory.

  Field names that clash with Isabelle's syntax carry a suffix: \<open>TYPE_f\<close>, \<open>LENGTH_f\<close>.
  \<open>LENGTH\<close>, \<open>CRC1\<close> and \<open>CRC2\<close> hold values in network byte order, as in the code.
\<close>

section \<open>Constants and data\<close>

datatype pkt_status_code =
    PKT_OK | E_TYPE | E_TR | E_LENGTH | E_CRC | E_WINDOW | E_SEQNUM | E_NOMEM | E_NOHEADER
  | E_UNCONSISTENT

abbreviation PTYPE_DATA :: u32 where "PTYPE_DATA \<equiv> 1"
abbreviation PTYPE_ACK :: u32 where "PTYPE_ACK \<equiv> 2"
abbreviation PTYPE_NACK :: u32 where "PTYPE_NACK \<equiv> 3"

definition MAX_PAYLOAD_SIZE :: nat where "MAX_PAYLOAD_SIZE = 512"
definition MAX_WINDOW_SIZE :: nat where "MAX_WINDOW_SIZE = 31"

record pkt =
  WINDOW :: "5 word"
  TR :: "1 word"
  TYPE_f :: "2 word"
  SEQNUM :: u8
  LENGTH_f :: u16
  TIMESTAMP :: u32
  CRC1 :: u32
  PAYLOAD :: ptr
  CRC2 :: u32

text \<open>The first 8 bytes of the structure in memory. The first byte holds the bit-fields,
  \<open>WINDOW\<close> in the low five bits, then \<open>TR\<close>, then \<open>TYPE\<close>.\<close>

definition byte0 :: "pkt \<Rightarrow> byte" where
  "byte0 p = ucast (WINDOW p) OR push_bit 5 (ucast (TR p)) OR push_bit 6 (ucast (TYPE_f p))"

definition set_byte0 :: "pkt \<Rightarrow> byte \<Rightarrow> pkt" where
  "set_byte0 p b =
     p\<lparr>WINDOW := ucast b, TR := ucast (drop_bit 5 b), TYPE_f := ucast (drop_bit 6 b)\<rparr>"

definition header_bytes :: "pkt \<Rightarrow> bytes" where
  "header_bytes p = [byte0 p, SEQNUM p] @ le16 (LENGTH_f p) @ le32 (TIMESTAMP p)"

definition pkt_copy :: "pkt \<Rightarrow> pkt \<Rightarrow> pkt" where
  "pkt_copy source dest = source"

text \<open>\<open>malloc\<close> of the structure: \<open>SEQNUM\<close> and \<open>CRC2\<close> are not assigned and keep what the
  fresh block contains at their offsets 1 and 20.\<close>

definition pkt_new :: "world \<Rightarrow> pkt option \<times> world" where
  "pkt_new w =
     (let k = nalloc w; w1 = w\<lparr>nalloc := Suc k\<rparr> in
      if oom w k then (None, w1)
      else (Some \<lparr>WINDOW = 0, TR = 0, TYPE_f = 1, SEQNUM = junk w k 1, LENGTH_f = htons 0,
                  TIMESTAMP = 0, CRC1 = 0, PAYLOAD = None,
                  CRC2 = of_le (map (junk w k) [20..<24])\<rparr>, w1))"

text \<open>\<open>pkt_del\<close> reads \<open>pkt->PAYLOAD\<close> without looking whether \<open>pkt\<close> is \<open>NULL\<close>.\<close>

definition pkt_del :: "pkt option \<Rightarrow> world \<Rightarrow> world outcome" where
  "pkt_del p w = (case p of None \<Rightarrow> Inl NullDeref | Some q \<Rightarrow> free (PAYLOAD q) w)"

section \<open>Accessors\<close>

definition pkt_get_type :: "pkt \<Rightarrow> u32" where
  "pkt_get_type p = ucast (TYPE_f p)"

definition pkt_get_tr :: "pkt \<Rightarrow> u8" where
  "pkt_get_tr p = ucast (TR p)"

definition pkt_get_window :: "pkt \<Rightarrow> u8" where
  "pkt_get_window p = ucast (WINDOW p)"

definition pkt_get_seqnum :: "pkt \<Rightarrow> u8" where
  "pkt_get_seqnum p = SEQNUM p"

definition pkt_get_length :: "pkt \<Rightarrow> u16" where
  "pkt_get_length p = (if TR p = 0 then ntohs (LENGTH_f p) else 0)"

definition pkt_get_timestamp :: "pkt \<Rightarrow> u32" where
  "pkt_get_timestamp p = TIMESTAMP p"

definition pkt_get_crc1 :: "pkt \<Rightarrow> u32" where
  "pkt_get_crc1 p = ntohl (CRC1 p)"

definition pkt_get_crc2 :: "pkt \<Rightarrow> u32" where
  "pkt_get_crc2 p = (if pkt_get_tr p = 0 \<and> pkt_get_length p \<noteq> 0 then ntohl (CRC2 p) else 0)"

definition pkt_get_payload :: "pkt \<Rightarrow> ptr" where
  "pkt_get_payload p = (let pkt_length = pkt_get_length p in
     if pkt_length = 0 then None else PAYLOAD p)"

definition pkt_set_type :: "pkt \<Rightarrow> u32 \<Rightarrow> pkt_status_code \<times> pkt" where
  "pkt_set_type p type =
     (if type = PTYPE_DATA \<or> type = PTYPE_ACK \<or> type = PTYPE_NACK
      then (PKT_OK, p\<lparr>TYPE_f := ucast type\<rparr>) else (E_TYPE, p))"

definition pkt_set_tr :: "pkt \<Rightarrow> u8 \<Rightarrow> pkt_status_code \<times> pkt" where
  "pkt_set_tr p tr =
     (if ucast (TYPE_f p) = PTYPE_DATA then
        (if tr > 1 then (E_TR, p) else (PKT_OK, p\<lparr>TR := ucast tr\<rparr>))
      else (E_TR, p))"

definition pkt_set_window :: "pkt \<Rightarrow> u8 \<Rightarrow> pkt_status_code \<times> pkt" where
  "pkt_set_window p window =
     (if unat window > MAX_WINDOW_SIZE then (E_WINDOW, p) else (PKT_OK, p\<lparr>WINDOW := ucast window\<rparr>))"

definition pkt_set_seqnum :: "pkt \<Rightarrow> u8 \<Rightarrow> pkt_status_code \<times> pkt" where
  "pkt_set_seqnum p seqnum = (PKT_OK, p\<lparr>SEQNUM := seqnum\<rparr>)"

definition pkt_set_length :: "pkt \<Rightarrow> u16 \<Rightarrow> pkt_status_code \<times> pkt" where
  "pkt_set_length p len =
     (if unat len > MAX_PAYLOAD_SIZE then (E_LENGTH, p) else (PKT_OK, p\<lparr>LENGTH_f := htons len\<rparr>))"

definition pkt_set_timestamp :: "pkt \<Rightarrow> u32 \<Rightarrow> pkt_status_code \<times> pkt" where
  "pkt_set_timestamp p timestamp = (PKT_OK, p\<lparr>TIMESTAMP := timestamp\<rparr>)"

definition pkt_set_crc1 :: "pkt \<Rightarrow> u32 \<Rightarrow> pkt_status_code \<times> pkt" where
  "pkt_set_crc1 p crc1 = (PKT_OK, p\<lparr>CRC1 := htonl crc1\<rparr>)"

definition pkt_set_crc2 :: "pkt \<Rightarrow> u32 \<Rightarrow> pkt_status_code \<times> pkt" where
  "pkt_set_crc2 p crc2 = (PKT_OK, p\<lparr>CRC2 := htonl crc2\<rparr>)"

text \<open>The length is set before the old payload is looked at: the old block is released only
  when the packet reads as having no payload with the new length.\<close>

definition pkt_set_payload ::
    "pkt \<Rightarrow> bytes option \<Rightarrow> u16 \<Rightarrow> world \<Rightarrow> (pkt_status_code \<times> pkt \<times> world) outcome" where
  "pkt_set_payload p data len w =
     (let (return_status, p1) = pkt_set_length p len in
      andthen (if pkt_get_payload p1 = None then free (PAYLOAD p1) w else Inr w) (\<lambda>w1.
      if return_status = PKT_OK then
        (let (a, w2) = malloc (unat len) w1; p2 = p1\<lparr>PAYLOAD := a\<rparr> in
         andthen (memcpy_to a data (unat len) w2) (\<lambda>w3. Inr (return_status, p2, w3)))
      else Inr (return_status, p1, w1)))"

end
