(* ===== verification/Packet_Laws.thy ===== *)
theory Packet_Laws
  imports Packet
begin

text \<open>
  Laws of the packet structure: the contract every accessor pair keeps (locale
  \<open>checked_field\<close>, interpreted for each field), the bit-field layout of the first byte, and
  what \<open>pkt_set_payload\<close> does to the heap.
\<close>

section \<open>Bit-fields\<close>

lemma set_byte0_byte0:
  "set_byte0 q (byte0 p) = q\<lparr>WINDOW := WINDOW p, TR := TR p, TYPE_f := TYPE_f p\<rparr>"
proof -
  have "ucast (byte0 p) = WINDOW p"
    unfolding byte0_def by (rule bit_word_eqI) (auto simp: bit_simps)
  moreover have "ucast (drop_bit 5 (byte0 p)) = TR p"
    unfolding byte0_def by (rule bit_word_eqI) (auto simp: bit_simps dest: bit_imp_le_length)
  moreover have "ucast (drop_bit 6 (byte0 p)) = TYPE_f p"
    unfolding byte0_def by (rule bit_word_eqI) (auto simp: bit_simps dest: bit_imp_le_length)
  ultimately show ?thesis by (simp add: set_byte0_def)
qed

lemma byte0_set_byte0: "byte0 (set_byte0 q b) = b"
proof (rule bit_word_eqI)
  fix n assume "n < LENGTH(8)"
  then consider "n < 5" | "n = 5" | "n = 6" | "n = 7" by fastforce
  then show "bit (byte0 (set_byte0 q b)) n \<longleftrightarrow> bit b n"
    by cases (auto simp: byte0_def set_byte0_def bit_simps)
qed

lemma length_header_bytes [simp]: "length (header_bytes p) = 8"
  by (simp add: header_bytes_def)

lemma set_byte0_sel [simp]:
  "SEQNUM (set_byte0 p b) = SEQNUM p" "LENGTH_f (set_byte0 p b) = LENGTH_f p"
  "TIMESTAMP (set_byte0 p b) = TIMESTAMP p" "CRC1 (set_byte0 p b) = CRC1 p"
  "PAYLOAD (set_byte0 p b) = PAYLOAD p" "CRC2 (set_byte0 p b) = CRC2 p"
  by (simp_all add: set_byte0_def)

lemma pkt_get_tr_0 [simp]: "pkt_get_tr p = 0 \<longleftrightarrow> TR p = 0"
proof -
  have "unat (TR p) < 2"
    using unsigned_less [of "TR p"] by simp
  then show ?thesis
    by (simp add: pkt_get_tr_def word_unat_eq_iff unsigned_ucast_eq take_bit_nat_eq_self)
qed

lemma one_word_cases: "(x::1 word) \<noteq> 0 \<longleftrightarrow> x = 1"
proof -
  have "unat x < 2"
    using unsigned_less [of x] by simp
  then show ?thesis
    by (auto simp: word_unat_eq_iff)
qed

section \<open>The accessor contract\<close>

text \<open>
  \<open>setf\<close> either accepts a value, says \<open>PKT_OK\<close> and stores it, or reports \<open>err\<close> and leaves
  the packet as it is. \<open>readable\<close> is the condition under which the getter shows the field.
\<close>

locale checked_field =
  fixes getf :: "'p \<Rightarrow> 'v"
    and setf :: "'p \<Rightarrow> 'v \<Rightarrow> pkt_status_code \<times> 'p"
    and accepts :: "'p \<Rightarrow> 'v \<Rightarrow> bool"
    and readable :: "'p \<Rightarrow> bool"
    and err :: pkt_status_code
  assumes set_accepted: "accepts p v \<Longrightarrow> fst (setf p v) = PKT_OK"
    and set_rejected: "\<not> accepts p v \<Longrightarrow> setf p v = (err, p)"
    and err_not_ok: "err \<noteq> PKT_OK"
    and get_set: "accepts p v \<Longrightarrow> readable p \<Longrightarrow> getf (snd (setf p v)) = v"
    and readable_set: "readable (snd (setf p v)) = readable p"
    and accepts_set: "accepts (snd (setf p v)) u = accepts p u"
    and set_set: "accepts p v \<Longrightarrow> accepts p u \<Longrightarrow> snd (setf (snd (setf p v)) u) = snd (setf p u)"
begin

lemma status_iff: "fst (setf p v) = PKT_OK \<longleftrightarrow> accepts p v"
  using set_accepted set_rejected err_not_ok by (cases "accepts p v") auto

lemma status_cases: "fst (setf p v) = (if accepts p v then PKT_OK else err)"
  by (simp add: set_accepted set_rejected)

text \<open>After any series of writes the getter shows the last accepted one.\<close>

lemma get_after_sets:
  "readable p \<Longrightarrow>
     getf (fold (\<lambda>v q. snd (setf q v)) vs p) =
       (case filter (accepts p) vs of [] \<Rightarrow> getf p | us \<Rightarrow> last us)"
proof (induction vs arbitrary: p)
  case Nil
  then show ?case by simp
next
  case (Cons v vs)
  let ?q = "snd (setf p v)"
  have "accepts ?q = accepts p"
    by (simp add: fun_eq_iff accepts_set)
  with Cons show ?case
    by (cases "accepts p v")
      (auto simp: readable_set set_rejected get_set split: list.splits)
qed

end

lemma ucast_type_id:
  "t = PTYPE_DATA \<or> t = PTYPE_ACK \<or> t = PTYPE_NACK \<Longrightarrow> ucast (ucast t :: 2 word) = (t :: u32)"
  by auto

lemma ucast_le_1: "\<not> tr > 1 \<Longrightarrow> ucast (ucast tr :: 1 word) = (tr :: u8)"
proof -
  assume "\<not> tr > 1"
  then have "tr = 0 \<or> tr = 1"
    by (metis linorder_neqE word_less_1 word_not_simps(1) not_less)
  then show ?thesis by auto
qed

lemma ucast_window_id: "unat w \<le> 31 \<Longrightarrow> ucast (ucast w :: 5 word) = (w :: u8)"
  by (simp add: word_unat_eq_iff unsigned_ucast_eq unsigned_take_bit_eq take_bit_nat_eq_self)

interpretation field_type: checked_field pkt_get_type pkt_set_type
    "\<lambda>p t. t = PTYPE_DATA \<or> t = PTYPE_ACK \<or> t = PTYPE_NACK" "\<lambda>p. True" E_TYPE
  by unfold_locales (auto simp: pkt_set_type_def pkt_get_type_def)

interpretation field_tr: checked_field pkt_get_tr pkt_set_tr
    "\<lambda>p tr. ucast (TYPE_f p) = PTYPE_DATA \<and> \<not> tr > 1" "\<lambda>p. True" E_TR
  by unfold_locales (auto simp: pkt_set_tr_def pkt_get_tr_def ucast_le_1)

interpretation field_window: checked_field pkt_get_window pkt_set_window
    "\<lambda>p w. unat w \<le> MAX_WINDOW_SIZE" "\<lambda>p. True" E_WINDOW
  by unfold_locales
    (auto simp: pkt_set_window_def pkt_get_window_def ucast_window_id MAX_WINDOW_SIZE_def)

interpretation field_seqnum: checked_field pkt_get_seqnum pkt_set_seqnum
    "\<lambda>p s. True" "\<lambda>p. True" E_SEQNUM
  by unfold_locales (auto simp: pkt_set_seqnum_def pkt_get_seqnum_def)

interpretation field_length: checked_field pkt_get_length pkt_set_length
    "\<lambda>p l. unat l \<le> MAX_PAYLOAD_SIZE" "\<lambda>p. TR p = 0" E_LENGTH
  by unfold_locales (auto simp: pkt_set_length_def pkt_get_length_def)

interpretation field_timestamp: checked_field pkt_get_timestamp pkt_set_timestamp
    "\<lambda>p t. True" "\<lambda>p. True" E_UNCONSISTENT
  by unfold_locales (auto simp: pkt_set_timestamp_def pkt_get_timestamp_def)

interpretation field_crc1: checked_field pkt_get_crc1 pkt_set_crc1
    "\<lambda>p c. True" "\<lambda>p. True" E_CRC
  by unfold_locales (auto simp: pkt_set_crc1_def pkt_get_crc1_def)

interpretation field_crc2: checked_field pkt_get_crc2 pkt_set_crc2
    "\<lambda>p c. True" "\<lambda>p. TR p = 0 \<and> LENGTH_f p \<noteq> 0" E_CRC
  by unfold_locales
    (auto simp: pkt_set_crc2_def pkt_get_crc2_def pkt_get_tr_def pkt_get_length_def)

lemmas setter_defs = pkt_set_type_def pkt_set_tr_def pkt_set_window_def pkt_set_seqnum_def
  pkt_set_length_def pkt_set_timestamp_def pkt_set_crc1_def pkt_set_crc2_def

lemmas getter_defs = pkt_get_type_def pkt_get_tr_def pkt_get_window_def pkt_get_seqnum_def
  pkt_get_length_def pkt_get_timestamp_def pkt_get_crc1_def pkt_get_crc2_def pkt_get_payload_def

section \<open>Payloads and the heap\<close>

text \<open>A packet whose payload pointer is the block its length promises.\<close>

definition payload_is :: "pkt \<Rightarrow> world \<Rightarrow> bytes \<Rightarrow> bool" where
  "payload_is p w bs \<longleftrightarrow>
     TR p = 0 \<and> length bs \<le> MAX_PAYLOAD_SIZE \<and> LENGTH_f p = htons (of_nat (length bs)) \<and>
     (bs \<noteq> [] \<longrightarrow> (\<exists>a blk. PAYLOAD p = Some a \<and> mem w a = Some blk \<and>
        length bs \<le> length blk \<and> take (length bs) blk = bs))"

lemma memcpy_fresh:
  assumes "mem w a = Some blk" "length blk = n" "n \<le> length src"
  shows "memcpy_to (Some a) (Some src) n w = Inr (w\<lparr>mem := (mem w)(a \<mapsto> take n src)\<rparr>)"
proof (cases "n = 0")
  case True
  with assms show ?thesis by (simp add: memcpy_to_def fun_upd_idem)
next
  case False
  with assms show ?thesis
    by (simp add: memcpy_to_def arr_read_def arr_write_def put_at_def)
qed

lemma unat_of_nat_len [simp]: "n \<le> 512 \<Longrightarrow> unat (of_nat n :: u16) = n"
  by (simp add: unat_of_nat)

lemma of_nat_len_eq_0 [simp]: "n \<le> 512 \<Longrightarrow> (of_nat n :: u16) = 0 \<longleftrightarrow> n = 0"
  by (simp add: word_unat_eq_iff unat_of_nat)

lemma take_eq_self: "length bs \<le> n \<Longrightarrow> take n bs = bs"
  by simp

text \<open>
  The heap after \<open>pkt_set_payload\<close> succeeded: the old block is gone unless the packet still
  shows it with the new length (\<open>TR\<close> clear, length positive), and a fresh block holds the
  data.
\<close>

definition released :: "world \<Rightarrow> ptr \<Rightarrow> world" where
  "released w p = (case p of None \<Rightarrow> w | Some a \<Rightarrow> w\<lparr>mem := (mem w)(a := None)\<rparr>)"

definition stored :: "world \<Rightarrow> bytes \<Rightarrow> world" where
  "stored w bs = w\<lparr>nalloc := Suc (nalloc w), mem := (mem w)(nalloc w \<mapsto> bs)\<rparr>"

lemma free_released: "live w p \<Longrightarrow> free p w = Inr (released w p)"
  by (auto simp: free_def released_def split: option.splits)

lemma released_sel [simp]:
  "nalloc (released w p) = nalloc w" "oom (released w p) = oom w" "junk (released w p) = junk w"
  "obslog (released w p) = obslog w" "clock (released w p) = clock w" "wfail (released w p) = wfail w"
  "nclock (released w p) = nclock w" "nwrite (released w p) = nwrite w"
  by (simp_all add: released_def split: option.splits)

lemma released_None [simp]: "released w None = w"
  by (simp add: released_def)

lemma stored_sel [simp]:
  "nalloc (stored w bs) = Suc (nalloc w)" "oom (stored w bs) = oom w"
  "obslog (stored w bs) = obslog w" "clock (stored w bs) = clock w" "wfail (stored w bs) = wfail w"
  "nclock (stored w bs) = nclock w" "nwrite (stored w bs) = nwrite w"
  "mem (stored w bs) = (mem w)(nalloc w \<mapsto> bs)"
  by (simp_all add: stored_def)

lemma heap_ok_released: "heap_ok w \<Longrightarrow> heap_ok (released w p)"
  by (auto simp: heap_ok_def released_def split: option.splits)

lemma heap_ok_stored: "heap_ok w \<Longrightarrow> heap_ok (stored w bs)"
  by (auto simp: heap_ok_def)

lemma keeps_stored: "heap_ok w \<Longrightarrow> keeps w (stored w bs)"
  by (auto simp: keeps_def heap_ok_def)

lemma same_env_stored [simp]: "same_env w (stored w bs)"
  by (simp add: same_env_def stored_def)

lemma same_env_released [simp]: "same_env w (released w p)"
  by (simp add: same_env_def released_def split: option.splits)

lemma set_payload_eq:
  assumes "\<not> oom w (nalloc w)" "unat l \<le> 512" "unat l \<le> length src" "live w (PAYLOAD p)"
  shows "pkt_set_payload p (Some src) l w =
    Inr (PKT_OK, p\<lparr>LENGTH_f := htons l, PAYLOAD := Some (nalloc w)\<rparr>,
         stored (if TR p = 0 \<and> l \<noteq> 0 then w else released w (PAYLOAD p)) (take (unat l) src))"
proof -
  let ?p = "p\<lparr>LENGTH_f := htons l\<rparr>"
  let ?w = "if TR p = 0 \<and> l \<noteq> 0 then w else released w (PAYLOAD p)"
  have 1: "pkt_set_length p l = (PKT_OK, ?p)"
    using assms(2) by (simp add: pkt_set_length_def MAX_PAYLOAD_SIZE_def)
  have 2: "(if pkt_get_payload ?p = None then free (PAYLOAD ?p) w else Inr w) = Inr ?w"
    using assms(4)
    by (cases "PAYLOAD p") (auto simp: pkt_get_payload_def pkt_get_length_def free_released)
  have 3: "\<not> oom ?w (nalloc ?w)" "nalloc ?w = nalloc w"
    using assms(1) by simp_all
  show ?thesis
    unfolding pkt_set_payload_def 1 Let_def prod.case 2 andthen_Inr malloc_ok [OF 3(1)]
    using assms(3) by (simp add: memcpy_fresh 3(2) stored_def)
qed

lemma set_payload_null:
  assumes "\<not> oom w (nalloc w)" "live w (PAYLOAD p)"
  shows "pkt_set_payload p None 0 w =
    Inr (PKT_OK, p\<lparr>LENGTH_f := 0, PAYLOAD := Some (nalloc w)\<rparr>, stored (released w (PAYLOAD p)) [])"
proof -
  have "pkt_set_length p 0 = (PKT_OK, p\<lparr>LENGTH_f := 0\<rparr>)"
    by (simp add: pkt_set_length_def)
  with assms show ?thesis
    by (simp add: pkt_set_payload_def pkt_get_payload_def pkt_get_length_def Let_def free_released
        malloc_ok memcpy_to_def stored_def)
qed

lemma set_payload_too_long:
  assumes "unat l > 512" "live w (PAYLOAD p)"
  shows "\<exists>w'. pkt_set_payload p src l w = Inr (E_LENGTH, p, w')"
  using assms
  by (auto simp: pkt_set_payload_def pkt_set_length_def MAX_PAYLOAD_SIZE_def free_released)

end
