(* ===== verification/Codec.thy ===== *)
theory Codec
  imports Packet_Laws
begin

text \<open>
  \<open>pkt_encode\<close> and \<open>pkt_decode\<close> of packet_implem.c. The check-sum \<open>crc32\<close> is zlib's and a
  parameter of the model: \<open>crc32 c None\<close> is the call with \<open>Z_NULL\<close>, \<open>crc32 c (Some bs)\<close> the
  call on the bytes \<open>bs\<close>.
\<close>

type_synonym crc_fun = "u32 \<Rightarrow> bytes option \<Rightarrow> u32"

text \<open>The bytes a \<open>(const Bytef*)\<close> argument points to, \<open>None\<close> for \<open>NULL\<close>.\<close>

definition region :: "ptr \<Rightarrow> nat \<Rightarrow> world \<Rightarrow> bytes option outcome" where
  "region p n w = (case p of None \<Rightarrow> Inr None | Some a \<Rightarrow> andthen (load p 0 n w) (\<lambda>bs. Inr (Some bs)))"

section \<open>Encoding\<close>

function copy_payload :: "ptr \<Rightarrow> world \<Rightarrow> nat \<Rightarrow> nat \<Rightarrow> bytes \<Rightarrow> bytes outcome" where
  "copy_payload payload w i n buf =
     (if i < n then
        andthen (load payload i 1 w) (\<lambda>x.
        andthen (arr_write buf (12 + i) x) (\<lambda>buf'.
        copy_payload payload w (Suc i) n buf'))
      else Inr buf)"
  by pat_completeness auto
termination
  by (relation "measure (\<lambda>(payload, w, i, n, buf). n - i)") auto

declare copy_payload.simps [simp del]

text \<open>The time stamp of a clock reading, converted to 32 bits.\<close>

definition stamp_of :: "timeval \<Rightarrow> u32" where
  "stamp_of tv = word_of_int (tv_sec tv * 1000000 + tv_usec tv)"

text \<open>The capacity \<open>*len\<close> passed in is not looked at (the check is commented out in the code);
  the result holds the status, the new \<open>*len\<close>, the buffer, the packet and the world.\<close>

definition pkt_encode ::
    "crc_fun \<Rightarrow> pkt \<Rightarrow> bytes \<Rightarrow> nat \<Rightarrow> world \<Rightarrow> (pkt_status_code \<times> nat \<times> bytes \<times> pkt \<times> world) outcome"
where
  "pkt_encode crc32 p0 buf len w0 =
     (let n = unat (pkt_get_length p0);
          (tv, w) = gettimeofday w0;
          (_, p) = pkt_set_timestamp p0 (stamp_of tv);
          length_tot = (if pkt_get_tr p = 0 \<and> n > 0 then n + 4 else n) in
      andthen (arr_write buf 0 (header_bytes p)) (\<lambda>buf1.
      let crc1 = crc32 (crc32 0 None) (Some (take 8 buf1)) in
      andthen (arr_write buf1 8 (le32 (htonl crc1))) (\<lambda>buf2.
      let (return_status, p1) = pkt_set_crc1 p crc1 in
      if return_status \<noteq> PKT_OK then Inr (E_CRC, len, buf2, p1, w)
      else
        (let payload = pkt_get_payload p1 in
         andthen (copy_payload payload w 0 n buf2) (\<lambda>buf3.
         if pkt_get_tr p1 = 0 then
           andthen (region payload n w) (\<lambda>r.
           let crc2 = crc32 (crc32 0 None) r in
           andthen (arr_write buf3 (n + 12) (le32 (htonl crc2))) (\<lambda>buf4.
           let (_, p2) = pkt_set_crc2 p1 crc2 in
           Inr (PKT_OK, length_tot + 12, buf4, p2, w)))
         else Inr (PKT_OK, length_tot + 12, buf3, p1, w))))))"

section \<open>Decoding\<close>

text \<open>The header: the status, the length field and the packet as it is left.\<close>

definition pkt_decode_header ::
    "crc_fun \<Rightarrow> bytes \<Rightarrow> nat \<Rightarrow> pkt \<Rightarrow> (pkt_status_code \<times> u16 \<times> pkt) outcome" where
  "pkt_decode_header crc32 data len p0 =
     (if len = 0 then Inr (E_UNCONSISTENT, 0, p0)
      else if len < 4 then Inr (E_NOHEADER, 0, p0)
      else
        andthen (arr_read data 0 1) (\<lambda>b0.
        let p1 = set_byte0 p0 (hd b0) in
        andthen (arr_read data 1 1) (\<lambda>b1.
        let (st2, p2) = pkt_set_seqnum p1 (hd b1) in
        if st2 \<noteq> PKT_OK then Inr (st2, 0, p2) else
        andthen (arr_read data 2 2) (\<lambda>b2.
        let pkt_length = ntohs (of_le b2); (st3, p3) = pkt_set_length p2 pkt_length in
        if st3 \<noteq> PKT_OK then Inr (st3, pkt_length, p3) else
        andthen (arr_read data 4 4) (\<lambda>b4.
        let (st4, p4) = pkt_set_timestamp p3 (of_le b4) in
        if st4 \<noteq> PKT_OK then Inr (st4, pkt_length, p4) else
        andthen (arr_read data 8 4) (\<lambda>b8.
        let crc1 = ntohl (of_le b8) in
        andthen (arr_read data 0 8) (\<lambda>h.
        let new_crc1 = crc32 (crc32 0 None) (Some h) in
        if crc1 \<noteq> new_crc1 then Inr (E_CRC, pkt_length, p4)
        else
          (let (st5, p5) = pkt_set_crc1 p4 crc1 in Inr (st5, pkt_length, p5)))))))))"

text \<open>The payload and its check-sum, after the header was accepted.\<close>

definition pkt_decode_payload ::
    "crc_fun \<Rightarrow> bytes \<Rightarrow> u16 \<Rightarrow> pkt_status_code \<Rightarrow> pkt \<Rightarrow> world
      \<Rightarrow> (pkt_status_code \<times> pkt \<times> world) outcome" where
  "pkt_decode_payload crc32 data pkt_length st5 p5 w0 =
     andthen (if pkt_length = 0 then Inr (st5, p5, w0)
              else pkt_set_payload p5 (Some (drop 12 data)) pkt_length w0) (\<lambda>(st6, p6, w).
     if st6 \<noteq> PKT_OK then Inr (st6, p6, w)
     else if pkt_length > 0 \<and> pkt_get_tr p6 = 0 then
       andthen (arr_read data (12 + unat pkt_length) 4) (\<lambda>bc.
       let crc2 = ntohl (of_le bc) in
       andthen (region (pkt_get_payload p6) (unat pkt_length) w) (\<lambda>r.
       let new_crc2 = crc32 (crc32 0 None) r in
       if crc2 \<noteq> new_crc2 then Inr (E_CRC, p6, w)
       else (let (st7, p7) = pkt_set_crc2 p6 crc2 in Inr (st7, p7, w))))
     else Inr (st6, p6, w))"

definition pkt_decode ::
    "crc_fun \<Rightarrow> bytes \<Rightarrow> nat \<Rightarrow> pkt \<Rightarrow> world \<Rightarrow> (pkt_status_code \<times> pkt \<times> world) outcome" where
  "pkt_decode crc32 data len p w =
     andthen (pkt_decode_header crc32 data len p) (\<lambda>(st, pkt_length, p1).
     if st \<noteq> PKT_OK then Inr (st, p1, w)
     else pkt_decode_payload crc32 data pkt_length st p1 w)"

section \<open>The wire format\<close>

definition crc_of :: "crc_fun \<Rightarrow> bytes option \<Rightarrow> u32" where
  "crc_of crc32 r = crc32 (crc32 0 None) r"

text \<open>What \<open>pkt_encode\<close> leaves at the start of the buffer for a header \<open>h\<close> and a payload
  \<open>bs\<close>, when the packet is not truncated, and how much of it is announced in \<open>*len\<close>.\<close>

definition packet_image :: "crc_fun \<Rightarrow> bytes \<Rightarrow> bytes \<Rightarrow> bytes" where
  "packet_image crc32 h bs =
     h @ be32 (crc_of crc32 (Some h)) @ bs @ be32 (crc_of crc32 (if bs = [] then None else Some bs))"

definition wire_len :: "bytes \<Rightarrow> nat" where
  "wire_len bs = 12 + length bs + (if bs = [] then 0 else 4)"

lemma length_packet_image [simp]: "length h = 8 \<Longrightarrow> length (packet_image crc32 h bs) = 16 + length bs"
  by (simp add: packet_image_def)

text \<open>A concrete check-sum, for closed instances of the theorems: the sum of the bytes.\<close>

definition sum_crc :: crc_fun where
  "sum_crc c r = (case r of None \<Rightarrow> 0 | Some bs \<Rightarrow> foldl (\<lambda>a b. a + ucast b) c bs)"

end
