(* ===== verification/Codec_Laws.thy ===== *)
theory Codec_Laws
  imports Codec
begin

text \<open>
  What the codec does: the exact bytes \<open>pkt_encode\<close> writes, the exact condition under which
  \<open>pkt_decode\<close> reports each status, the round trip, and the memory accesses of both.
\<close>

section \<open>Encoding\<close>

lemma copy_payload_ok:
  assumes "mem w a = Some blk" "n \<le> length blk" "12 + n \<le> length buf" "i \<le> n"
  shows "copy_payload (Some a) w i n buf = Inr (put_at (12 + i) (take (n - i) (drop i blk)) buf)"
  using assms
proof (induction "n - i" arbitrary: i buf)
  case 0
  then show ?case by (subst copy_payload.simps) simp
next
  case (Suc k)
  then have i: "i < n" and k: "k = n - Suc i" by simp_all
  have split: "take (n - i) (drop i blk) = blk ! i # take (n - Suc i) (drop (Suc i) blk)"
    using i Suc.prems(2)
    by (metis Cons_nth_drop_Suc Suc_diff_Suc order_less_le_trans take_Suc_Cons)
  have one: "take 1 (drop i blk) = [blk ! i]"
    using i Suc.prems(2) by (simp add: take_Suc_conv_app_nth hd_drop_conv_nth take_Suc)
  let ?buf = "put_at (12 + i) [blk ! i] buf"
  have "copy_payload (Some a) w (Suc i) n ?buf =
      Inr (put_at (12 + Suc i) (take (n - Suc i) (drop (Suc i) blk)) ?buf)"
    using Suc.prems i k by (intro Suc.hyps(1)) auto
  moreover have "put_at (12 + Suc i) ys ?buf = put_at (12 + i) (blk ! i # ys) buf" for ys
    using Suc.prems(3) i by (simp add: put_at_def ac_simps)
  ultimately show ?case
    using Suc.prems i one split
    by (subst copy_payload.simps) (simp add: load_ok arr_write_ok)
qed

lemma copy_payload_0 [simp]: "copy_payload p w 0 0 buf = Inr buf"
  by (subst copy_payload.simps) simp

definition stamp :: "world \<Rightarrow> u32" where
  "stamp w = stamp_of (clock w (nclock w))"

text \<open>The packet as \<open>pkt_encode\<close> leaves it.\<close>

definition encoded :: "crc_fun \<Rightarrow> pkt \<Rightarrow> bytes \<Rightarrow> world \<Rightarrow> pkt" where
  "encoded crc32 p bs w =
     (let p1 = p\<lparr>TIMESTAMP := stamp w\<rparr> in
      p1\<lparr>CRC1 := htonl (crc_of crc32 (Some (header_bytes p1))),
         CRC2 := htonl (crc_of crc32 (if bs = [] then None else Some bs))\<rparr>)"

lemma header_bytes_crc [simp]:
  "header_bytes (p\<lparr>CRC1 := c\<rparr>) = header_bytes p" "header_bytes (p\<lparr>CRC2 := c\<rparr>) = header_bytes p"
  "header_bytes (p\<lparr>PAYLOAD := a\<rparr>) = header_bytes p"
  by (simp_all add: header_bytes_def byte0_def)

lemma header_encoded:
  "header_bytes (encoded crc32 p bs w) = header_bytes (p\<lparr>TIMESTAMP := stamp w\<rparr>)"
  by (simp add: encoded_def Let_def)

lemma payload_is_length:
  "payload_is p w bs \<Longrightarrow> unat (pkt_get_length p) = length bs"
  by (auto simp: payload_is_def pkt_get_length_def MAX_PAYLOAD_SIZE_def)

lemma payload_is_payload:
  "payload_is p w bs \<Longrightarrow> pkt_get_payload p = (if bs = [] then None else PAYLOAD p)"
  by (auto simp: payload_is_def pkt_get_payload_def pkt_get_length_def MAX_PAYLOAD_SIZE_def)

lemma payload_is_frame [simp]:
  "payload_is (p\<lparr>TIMESTAMP := t\<rparr>) w bs = payload_is p w bs"
  "payload_is (p\<lparr>CRC1 := c\<rparr>) w bs = payload_is p w bs"
  "payload_is (p\<lparr>CRC2 := c\<rparr>) w bs = payload_is p w bs"
  "payload_is (p\<lparr>SEQNUM := s\<rparr>) w bs = payload_is p w bs"
  "payload_is (p\<lparr>WINDOW := x\<rparr>) w bs = payload_is p w bs"
  "payload_is (p\<lparr>TYPE_f := ty\<rparr>) w bs = payload_is p w bs"
  by (simp_all add: payload_is_def)

lemma payload_is_keeps: "payload_is p w bs \<Longrightarrow> keeps w w' \<Longrightarrow> payload_is p w' bs"
  by (fastforce simp: payload_is_def dest: keepsD)

lemma payload_is_region:
  assumes "payload_is p w bs"
  shows "region (pkt_get_payload p) (length bs) w = Inr (if bs = [] then None else Some bs)"
proof (cases "bs = []")
  case True
  with assms show ?thesis by (simp add: payload_is_payload region_def)
next
  case False
  with assms obtain a blk where "PAYLOAD p = Some a" "mem w a = Some blk"
    "length bs \<le> length blk" "take (length bs) blk = bs"
    by (auto simp: payload_is_def)
  with False assms show ?thesis
    by (simp add: payload_is_payload region_def load_ok)
qed

lemma copy_payload_is:
  assumes "payload_is p w bs" "12 + length bs \<le> length buf"
  shows "copy_payload (pkt_get_payload p) w 0 (length bs) buf = Inr (put_at 12 bs buf)"
proof (cases "bs = []")
  case True
  then show ?thesis by simp
next
  case False
  with assms(1) obtain a blk where "PAYLOAD p = Some a" "mem w a = Some blk"
    "length bs \<le> length blk" "take (length bs) blk = bs"
    by (auto simp: payload_is_def)
  with False assms show ?thesis
    by (simp add: payload_is_payload copy_payload_ok)
qed

lemma mem_gettimeofday: "payload_is p (snd (gettimeofday w)) bs = payload_is p w bs"
  by (simp add: payload_is_def)

text \<open>The packet is built up in the buffer from left to right.\<close>

lemma image_steps:
  fixes crc32 :: crc_fun and h bs buf :: bytes
  assumes "length h = 8"
  defines "c1 \<equiv> be32 (crc_of crc32 (Some h))"
    and "c2 \<equiv> be32 (crc_of crc32 (if bs = [] then None else Some bs))" and "n \<equiv> length bs"
  shows "put_at 0 h buf = h @ drop 8 buf"
    "put_at 8 c1 (h @ drop 8 buf) = h @ c1 @ drop 12 buf"
    "put_at 12 bs (h @ c1 @ drop 12 buf) = h @ c1 @ bs @ drop (12 + n) buf"
    "put_at (n + 12) c2 (h @ c1 @ bs @ drop (12 + n) buf) = packet_image crc32 h bs @ drop (16 + n) buf"
proof -
  show "put_at 0 h buf = h @ drop 8 buf" "put_at 8 c1 (h @ drop 8 buf) = h @ c1 @ drop 12 buf"
    using assms(1) by (simp_all add: put_at_0 put_at_extend c1_def)
  show "put_at 12 bs (h @ c1 @ drop 12 buf) = h @ c1 @ bs @ drop (12 + n) buf"
    using put_at_extend [of 12 "h @ c1" bs "drop 12 buf"] assms(1) by (simp add: add.commute c1_def n_def)
  show "put_at (n + 12) c2 (h @ c1 @ bs @ drop (12 + n) buf) = packet_image crc32 h bs @ drop (16 + n) buf"
    using put_at_extend [of "n + 12" "h @ c1 @ bs" c2 "drop (12 + n) buf"] assms(1)
    by (simp add: packet_image_def add.commute c1_def c2_def n_def)
qed

lemma encode_ok:
  assumes "payload_is p w bs" "16 + length bs \<le> length buf"
  shows "pkt_encode crc32 p buf len w =
    Inr (PKT_OK, wire_len bs,
         packet_image crc32 (header_bytes (p\<lparr>TIMESTAMP := stamp w\<rparr>)) bs @ drop (16 + length bs) buf,
         encoded crc32 p bs w, snd (gettimeofday w))"
proof -
  let ?w = "snd (gettimeofday w)" and ?n = "length bs"
  let ?p = "p\<lparr>TIMESTAMP := stamp w\<rparr>"
  let ?c1 = "crc_of crc32 (Some (header_bytes ?p))"
  let ?c2 = "crc_of crc32 (if bs = [] then None else Some bs)"
  let ?p1 = "?p\<lparr>CRC1 := htonl ?c1\<rparr>"
  let ?h = "header_bytes ?p"
  have p1: "payload_is ?p1 ?w bs" and tr: "TR p = 0"
    using assms(1) by (simp_all add: mem_gettimeofday) (simp add: payload_is_def)
  have n: "unat (pkt_get_length p) = ?n"
    using assms(1) by (rule payload_is_length)
  note b = image_steps [OF length_header_bytes]
  have cp: "copy_payload (pkt_get_payload ?p1) ?w 0 ?n (?h @ be32 ?c1 @ drop 12 buf) =
      Inr (?h @ be32 ?c1 @ bs @ drop (12 + ?n) buf)"
    using copy_payload_is [OF p1, of "?h @ be32 ?c1 @ drop 12 buf"] assms(2) by (simp add: b)
  have rg: "region (pkt_get_payload ?p1) ?n ?w = Inr (if bs = [] then None else Some bs)"
    using p1 by (rule payload_is_region)
  have ts: "pkt_set_timestamp p (stamp_of (fst (gettimeofday w))) = (PKT_OK, ?p)"
    by (simp add: pkt_set_timestamp_def stamp_def gettimeofday_def Let_def)
  show ?thesis
    using assms(2) tr
    by (simp add: pkt_encode_def Let_def split_beta ts n arr_write_ok b
        crc_of_def [symmetric] pkt_set_crc1_def cp pkt_get_tr_def rg pkt_set_crc2_def
        encoded_def wire_len_def)
qed

text \<open>A truncated packet is encoded as its header and the header's check-sum.\<close>

lemma encode_truncated:
  assumes "TR p = 1" "12 \<le> length buf"
  shows "pkt_encode crc32 p buf len w =
    (let p1 = p\<lparr>TIMESTAMP := stamp w\<rparr>; c = crc_of crc32 (Some (header_bytes p1)) in
     Inr (PKT_OK, 12, header_bytes p1 @ be32 c @ drop 12 buf, p1\<lparr>CRC1 := htonl c\<rparr>,
          snd (gettimeofday w)))"
proof -
  let ?p = "p\<lparr>TIMESTAMP := stamp w\<rparr>"
  have ts: "pkt_set_timestamp p (stamp_of (fst (gettimeofday w))) = (PKT_OK, ?p)"
    by (simp add: pkt_set_timestamp_def stamp_def gettimeofday_def Let_def)
  have b1: "put_at 0 (header_bytes ?p) buf = header_bytes ?p @ drop 8 buf"
    by (simp add: put_at_0)
  have b2: "put_at 8 (be32 c) (header_bytes ?p @ drop 8 buf) = header_bytes ?p @ be32 c @ drop 12 buf" for c
    by (simp add: put_at_extend)
  show ?thesis
    using assms
    by (simp add: pkt_encode_def Let_def split_beta ts arr_write_ok b1 b2
        crc_of_def [symmetric] pkt_set_crc1_def pkt_get_tr_def pkt_get_length_def)
qed

section \<open>Decoding\<close>

text \<open>The length field and the truncation bit of received bytes, and the packet a header
  leaves behind.\<close>

definition wire_length :: "bytes \<Rightarrow> u16" where
  "wire_length data = ntohs (of_le (take 2 (drop 2 data)))"

definition wire_tr :: "bytes \<Rightarrow> bool" where
  "wire_tr data = bit (hd data) 5"

definition with_seqnum :: "pkt \<Rightarrow> bytes \<Rightarrow> pkt" where
  "with_seqnum p data = set_byte0 p (hd data)\<lparr>SEQNUM := hd (drop 1 data)\<rparr>"

definition with_header :: "pkt \<Rightarrow> bytes \<Rightarrow> pkt" where
  "with_header p data = with_seqnum p data
     \<lparr>LENGTH_f := of_le (take 2 (drop 2 data)), TIMESTAMP := of_le (take 4 (drop 4 data))\<rparr>"

definition crc1_matches :: "crc_fun \<Rightarrow> bytes \<Rightarrow> bool" where
  "crc1_matches crc32 data \<longleftrightarrow> take 4 (drop 8 data) = be32 (crc_of crc32 (Some (take 8 data)))"

definition crc2_matches :: "crc_fun \<Rightarrow> bytes \<Rightarrow> bool" where
  "crc2_matches crc32 data \<longleftrightarrow>
     (let n = unat (wire_length data) in
      take 4 (drop (12 + n) data) = be32 (crc_of crc32 (Some (take n (drop 12 data)))))"

text \<open>The status \<open>pkt_decode\<close> reports, as a function of the bytes.\<close>

definition decode_verdict :: "crc_fun \<Rightarrow> bytes \<Rightarrow> nat \<Rightarrow> pkt_status_code" where
  "decode_verdict crc32 data len =
     (if len = 0 then E_UNCONSISTENT
      else if len < 4 then E_NOHEADER
      else if unat (wire_length data) > MAX_PAYLOAD_SIZE then E_LENGTH
      else if \<not> crc1_matches crc32 data then E_CRC
      else if wire_length data \<noteq> 0 \<and> \<not> wire_tr data \<and> \<not> crc2_matches crc32 data then E_CRC
      else PKT_OK)"

lemma ntohl_eq_be32: "length bs = 4 \<Longrightarrow> ntohl (of_le bs) = c \<longleftrightarrow> bs = be32 c"
  by (metis be32_ntohl_of_le ntohl_of_le_be32)

lemma hd_take_1: "data \<noteq> [] \<Longrightarrow> hd (take (Suc 0) data) = hd data"
  by (cases data) auto

lemma TR_set_byte0: "TR (set_byte0 p b) = 0 \<longleftrightarrow> \<not> bit b 5"
proof -
  have "TR (set_byte0 p b) = 0 \<longleftrightarrow> \<not> bit (TR (set_byte0 p b)) 0"
    by (rule iffI, simp, rule bit_word_eqI, simp)
  then show ?thesis by (simp add: set_byte0_def bit_simps)
qed

lemma TR_with_header [simp]: "TR (with_header p data) = 0 \<longleftrightarrow> \<not> wire_tr data"
  by (simp add: with_header_def with_seqnum_def TR_set_byte0 wire_tr_def)

lemma with_header_sel [simp]:
  "PAYLOAD (with_header p data) = PAYLOAD p" "PAYLOAD (with_seqnum p data) = PAYLOAD p"
  "LENGTH_f (with_header p data) = of_le (take 2 (drop 2 data))"
  "SEQNUM (with_header p data) = hd (drop 1 data)"
  by (simp_all add: with_header_def with_seqnum_def)

lemma byte0_upd [simp]:
  "byte0 (p\<lparr>SEQNUM := s\<rparr>) = byte0 p" "byte0 (p\<lparr>LENGTH_f := l\<rparr>) = byte0 p"
  "byte0 (p\<lparr>TIMESTAMP := t\<rparr>) = byte0 p"
  by (simp_all add: byte0_def)

lemma header_bytes_with_header [simp]:
  assumes "8 \<le> length data"
  shows "header_bytes (with_header p data) = take 8 data"
proof -
  obtain a b rest where data: "data = a # b # rest" and rest: "6 \<le> length rest"
    using assms by (cases data; cases "tl data") auto
  have "take 6 rest = take 2 rest @ take 4 (drop 2 rest)"
    using take_add [of 2 4 rest] by simp
  with rest show ?thesis
    by (simp add: data header_bytes_def with_header_def with_seqnum_def byte0_set_byte0)
qed

lemma decode_header_eq:
  assumes "12 \<le> length data" "4 \<le> len"
  shows "pkt_decode_header crc32 data len p =
    Inr (if unat (wire_length data) > MAX_PAYLOAD_SIZE
         then (E_LENGTH, wire_length data, with_seqnum p data)
         else if \<not> crc1_matches crc32 data then (E_CRC, wire_length data, with_header p data)
         else (PKT_OK, wire_length data,
               with_header p data\<lparr>CRC1 := of_le (take 4 (drop 8 data))\<rparr>))"
proof -
  have ne: "data \<noteq> []" "drop 1 data \<noteq> []" "drop (Suc 0) data \<noteq> []" using assms(1) by auto
  have c: "ntohl (of_le (take 4 (drop 8 data))) = crc32 (crc32 0 None) (Some (take 8 data)) \<longleftrightarrow>
      crc1_matches crc32 data"
    using assms(1) by (simp add: ntohl_eq_be32 crc1_matches_def crc_of_def)
  show ?thesis
    using assms
    by (auto simp: pkt_decode_header_def arr_read_ok Let_def hd_take_1 ne setter_defs c
        wire_length_def with_header_def with_seqnum_def)
qed

text \<open>The packet and the heap after the header and the payload were stored.\<close>

definition with_crc1 :: "pkt \<Rightarrow> bytes \<Rightarrow> pkt" where
  "with_crc1 p data = with_header p data\<lparr>CRC1 := of_le (take 4 (drop 8 data))\<rparr>"

definition wire_payload :: "bytes \<Rightarrow> bytes" where
  "wire_payload data = take (unat (wire_length data)) (drop 12 data)"

definition with_payload :: "pkt \<Rightarrow> bytes \<Rightarrow> world \<Rightarrow> pkt" where
  "with_payload p data w = with_crc1 p data\<lparr>PAYLOAD := Some (nalloc w)\<rparr>"

definition payload_stored :: "pkt \<Rightarrow> bytes \<Rightarrow> world \<Rightarrow> world" where
  "payload_stored p data w =
     stored (if wire_tr data then released w (PAYLOAD p) else w) (wire_payload data)"

definition with_crc2 :: "pkt \<Rightarrow> bytes \<Rightarrow> world \<Rightarrow> pkt" where
  "with_crc2 p data w =
     with_payload p data w\<lparr>CRC2 := of_le (take 4 (drop (12 + unat (wire_length data)) data))\<rparr>"

text \<open>The result of \<open>pkt_decode\<close> in closed form.\<close>

definition decode_result ::
    "crc_fun \<Rightarrow> bytes \<Rightarrow> nat \<Rightarrow> pkt \<Rightarrow> world \<Rightarrow> pkt_status_code \<times> pkt \<times> world" where
  "decode_result crc32 data len p w =
     (if len = 0 then (E_UNCONSISTENT, p, w)
      else if len < 4 then (E_NOHEADER, p, w)
      else if unat (wire_length data) > MAX_PAYLOAD_SIZE then (E_LENGTH, with_seqnum p data, w)
      else if \<not> crc1_matches crc32 data then (E_CRC, with_header p data, w)
      else if wire_length data = 0 then (PKT_OK, with_crc1 p data, w)
      else if wire_tr data then (PKT_OK, with_payload p data w, payload_stored p data w)
      else if \<not> crc2_matches crc32 data then (E_CRC, with_payload p data w, payload_stored p data w)
      else (PKT_OK, with_crc2 p data w, payload_stored p data w))"

lemma fst_decode_result: "fst (decode_result crc32 data len p w) = decode_verdict crc32 data len"
  by (simp add: decode_result_def decode_verdict_def)

lemma htons_wire_length: "htons (wire_length data) = of_le (take 2 (drop 2 data))"
  by (simp add: wire_length_def)

lemma decode_payload_eq:
  assumes "16 + unat (wire_length data) \<le> length data" "unat (wire_length data) \<le> 512"
    and "\<not> oom w (nalloc w)" "live w (PAYLOAD p)" "wire_length data \<noteq> 0"
  shows "pkt_decode_payload crc32 data (wire_length data) PKT_OK (with_crc1 p data) w =
    Inr (if wire_tr data then (PKT_OK, with_payload p data w, payload_stored p data w)
         else if \<not> crc2_matches crc32 data
         then (E_CRC, with_payload p data w, payload_stored p data w)
         else (PKT_OK, with_crc2 p data w, payload_stored p data w))"
proof -
  let ?l = "wire_length data" and ?w = "payload_stored p data w" and ?p = "with_payload p data w"
  have sp: "pkt_set_payload (with_crc1 p data) (Some (drop 12 data)) ?l w = Inr (PKT_OK, ?p, ?w)"
    using assms set_payload_eq [of w ?l "drop 12 data" "with_crc1 p data"]
    by (simp add: with_crc1_def payload_stored_def wire_payload_def with_payload_def htons_wire_length)
  have tr: "TR ?p = 0 \<longleftrightarrow> \<not> wire_tr data"
    by (simp add: with_payload_def with_crc1_def)
  have reg: "region (pkt_get_payload ?p) (unat ?l) ?w = Inr (Some (wire_payload data))" if "\<not> wire_tr data"
    using that assms
    by (simp add: region_def pkt_get_payload_def pkt_get_length_def with_payload_def with_crc1_def
        htons_wire_length [symmetric] payload_stored_def load_ok wire_payload_def)
  have rd: "arr_read data (12 + unat ?l) 4 = Inr (take 4 (drop (12 + unat ?l) data))"
    using assms(1) by (simp add: arr_read_ok)
  have c2: "ntohl (of_le (take 4 (drop (12 + unat ?l) data))) =
      crc32 (crc32 0 None) (Some (wire_payload data)) \<longleftrightarrow> crc2_matches crc32 data"
    using assms(1)
    by (simp add: ntohl_eq_be32 crc2_matches_def crc_of_def wire_payload_def Let_def)
  have pos: "0 < ?l" using assms(5) by (simp add: word_gt_0)
  show ?thesis
    using assms(5) c2
    by (auto simp: pkt_decode_payload_def sp tr reg rd Let_def pos pkt_set_crc2_def with_crc2_def)
qed

lemma decode_eq:
  assumes "528 \<le> length data" "\<not> oom w (nalloc w)" "live w (PAYLOAD p)"
  shows "pkt_decode crc32 data len p w = Inr (decode_result crc32 data len p w)"
proof (cases "4 \<le> len")
  case False
  then show ?thesis
    by (auto simp: pkt_decode_def decode_result_def pkt_decode_header_def)
next
  case True
  have h: "pkt_decode_header crc32 data len p =
    Inr (if unat (wire_length data) > MAX_PAYLOAD_SIZE
         then (E_LENGTH, wire_length data, with_seqnum p data)
         else if \<not> crc1_matches crc32 data then (E_CRC, wire_length data, with_header p data)
         else (PKT_OK, wire_length data, with_crc1 p data))"
    using assms(1) True by (simp add: decode_header_eq with_crc1_def)
  show ?thesis
  proof (cases "wire_length data = 0")
    case z: True
    with True h show ?thesis
      by (simp add: pkt_decode_def decode_result_def pkt_decode_payload_def)
  next
    case nz: False
    from True h nz assms decode_payload_eq [of data w p crc32] show ?thesis
      by (auto simp: pkt_decode_def decode_result_def MAX_PAYLOAD_SIZE_def)
  qed
qed

section \<open>Consequences for the heap\<close>

lemma decode_keeps:
  assumes "heap_ok w" "\<not> wire_tr data \<or> wire_length data = 0"
  shows "keeps w (snd (snd (decode_result crc32 data len p w)))"
  using assms by (auto simp: decode_result_def payload_stored_def keeps_stored)

lemma decode_heap_ok:
  assumes "heap_ok w"
  shows "heap_ok (snd (snd (decode_result crc32 data len p w)))"
  using assms
  by (simp add: decode_result_def payload_stored_def heap_ok_stored heap_ok_released)

lemma decode_live:
  assumes "live w (PAYLOAD p)"
  shows "live (snd (snd (decode_result crc32 data len p w)))
           (PAYLOAD (fst (snd (decode_result crc32 data len p w))))"
  using assms
  by (simp add: decode_result_def payload_stored_def with_payload_def with_crc1_def with_crc2_def)

lemma decode_obslog [simp]:
  "obslog (snd (snd (decode_result crc32 data len p w))) = obslog w"
  "wfail (snd (snd (decode_result crc32 data len p w))) = wfail w"
  "oom (snd (snd (decode_result crc32 data len p w))) = oom w"
  by (simp_all add: decode_result_def payload_stored_def)

lemma decode_ok_header:
  assumes "8 \<le> length data" "decode_verdict crc32 data len = PKT_OK"
  shows "header_bytes (fst (snd (decode_result crc32 data len p w))) = take 8 data"
  using assms
  by (auto simp: decode_verdict_def decode_result_def with_payload_def with_crc1_def with_crc2_def
      split: if_splits)

end
