(* ===== verification/Codec_Roundtrip.thy ===== *)
theory Codec_Roundtrip
  imports Codec_Laws
begin

text \<open>
  The round trip of the codec, the detection of corrupted bytes, and the properties of the
  codec as a whole.
\<close>

section \<open>Reading an encoded packet\<close>

definition shown :: "pkt \<Rightarrow> bytes \<Rightarrow> bool" where
  "shown p bs \<longleftrightarrow> TR p = 0 \<and> length bs \<le> MAX_PAYLOAD_SIZE \<and> LENGTH_f p = htons (of_nat (length bs))"

lemma payload_is_shown: "payload_is p w bs \<Longrightarrow> shown p bs"
  by (simp add: payload_is_def shown_def)

lemma hd_header_bytes: "hd (header_bytes p @ xs) = byte0 p"
  by (simp add: header_bytes_def)

lemma header_parts:
  "hd (drop (Suc 0) (header_bytes p @ xs)) = SEQNUM p"
  "take 2 (drop 2 (header_bytes p @ xs)) = le16 (LENGTH_f p)"
  "take 4 (drop 4 (header_bytes p @ xs)) = le32 (TIMESTAMP p)"
proof -
  have l: "le16 (LENGTH_f p) @ ys = [le16 (LENGTH_f p) ! 0, le16 (LENGTH_f p) ! 1] @ ys" for ys
    by (simp add: le16_def)
  show "hd (drop (Suc 0) (header_bytes p @ xs)) = SEQNUM p"
    "take 2 (drop 2 (header_bytes p @ xs)) = le16 (LENGTH_f p)"
    by (simp_all add: header_bytes_def)
  have "header_bytes p @ xs = ([byte0 p, SEQNUM p] @ le16 (LENGTH_f p)) @ le32 (TIMESTAMP p) @ xs"
    by (simp add: header_bytes_def)
  then have "drop 4 (header_bytes p @ xs) = le32 (TIMESTAMP p) @ xs"
    by (simp only: drop_append) simp
  then show "take 4 (drop 4 (header_bytes p @ xs)) = le32 (TIMESTAMP p)"
    by simp
qed

lemma image_parts:
  fixes crc32 :: crc_fun and h bs rest :: bytes
  assumes "length h = 8"
  defines "d \<equiv> packet_image crc32 h bs @ rest"
  shows "take 8 d = h" "take 4 (drop 8 d) = be32 (crc_of crc32 (Some h))"
    "take (length bs) (drop 12 d) = bs"
    "take 4 (drop (12 + length bs) d) = be32 (crc_of crc32 (if bs = [] then None else Some bs))"
proof -
  let ?c = "be32 (crc_of crc32 (Some h))" and ?c2 = "be32 (crc_of crc32 (if bs = [] then None else Some bs))"
  have d: "d = h @ ?c @ bs @ ?c2 @ rest"
    by (simp add: d_def packet_image_def)
  show "take 8 d = h" and "take 4 (drop 8 d) = ?c"
    using assms(1) by (simp_all add: d)
  have d12: "drop 12 d = bs @ ?c2 @ rest"
    using assms(1) by (simp add: d)
  show "take (length bs) (drop 12 d) = bs"
    by (simp add: d12)
  have "drop (12 + length bs) d = drop (length bs) (drop 12 d)"
    by (simp add: add.commute)
  also have "\<dots> = ?c2 @ rest"
    by (simp add: d12)
  finally show "take 4 (drop (12 + length bs) d) = ?c2"
    by simp
qed

lemma wire_header:
  "wire_length (header_bytes p @ xs) = ntohs (LENGTH_f p)"
  "wire_tr (header_bytes p @ xs) \<longleftrightarrow> TR p \<noteq> 0"
proof -
  show "wire_length (header_bytes p @ xs) = ntohs (LENGTH_f p)"
    by (simp only: wire_length_def header_parts of_le_le16)
  have "TR (set_byte0 p (byte0 p)) = 0 \<longleftrightarrow> \<not> bit (byte0 p) 5"
    by (rule TR_set_byte0)
  then show "wire_tr (header_bytes p @ xs) \<longleftrightarrow> TR p \<noteq> 0"
    by (simp add: wire_tr_def hd_header_bytes set_byte0_byte0)
qed

lemma with_header_of_header:
  "with_header q (header_bytes p @ xs) =
     q\<lparr>WINDOW := WINDOW p, TR := TR p, TYPE_f := TYPE_f p, SEQNUM := SEQNUM p,
       LENGTH_f := LENGTH_f p, TIMESTAMP := TIMESTAMP p\<rparr>"
  by (simp only: with_header_def with_seqnum_def One_nat_def hd_header_bytes set_byte0_byte0
      header_parts of_le_le16 of_le_le32)

lemma packet_image_header:
  "packet_image crc32 (header_bytes p) bs @ rest =
     header_bytes p @ be32 (crc_of crc32 (Some (header_bytes p))) @ bs @
       be32 (crc_of crc32 (if bs = [] then None else Some bs)) @ rest"
  by (simp add: packet_image_def)

text \<open>The packet and the heap that decoding an encoded packet leaves.\<close>

definition received :: "crc_fun \<Rightarrow> pkt \<Rightarrow> bytes \<Rightarrow> pkt \<Rightarrow> world \<Rightarrow> pkt" where
  "received crc32 p bs q w =
     (let q1 = q\<lparr>WINDOW := WINDOW p, TR := TR p, TYPE_f := TYPE_f p, SEQNUM := SEQNUM p,
                 LENGTH_f := LENGTH_f p, TIMESTAMP := TIMESTAMP p,
                 CRC1 := htonl (crc_of crc32 (Some (header_bytes p)))\<rparr> in
      if bs = [] then q1
      else q1\<lparr>PAYLOAD := Some (nalloc w), CRC2 := htonl (crc_of crc32 (Some bs))\<rparr>)"

lemma of_le_be32 [simp]: "of_le (be32 c) = htonl c"
  by (simp add: be32_def htonl_def)

lemma decode_image:
  assumes "shown p bs" "4 \<le> len"
  shows "decode_result crc32 (packet_image crc32 (header_bytes p) bs @ rest) len q w =
    (PKT_OK, received crc32 p bs q w, if bs = [] then w else stored w bs)"
proof -
  define d where "d = packet_image crc32 (header_bytes p) bs @ rest"
  have d: "d = header_bytes p @ be32 (crc_of crc32 (Some (header_bytes p))) @ bs @
       be32 (crc_of crc32 (if bs = [] then None else Some bs)) @ rest"
    by (simp only: d_def packet_image_header)
  have parts: "take 8 d = header_bytes p"
    "take 4 (drop 8 d) = be32 (crc_of crc32 (Some (header_bytes p)))"
    "take (length bs) (drop 12 d) = bs"
    "take 4 (drop (12 + length bs) d) = be32 (crc_of crc32 (if bs = [] then None else Some bs))"
    unfolding d_def by (rule image_parts, rule length_header_bytes)+
  have wl: "wire_length d = of_nat (length bs)" and tr: "\<not> wire_tr d"
    using assms(1) by (simp_all add: d wire_header shown_def)
  have le: "length bs \<le> 512" and n: "unat (wire_length d) = length bs"
    using assms(1) wl by (simp_all add: shown_def MAX_PAYLOAD_SIZE_def)
  have c1: "crc1_matches crc32 d"
    by (simp add: crc1_matches_def parts)
  have c2: "crc2_matches crc32 d" if "bs \<noteq> []"
    using that by (simp add: crc2_matches_def Let_def n parts)
  have pl: "wire_payload d = bs"
    by (simp add: wire_payload_def n parts)
  have hd: "with_header q d =
     q\<lparr>WINDOW := WINDOW p, TR := TR p, TYPE_f := TYPE_f p, SEQNUM := SEQNUM p,
       LENGTH_f := LENGTH_f p, TIMESTAMP := TIMESTAMP p\<rparr>"
    by (simp only: d with_header_of_header)
  have "decode_result crc32 d len q w =
    (PKT_OK, received crc32 p bs q w, if bs = [] then w else stored w bs)"
  proof (cases "bs = []")
    case True
    with assms(2) wl c1 show ?thesis
      by (simp add: decode_result_def with_crc1_def hd parts received_def)
  next
    case False
    have nz: "wire_length d \<noteq> 0"
      using False le by (simp add: wl)
    have "decode_result crc32 d len q w = (PKT_OK, with_crc2 q d w, payload_stored q d w)"
      using assms(2) c1 c2 [OF False] tr nz le
      by (simp add: decode_result_def n MAX_PAYLOAD_SIZE_def)
    then show ?thesis
      using False tr
      by (simp add: with_crc2_def with_payload_def with_crc1_def hd parts n
          payload_stored_def pl received_def Let_def)
  qed
  then show ?thesis by (simp only: d_def)
qed

lemma received_payload:
  assumes "shown p bs" "bs \<noteq> []"
  shows "payload_is (received crc32 p bs q w) (stored w bs) bs"
  using assms by (simp add: payload_is_def received_def Let_def shown_def)

lemma received_getters:
  assumes "shown p bs"
  shows "pkt_get_type (received crc32 p bs q w) = pkt_get_type p"
    "pkt_get_tr (received crc32 p bs q w) = pkt_get_tr p"
    "pkt_get_window (received crc32 p bs q w) = pkt_get_window p"
    "pkt_get_seqnum (received crc32 p bs q w) = pkt_get_seqnum p"
    "pkt_get_length (received crc32 p bs q w) = pkt_get_length p"
    "pkt_get_timestamp (received crc32 p bs q w) = pkt_get_timestamp p"
    "pkt_get_crc1 (received crc32 p bs q w) = crc_of crc32 (Some (header_bytes p))"
    "pkt_get_crc2 (received crc32 p bs q w) = (if bs = [] then 0 else crc_of crc32 (Some bs))"
  using assms
  by (auto simp: received_def Let_def getter_defs shown_def MAX_PAYLOAD_SIZE_def)

end
