(* ===== verification/Sender.thy ===== *)
theory Sender
  imports Codec_Roundtrip
begin

text \<open>
  The sender, client.c: \<open>adapt_rtt\<close>, \<open>adapt_buffer\<close>, and \<open>send_data\<close> as a step per \<open>select\<close>
  round (its parts: reading the file, reading the socket, the retransmission timer), a loop over
  the rounds, and the exchange of the end packet. What \<open>select\<close> and \<open>read\<close> return is an event.
  Output to \<open>stdout\<close>/\<open>stderr\<close> for diagnosis is left out.

  \<open>buffer\<close> holds pointers to packets of its own (each slot gets a new \<open>pkt_new\<close>), so a slot is
  the packet; \<open>None\<close> is a slot of the uninitialised array that was never assigned.
\<close>

section \<open>The round trip time\<close>

text \<open>The operations on \<open>double\<close> the code uses are a parameter; \<open>to_long\<close> and \<open>to_int\<close> are the
  conversions to the integer types.\<close>

record 'd dbl =
  d_of :: "int \<Rightarrow> 'd"
  d_add :: "'d \<Rightarrow> 'd \<Rightarrow> 'd"
  d_sub :: "'d \<Rightarrow> 'd \<Rightarrow> 'd"
  d_mul :: "'d \<Rightarrow> 'd \<Rightarrow> 'd"
  d_div :: "'d \<Rightarrow> 'd \<Rightarrow> 'd"
  to_long :: "'d \<Rightarrow> int"
  to_int :: "'d \<Rightarrow> int"

definition adapt_rtt :: "'d dbl \<Rightarrow> timeval \<Rightarrow> u32 \<Rightarrow> timeval \<Rightarrow> int \<Rightarrow> timeval" where
  "adapt_rtt ops tv1 timestamp tv nbre_tv =
     (let rtt = d_div ops (d_of ops (100000 * tv_usec tv + tv_sec tv)) (d_of ops 2);
          dif = sint (word_of_int (100000 * tv_usec tv1 + tv_sec tv1 - uint timestamp) :: u32);
          rtt' = (if nbre_tv = 10
                  then d_add ops (d_sub ops rtt (d_div ops rtt (d_of ops 10))) (d_of ops dif)
                  else (let n = nbre_tv + 1 in
                        d_div ops (d_add ops (d_mul ops rtt (d_of ops (n - 1))) (d_of ops dif)) (d_of ops n)));
          rtt2 = d_mul ops rtt' (d_of ops 2) in
      \<lparr>tv_sec = to_long ops (d_div ops rtt2 (d_of ops 100000)),
       tv_usec = c_rem (to_int ops rtt2) 100000\<rparr>)"

section \<open>The sliding window\<close>

text \<open>The loop of \<open>adapt_buffer\<close>. It need not end for every argument, so its value is an option.
  \<open>tv\<close> is the parameter, a copy of the caller's: what \<open>adapt_rtt\<close> stores in it is not seen by
  the caller. \<open>fail\<close> is never assigned.\<close>

partial_function (option) adapt_loop ::
    "'d dbl \<Rightarrow> int \<Rightarrow> int \<Rightarrow> u32 \<Rightarrow> int \<Rightarrow> int \<Rightarrow> int \<Rightarrow> timeval \<Rightarrow> world
      \<Rightarrow> (int \<times> int \<times> timeval \<times> world) outcome option" where
  "adapt_loop ops seq window timestamp nbre_tv small_seq small_ind tv w =
     (if small_seq = c_rem seq 256 then Some (Inr (small_seq, small_ind, tv, w))
      else
        (case c_mod (small_ind + 1) window of
           Inl f \<Rightarrow> Some (Inl f)
         | Inr ind \<Rightarrow>
             (let sq = c_rem (small_seq + 1) 256 in
              if sq = seq
              then (let (tv1, w1) = gettimeofday w in
                    adapt_loop ops seq window timestamp nbre_tv sq ind (adapt_rtt ops tv1 timestamp tv nbre_tv) w1)
              else adapt_loop ops seq window timestamp nbre_tv sq ind tv w)))"

declare adapt_loop.simps [code]

definition adapt_buffer ::
    "'d dbl \<Rightarrow> int \<Rightarrow> int \<Rightarrow> int \<Rightarrow> int \<Rightarrow> u32 \<Rightarrow> timeval \<Rightarrow> int \<Rightarrow> int \<Rightarrow> world
      \<Rightarrow> (int \<times> int \<times> int \<times> world) outcome" where
  "adapt_buffer ops small_seq seq small_ind window timestamp tv nbre_tv fail w =
     (case adapt_loop ops seq window timestamp nbre_tv small_seq small_ind tv w of
        None \<Rightarrow> Inl Diverges
      | Some r \<Rightarrow> andthen r (\<lambda>(sq, ind, _, w1). Inr (sq, ind, fail, w1)))"

section \<open>State and events\<close>

datatype s_read = SrErr | SrBytes bytes

text \<open>One \<open>select\<close> round: what \<open>read\<close> on the file and on the socket gives, if ready.\<close>

record s_event =
  ev_file :: "s_read option"
  ev_sock :: "s_read option"

datatype 's sctl = SRunning 's | SReturned

record sstate =
  s_pkt_send :: pkt
  s_pkt_ack :: pkt
  s_endFile :: int
  s_tv :: timeval
  s_small_seq :: int
  s_small_ind :: int
  s_seq_ind :: int
  s_buffer_empty :: int
  s_seq_exp :: int
  s_window :: int
  s_nbre_tv :: int
  s_packet :: bytes            \<comment> \<open>\<open>packet_encoded[528]\<close>\<close>
  s_read_tmp :: bytes          \<comment> \<open>\<open>read_tmp[512]\<close>\<close>
  s_buffer :: "pkt option list" \<comment> \<open>\<open>buffer[MAX_WINDOW_SIZE]\<close>\<close>
  s_ack_received :: int
  s_sent :: int
  s_fail :: int

text \<open>The exit taken on every error: both packets are deleted and the function returns.\<close>

definition give_up :: "sstate \<Rightarrow> world \<Rightarrow> (sstate sctl \<times> world) outcome" where
  "give_up s w =
     andthen (pkt_del (Some (s_pkt_send s)) w) (\<lambda>w1.
     andthen (pkt_del (Some (s_pkt_ack s)) w1) (\<lambda>w2. Inr (SReturned, w2)))"

definition ctl_bind ::
    "(sstate sctl \<times> world) outcome \<Rightarrow> (sstate \<Rightarrow> world \<Rightarrow> (sstate sctl \<times> world) outcome)
      \<Rightarrow> (sstate sctl \<times> world) outcome" where
  "ctl_bind m f = andthen m (\<lambda>(c, w). case c of SReturned \<Rightarrow> Inr (SReturned, w) | SRunning s \<Rightarrow> f s w)"

lemma ctl_bind_simps [simp]:
  "ctl_bind (Inl e) f = Inl e" "ctl_bind (Inr (SReturned, w)) f = Inr (SReturned, w)"
  "ctl_bind (Inr (SRunning s, w)) f = f s w"
  by (simp_all add: ctl_bind_def)

section \<open>Sending\<close>

text \<open>\<open>write(sfd, packet_encoded, tmp)\<close>.\<close>

definition send_packet :: "nat \<Rightarrow> sstate \<Rightarrow> world \<Rightarrow> (sstate sctl \<times> world) outcome" where
  "send_packet tmp s w =
     andthen (arr_read (s_packet s) 0 tmp) (\<lambda>bs.
     let (r, w1) = do_write Sent bs w in
     if r < 0 then give_up s w1 else Inr (SRunning s, w1))"

definition buffer_slot :: "int \<Rightarrow> sstate \<Rightarrow> pkt outcome" where
  "buffer_slot i s =
     andthen (arr_get (s_buffer s) i) (\<lambda>x. case x of None \<Rightarrow> Inl Uninitialised | Some p \<Rightarrow> Inr p)"

text \<open>\<open>pkt_encode(buffer[i], packet_encoded, &tmp)\<close> with \<open>tmp = 528\<close>, which also writes to the
  packet in the slot; the continuation gets \<open>tmp\<close>.\<close>

definition encode_slot ::
    "crc_fun \<Rightarrow> int \<Rightarrow> sstate \<Rightarrow> world \<Rightarrow> (nat \<Rightarrow> sstate \<Rightarrow> world \<Rightarrow> (sstate sctl \<times> world) outcome)
      \<Rightarrow> (sstate sctl \<times> world) outcome" where
  "encode_slot crc32 i s w f =
     andthen (buffer_slot i s) (\<lambda>p.
     andthen (pkt_encode crc32 p (s_packet s) 528 w) (\<lambda>(st, tmp, buf, p', w1).
     andthen (arr_set (s_buffer s) i (Some p')) (\<lambda>b.
     let s1 = s\<lparr>s_packet := buf, s_buffer := b\<rparr> in
     if st \<noteq> PKT_OK then give_up s1 w1 else f tmp s1 w1)))"

text \<open>\<open>buffer[small_ind % window]\<close> is encoded and sent.\<close>

definition resend_oldest :: "crc_fun \<Rightarrow> sstate \<Rightarrow> world \<Rightarrow> (sstate sctl \<times> world) outcome" where
  "resend_oldest crc32 s w =
     andthen (c_mod (s_small_ind s) (s_window s)) (\<lambda>i. encode_slot crc32 i s w send_packet)"

section \<open>Reading the file\<close>

text \<open>The modulo of the first, empty, \<open>if\<close> is evaluated. A failed \<open>pkt_new\<close> is followed by a
  \<open>pkt_copy\<close> to the null pointer. \<open>pkt_encode\<close> works on \<open>pkt_send\<close> after the copy for the buffer
  was made.\<close>

definition read_file :: "crc_fun \<Rightarrow> s_read \<Rightarrow> sstate \<Rightarrow> world \<Rightarrow> (sstate sctl \<times> world) outcome" where
  "read_file crc32 r s w =
     andthen (c_mod (s_seq_ind s) (s_window s)) (\<lambda>_.
     case r of
       SrErr \<Rightarrow> give_up s w
     | SrBytes bs0 \<Rightarrow>
         (let bs = take MAX_PAYLOAD_SIZE bs0 in
          andthen (arr_write (s_read_tmp s) 0 bs) (\<lambda>read_tmp.
          let s0 = s\<lparr>s_read_tmp := read_tmp\<rparr> in
          if length bs = 0 then Inr (SRunning (s0\<lparr>s_endFile := 1\<rparr>), w)
          else
            (let s1 = (if s_buffer_empty s0 = 0 then s0\<lparr>s_buffer_empty := 1\<rparr> else s0) in
             andthen (pkt_set_payload (s_pkt_send s1) (Some read_tmp) (of_nat (length bs)) w) (\<lambda>(_, p1, w1).
             let (_, p2) = pkt_set_seqnum p1 (word_of_int (s_seq_exp s1)) in
             case pkt_new w1 of
               (None, w2) \<Rightarrow> Inl NullDeref
             | (Some fresh, w2) \<Rightarrow>
                 andthen (c_mod (s_seq_ind s1) (s_window s1)) (\<lambda>i.
                 andthen (arr_set (s_buffer s1) i (Some (pkt_copy p2 fresh))) (\<lambda>b.
                 andthen (pkt_encode crc32 p2 (s_packet s1) 528 w2) (\<lambda>(st, tmp, buf, p3, w3).
                 let s2 = s1\<lparr>s_pkt_send := p3, s_packet := buf, s_buffer := b\<rparr> in
                 if st \<noteq> PKT_OK then give_up s2 w3
                 else
                   ctl_bind (send_packet tmp s2 w3) (\<lambda>s3 w4.
                   andthen (c_mod (s_seq_exp s3 + 1) 256) (\<lambda>e.
                   Inr (SRunning (s3\<lparr>s_seq_exp := e, s_seq_ind := s_seq_ind s3 + 1, s_sent := 1\<rparr>), w4)))))))))))"

section \<open>Reading the socket\<close>

definition le64 :: "64 word \<Rightarrow> bytes" where
  "le64 x = map (\<lambda>k. ucast (drop_bit (8 * k) x)) [0..<8]"

text \<open>The packed structure as it lies in memory: 24 bytes.\<close>

definition struct_bytes :: "world \<Rightarrow> pkt \<Rightarrow> bytes" where
  "struct_bytes w p = header_bytes p @ le32 (CRC1 p) @ le64 (ptr_repr w (PAYLOAD p)) @ le32 (CRC2 p)"

text \<open>\<open>write(sfd, buffer[index], tmp)\<close>: \<open>tmp\<close> bytes of the structure itself.\<close>

definition send_raw :: "int \<Rightarrow> nat \<Rightarrow> sstate \<Rightarrow> world \<Rightarrow> (sstate sctl \<times> world) outcome" where
  "send_raw index tmp s w =
     andthen (buffer_slot index s) (\<lambda>p.
     andthen (arr_read (struct_bytes w p) 0 tmp) (\<lambda>bs.
     let (r, w1) = do_write Sent bs w in
     if r < 0 then give_up s w1 else Inr (SRunning s, w1)))"

text \<open>An acknowledgement: the window moves on. \<open>fail\<close> stays 0, so the retransmission is never
  taken.\<close>

definition on_ack :: "crc_fun \<Rightarrow> 'd dbl \<Rightarrow> u8 \<Rightarrow> sstate \<Rightarrow> world \<Rightarrow> (sstate sctl \<times> world) outcome" where
  "on_ack crc32 ops seq s w =
     andthen (adapt_buffer ops (s_small_seq s) (uint seq) (s_small_ind s) (s_window s)
                (pkt_get_timestamp (s_pkt_ack s)) (s_tv s) (s_nbre_tv s) (s_fail s) w)
       (\<lambda>(small_seq, small_ind, fail, w1).
     let s1 = s\<lparr>s_small_seq := small_seq, s_small_ind := small_ind, s_fail := fail\<rparr> in
     ctl_bind (if s_fail s1 = 1
               then ctl_bind (resend_oldest crc32 s1 w1) (\<lambda>s2 w2. Inr (SRunning (s2\<lparr>s_fail := 0\<rparr>), w2))
               else Inr (SRunning s1, w1)) (\<lambda>s3 w3.
     Inr (SRunning (if s_endFile s3 = 1 \<and> s_small_ind s3 = s_seq_exp s3
                    then s3\<lparr>s_buffer_empty := 0\<rparr> else s3), w3)))"

text \<open>A negative acknowledgement. \<open>seq\<close> is an 8 bit variable: \<open>seq += 256\<close> leaves it as it is. The
  message printed in between reads the slot of the oldest packet.\<close>

definition on_nack :: "crc_fun \<Rightarrow> u8 \<Rightarrow> sstate \<Rightarrow> world \<Rightarrow> (sstate sctl \<times> world) outcome" where
  "on_nack crc32 seq0 s w =
     (let seq = (if uint seq0 < s_small_seq s then seq0 + word_of_int 256 else seq0) in
      andthen (c_mod (s_small_ind s) (s_window s)) (\<lambda>i.
      let index = i + uint seq + (uint seq - s_small_seq s) in
      encode_slot crc32 index s w (\<lambda>tmp s1 w1.
      ctl_bind (send_packet tmp s1 w1) (\<lambda>s2 w2.
      andthen (buffer_slot i s2) (\<lambda>_. send_raw index tmp s2 w2)))))"

text \<open>What is done with \<open>pkt_ack\<close>.\<close>

definition process_ack :: "crc_fun \<Rightarrow> 'd dbl \<Rightarrow> sstate \<Rightarrow> world \<Rightarrow> (sstate sctl \<times> world) outcome" where
  "process_ack crc32 ops s w =
     (let window1 = uint (pkt_get_window (s_pkt_ack s));
          seq = pkt_get_seqnum (s_pkt_ack s);
          s1 = (if window1 > s_window s then s\<lparr>s_window := window1\<rparr> else s);
          (_, p) = pkt_set_window (s_pkt_send s1) (word_of_int (s_window s1));
          s2 = s1\<lparr>s_pkt_send := p, s_ack_received := 1\<rparr> in
      if pkt_get_type (s_pkt_ack s2) = PTYPE_ACK then on_ack crc32 ops seq s2 w
      else if pkt_get_type (s_pkt_ack s2) = PTYPE_NACK then on_nack crc32 seq s2 w
      else Inr (SRunning s2, w))"

text \<open>\<open>pkt_decode\<close> is called for a positive length only; when \<open>read\<close> fails or gives nothing the
  packet received last is processed once more.\<close>

definition read_sock :: "crc_fun \<Rightarrow> 'd dbl \<Rightarrow> s_read \<Rightarrow> sstate \<Rightarrow> world \<Rightarrow> (sstate sctl \<times> world) outcome" where
  "read_sock crc32 ops r s w =
     (case r of
        SrErr \<Rightarrow> process_ack crc32 ops s w
      | SrBytes bs0 \<Rightarrow>
          (let bs = take 528 bs0 in
           andthen (arr_write (s_packet s) 0 bs) (\<lambda>buf.
           let s0 = s\<lparr>s_packet := buf\<rparr> in
           if length bs = 0 then process_ack crc32 ops s0 w
           else
             andthen (pkt_decode crc32 buf (length bs) (s_pkt_ack s0) w) (\<lambda>(st, ack, w1).
             let s1 = s0\<lparr>s_pkt_ack := ack\<rparr> in
             if st \<noteq> PKT_OK then Inr (SRunning s1, w1) else process_ack crc32 ops s1 w1))))"

section \<open>The main loop\<close>

text \<open>\<open>file_given\<close> is \<open>file != NULL\<close>. A negative descriptor in \<open>FD_SET\<close> is undefined behaviour; \<open>open\<close>
  and \<open>create_socket\<close> are not checked.\<close>

definition may_read :: "sstate \<Rightarrow> bool" where
  "may_read s \<longleftrightarrow>
     (let isNotFull = s_seq_exp s - s_small_seq s < s_window s in
      s_endFile s = 0 \<and> (s_buffer_empty s = 0 \<or> isNotFull))"

definition timer_part :: "crc_fun \<Rightarrow> bool \<Rightarrow> sstate \<Rightarrow> world \<Rightarrow> (sstate sctl \<times> world) outcome" where
  "timer_part crc32 file_given s w =
     (if s_sent s \<noteq> 1 \<and> s_ack_received s = 0 \<and> file_given then resend_oldest crc32 s w
      else Inr (SRunning s, w))"

definition send_step ::
    "crc_fun \<Rightarrow> 'd dbl \<Rightarrow> bool \<Rightarrow> int \<Rightarrow> int \<Rightarrow> s_event \<Rightarrow> sstate \<Rightarrow> world \<Rightarrow> (sstate sctl \<times> world) outcome" where
  "send_step crc32 ops file_given sfd fd ev s w =
     (if sfd < 0 \<or> fd < 0 then Inl OutOfBounds
      else
        (let s0 = s\<lparr>s_sent := 0, s_ack_received := 0\<rparr> in
         ctl_bind (case ev_file ev of
                     Some r \<Rightarrow> if may_read s then read_file crc32 r s0 w else Inr (SRunning s0, w)
                   | None \<Rightarrow> Inr (SRunning s0, w)) (\<lambda>s1 w1.
         ctl_bind (case ev_sock ev of
                     Some r \<Rightarrow> read_sock crc32 ops r s1 w1
                   | None \<Rightarrow> Inr (SRunning s1, w1)) (\<lambda>s2 w2.
         timer_part crc32 file_given s2 w2))))"

definition going :: "sstate \<Rightarrow> bool" where
  "going s \<longleftrightarrow> (s_buffer_empty s = 1 \<or> s_endFile s = 0) \<and> s_endFile s \<noteq> 1"

text \<open>The result holds the events that are left when the loop is over.\<close>

fun send_loop ::
    "crc_fun \<Rightarrow> 'd dbl \<Rightarrow> bool \<Rightarrow> int \<Rightarrow> int \<Rightarrow> s_event list \<Rightarrow> sstate \<Rightarrow> world
      \<Rightarrow> (sstate sctl \<times> s_event list \<times> world) outcome" where
  "send_loop crc32 ops file_given sfd fd [] s w = Inr (SRunning s, [], w)"
| "send_loop crc32 ops file_given sfd fd (ev # evs) s w =
     (if \<not> going s then Inr (SRunning s, ev # evs, w)
      else andthen (send_step crc32 ops file_given sfd fd ev s w) (\<lambda>(c, w1).
           case c of SReturned \<Rightarrow> Inr (SReturned, evs, w1)
           | SRunning s1 \<Rightarrow> send_loop crc32 ops file_given sfd fd evs s1 w1))"

section \<open>The end of the transfer\<close>

text \<open>\<open>while (endAck == 0)\<close>: the bytes in \<open>packet_encoded\<close> are written in every round, also after a
  datagram was read into the same array; a negative \<open>length\<close> becomes the largest \<open>size_t\<close>.\<close>

definition end_round ::
    "crc_fun \<Rightarrow> nat \<Rightarrow> s_event \<Rightarrow> sstate \<Rightarrow> world \<Rightarrow> (bool \<times> sstate sctl \<times> world) outcome" where
  "end_round crc32 tmp ev s w =
     andthen (send_packet tmp s w) (\<lambda>(c, w1).
     case c of SReturned \<Rightarrow> Inr (False, SReturned, w1)
     | SRunning s1 \<Rightarrow>
         (case ev_sock ev of
            None \<Rightarrow> Inr (False, SRunning s1, w1)
          | Some r \<Rightarrow>
              (let bs = (case r of SrErr \<Rightarrow> [] | SrBytes bs0 \<Rightarrow> take 528 bs0);
                   len = (case r of SrErr \<Rightarrow> 2 ^ 64 - 1 | SrBytes bs0 \<Rightarrow> length bs) in
               andthen (arr_write (s_packet s1) 0 bs) (\<lambda>buf.
               andthen (pkt_decode crc32 buf len (s_pkt_ack s1) w1) (\<lambda>(st, ack, w2).
               Inr (st = PKT_OK, SRunning (s1\<lparr>s_packet := buf, s_pkt_ack := ack\<rparr>), w2))))))"

fun end_loop ::
    "crc_fun \<Rightarrow> nat \<Rightarrow> s_event list \<Rightarrow> sstate \<Rightarrow> world \<Rightarrow> (sstate sctl \<times> world) outcome" where
  "end_loop crc32 tmp [] s w = Inr (SRunning s, w)"
| "end_loop crc32 tmp (ev # evs) s w =
     andthen (end_round crc32 tmp ev s w) (\<lambda>(endAck, c, w1).
     case c of SReturned \<Rightarrow> Inr (SReturned, w1)
     | SRunning s1 \<Rightarrow>
         if endAck then
           andthen (pkt_del (Some (s_pkt_ack s1)) w1) (\<lambda>w2.
           andthen (pkt_del (Some (s_pkt_send s1)) w2) (\<lambda>w3. Inr (SReturned, w3)))
         else end_loop crc32 tmp evs s1 w1)"

text \<open>The end packet is encoded, once; then the loop.\<close>

definition end_start :: "crc_fun \<Rightarrow> sstate \<Rightarrow> world \<Rightarrow> (nat \<times> sstate sctl \<times> world) outcome" where
  "end_start crc32 s w =
     (let (_, p1) = pkt_set_length (s_pkt_send s) 0;
          (_, p2) = pkt_set_seqnum p1 (word_of_int (s_seq_exp s)) in
      andthen (pkt_encode crc32 p2 (s_packet s) 528 w) (\<lambda>(st, tmp, buf, p3, w1).
      let s1 = s\<lparr>s_pkt_send := p3, s_packet := buf\<rparr> in
      if st \<noteq> PKT_OK then andthen (give_up s1 w1) (\<lambda>(c, w2). Inr (tmp, c, w2))
      else Inr (tmp, SRunning s1, w1)))"

definition send_end :: "crc_fun \<Rightarrow> s_event list \<Rightarrow> sstate \<Rightarrow> world \<Rightarrow> (sstate sctl \<times> world) outcome" where
  "send_end crc32 evs s w =
     andthen (end_start crc32 s w) (\<lambda>(tmp, c, w1).
     case c of SReturned \<Rightarrow> Inr (SReturned, w1) | SRunning s1 \<Rightarrow> end_loop crc32 tmp evs s1 w1)"

section \<open>The whole function\<close>

text \<open>The packets and the local variables; the error paths call \<open>pkt_del\<close> on \<open>NULL\<close>.\<close>

definition send_init :: "bytes \<Rightarrow> bytes \<Rightarrow> world \<Rightarrow> (sstate option \<times> world) outcome" where
  "send_init packet_encoded read_tmp w =
     (case pkt_new w of
        (None, w1) \<Rightarrow> andthen (pkt_del None w1) (\<lambda>w2. Inr (None, w2))
      | (Some send0, w1) \<Rightarrow>
          (let (_, send) = pkt_set_window send0 1 in
           case pkt_new w1 of
             (None, w2) \<Rightarrow>
               andthen (pkt_del None w2) (\<lambda>w3.
               andthen (pkt_del (Some send) w3) (\<lambda>w4. Inr (None, w4)))
           | (Some ack, w2) \<Rightarrow>
               Inr (Some \<lparr>s_pkt_send = send, s_pkt_ack = pkt_copy send ack, s_endFile = 0,
                          s_tv = \<lparr>tv_sec = 0, tv_usec = 100000\<rparr>, s_small_seq = 0, s_small_ind = 0,
                          s_seq_ind = 0, s_buffer_empty = 0, s_seq_exp = 0, s_window = 1, s_nbre_tv = 0,
                          s_packet = packet_encoded, s_read_tmp = read_tmp,
                          s_buffer = replicate MAX_WINDOW_SIZE None, s_ack_received = 0, s_sent = 0,
                          s_fail = 0\<rparr>, w2)))"

definition send_data ::
    "crc_fun \<Rightarrow> 'd dbl \<Rightarrow> bool \<Rightarrow> bool \<Rightarrow> int \<Rightarrow> int \<Rightarrow> bytes \<Rightarrow> bytes \<Rightarrow> s_event list \<Rightarrow> world
      \<Rightarrow> (sstate sctl \<times> world) outcome" where
  "send_data crc32 ops addr_ok file_given sfd fd packet_encoded read_tmp evs w =
     (if \<not> addr_ok then Inr (SReturned, w)
      else
        andthen (send_init packet_encoded read_tmp w) (\<lambda>(s0, w1).
        case s0 of
          None \<Rightarrow> Inr (SReturned, w1)
        | Some s \<Rightarrow>
            andthen (send_loop crc32 ops file_given sfd fd evs s w1) (\<lambda>(c, left, w2).
            case c of
              SReturned \<Rightarrow> Inr (SReturned, w2)
            | SRunning s1 \<Rightarrow>
                if going s1 then Inr (SRunning s1, w2) else send_end crc32 left s1 w2)))"

end
