(* ===== verification/Receiver.thy ===== *)
theory Receiver
  imports Codec_Roundtrip
begin

text \<open>
  The receiver, server.c: the reordering buffer (\<open>add_buffer\<close> and the loop that writes out what
  has become contiguous), \<open>send_ack\<close>, and \<open>receive_data\<close> as a step per \<open>select\<close> round, a loop
  over the rounds and the final acknowledgements. What \<open>select\<close> and \<open>read\<close> return is an event.
  Output to \<open>stdout\<close>/\<open>stderr\<close> for diagnosis is left out.
\<close>

section \<open>Events and control\<close>

datatype rd_result = RdErr | RdBytes bytes

datatype r_event =
    R_idle             \<comment> \<open>\<open>select\<close> returned and the socket is not readable\<close>
  | R_ready rd_result  \<comment> \<open>the socket is readable and \<open>read\<close> gives this\<close>

datatype 's ctl = Running 's | Returned

section \<open>The reordering buffer\<close>

record rbuf =
  buffer_len :: "int list"
  buffer_payload :: "ptr list"

text \<open>\<open>memset(buffer_len, -1, MAX_WINDOW_SIZE)\<close> on the zero-initialised global array of 31 ints
  sets 31 bytes, not 31 ints.\<close>

definition buffer_len_init :: "int list" where
  "buffer_len_init =
     (let a = put_at 0 (replicate MAX_WINDOW_SIZE (-1)) (replicate (4 * MAX_WINDOW_SIZE) 0) in
      map (\<lambda>k. sint (of_le (take 4 (drop (4 * k) a)) :: u32)) [0..<MAX_WINDOW_SIZE])"

definition rbuf_init :: rbuf where
  "rbuf_init = \<lparr>buffer_len = buffer_len_init, buffer_payload = replicate MAX_PAYLOAD_SIZE None\<rparr>"

definition store_slot :: "int \<Rightarrow> int \<Rightarrow> ptr \<Rightarrow> rbuf \<Rightarrow> rbuf outcome" where
  "store_slot i l p b =
     andthen (arr_set (buffer_len b) i l) (\<lambda>bl.
     andthen (arr_set (buffer_payload b) i p) (\<lambda>bp.
     Inr \<lparr>buffer_len = bl, buffer_payload = bp\<rparr>))"

definition add_buffer :: "int \<Rightarrow> int \<Rightarrow> int \<Rightarrow> pkt \<Rightarrow> int \<Rightarrow> rbuf \<Rightarrow> rbuf outcome" where
  "add_buffer index seq_rcv seq_exp rcv window b =
     (if (seq_rcv \<le> seq_exp + window - 1 \<and> seq_rcv \<ge> seq_exp)
         \<or> (seq_exp + window - 1 > 256 \<and> seq_rcv \<le> c_rem (seq_exp + window - 1) 256)
      then
        (let seq_rcv' = (if seq_rcv < seq_exp then seq_rcv + 256 else seq_rcv) in
         andthen (c_mod (index + (seq_rcv' - seq_exp)) window) (\<lambda>real_ind.
         store_slot real_ind (uint (pkt_get_length rcv)) (pkt_get_payload rcv) b))
      else Inr b)"

text \<open>\<open>write(fd, p, l)\<close>; the code only prints a message when it fails.\<close>

definition write_payload :: "ptr \<Rightarrow> int \<Rightarrow> world \<Rightarrow> world outcome" where
  "write_payload p l w =
     (if l < 0 then Inl OutOfBounds
      else andthen (load p 0 (nat l) w) (\<lambda>bs. Inr (snd (do_write Wrote bs w))))"

text \<open>One turn of the loop: write the slot at \<open>index\<close>, clear it and move on.\<close>

definition drain_step :: "int \<Rightarrow> int \<Rightarrow> int \<Rightarrow> rbuf \<Rightarrow> int \<Rightarrow> world \<Rightarrow> (int \<times> int \<times> rbuf \<times> world) outcome" where
  "drain_step window index seq_exp b l w =
     andthen (arr_get (buffer_payload b) index) (\<lambda>p.
     andthen (write_payload p l w) (\<lambda>w'.
     andthen (store_slot index (-1) None b) (\<lambda>b'.
     andthen (c_mod (index + 1) window) (\<lambda>index'.
     andthen (c_mod (seq_exp + 1) 256) (\<lambda>seq_exp'.
     Inr (index', seq_exp', b', w'))))))"

lemma andthen_cong [fundef_cong]:
  "m = m' \<Longrightarrow> (\<And>x. m' = Inr x \<Longrightarrow> f x = g x) \<Longrightarrow> andthen m f = andthen m' g"
  by (cases m') auto

definition filled :: "rbuf \<Rightarrow> nat" where
  "filled b = length (filter (\<lambda>l. l \<noteq> -1) (buffer_len b))"

lemma filled_clear:
  assumes "arr_get (buffer_len b) i = Inr l" "l \<noteq> -1" "store_slot i (-1) None b = Inr b'"
  shows "filled b' < filled b"
proof -
  let ?a = "buffer_len b" and ?k = "nat i"
  have i: "?k < length ?a" and l: "?a ! ?k = l"
    using assms(1) by (auto simp: arr_get_def split: if_splits)
  have b': "buffer_len b' = ?a[?k := -1]"
    using assms(3) by (auto simp: store_slot_def arr_set_def split: if_splits)
  let ?P = "\<lambda>l. l \<noteq> -1"
  have "?a = take ?k ?a @ l # drop (Suc ?k) ?a"
    using id_take_nth_drop [OF i] by (simp only: l)
  then have "length (filter ?P ?a) = length (filter ?P (take ?k ?a @ l # drop (Suc ?k) ?a))"
    by (rule arg_cong)
  moreover have "?a[?k := -1] = take ?k ?a @ (-1) # drop (Suc ?k) ?a"
    using i by (rule upd_conv_take_nth_drop)
  ultimately show ?thesis
    using assms(2) by (simp add: filled_def b')
qed

function drain :: "int \<Rightarrow> int \<Rightarrow> int \<Rightarrow> rbuf \<Rightarrow> world \<Rightarrow> (int \<times> int \<times> rbuf \<times> world) outcome" where
  "drain window index seq_exp b w =
     andthen (arr_get (buffer_len b) index) (\<lambda>l.
     if l \<noteq> -1 then
       andthen (drain_step window index seq_exp b l w) (\<lambda>(index', seq_exp', b', w').
       drain window index' seq_exp' b' w')
     else Inr (index, seq_exp, b, w))"
  by pat_completeness auto
termination
  by (relation "measure (\<lambda>(window, index, seq_exp, b, w). filled b)")
    (auto simp: drain_step_def andthen_eq_Inr intro: filled_clear)

declare drain.simps [simp del]

section \<open>Acknowledgements\<close>

text \<open>\<open>send_ack\<close> returns 0 or -1, with the acknowledgement packet as it leaves it. The 20 byte
  buffer on the stack starts with arbitrary contents.\<close>

definition send_ack ::
    "crc_fun \<Rightarrow> pkt \<Rightarrow> int \<Rightarrow> u32 \<Rightarrow> u32 \<Rightarrow> int \<Rightarrow> world \<Rightarrow> (int \<times> pkt \<times> world) outcome" where
  "send_ack crc32 ack0 seqnum ack time_data window w =
     (let (st1, p1) = pkt_set_seqnum ack0 (word_of_int (seqnum + 1)) in
      if st1 \<noteq> PKT_OK then Inr (-1, p1, w) else
      let (st2, p2) = (if ack = PTYPE_ACK then pkt_set_type p1 PTYPE_ACK
                       else if ack = PTYPE_NACK then pkt_set_type p1 PTYPE_NACK
                       else (st1, p1)) in
      if st2 \<noteq> PKT_OK then Inr (-1, p2, w) else
      let (_, p3) = pkt_set_timestamp p2 time_data;
          (st4, p4) = pkt_set_window p3 (word_of_int window) in
      if st4 \<noteq> PKT_OK then Inr (-1, p4, w) else
      andthen (pkt_set_payload p4 None 0 w) (\<lambda>(st5, p5, w1).
      if st5 \<noteq> PKT_OK then Inr (-1, p5, w1) else
      let buf = map (junk w1 (nalloc w1)) [0..<20] in
      andthen (pkt_encode crc32 p5 buf 20 w1) (\<lambda>(st6, buf_len, buf', p6, w2).
      if st6 \<noteq> PKT_OK then Inr (-1, p6, w2) else
      andthen (arr_read buf' 0 buf_len) (\<lambda>bs.
      let (r, w3) = do_write Sent bs w2 in
      Inr (if r < 0 then -1 else 0, p6, w3)))))"

section \<open>The receive loop\<close>

record rstate =
  r_pkt_rcv :: pkt
  r_pkt_ack :: pkt
  r_index :: int
  r_seq_exp :: int
  r_buf :: rbuf
  r_packet :: bytes      \<comment> \<open>\<open>packet_encoded[528]\<close>\<close>
  r_end_file :: bool

text \<open>A datagram of \<open>len > 0\<close> bytes lies in \<open>packet_encoded\<close>.\<close>

definition handle_datagram ::
    "crc_fun \<Rightarrow> int \<Rightarrow> nat \<Rightarrow> rstate \<Rightarrow> world \<Rightarrow> (rstate \<times> world) outcome" where
  "handle_datagram crc32 window len s w =
     andthen (pkt_decode crc32 (r_packet s) len (r_pkt_rcv s) w) (\<lambda>(st, rcv, w1).
     let s1 = s\<lparr>r_pkt_rcv := rcv\<rparr> in
     if st = PKT_OK \<and> pkt_get_type rcv = PTYPE_DATA then
       (let seq_rcv = uint (pkt_get_seqnum rcv) in
        if pkt_get_tr rcv = 1 then
          andthen (send_ack crc32 (r_pkt_ack s1) seq_rcv PTYPE_NACK (pkt_get_timestamp rcv) window w1)
            (\<lambda>(_, ack, w2). Inr (s1\<lparr>r_pkt_ack := ack\<rparr>, w2))
        else
          let lg = uint (pkt_get_length rcv) in
          if lg = 0 then Inr (s1\<lparr>r_end_file := True\<rparr>, w1)
          else
            andthen (add_buffer (r_index s1) seq_rcv (r_seq_exp s1) rcv window (r_buf s1)) (\<lambda>b.
            andthen (drain window (r_index s1) (r_seq_exp s1) b w1) (\<lambda>(index, seq_exp, b', w2).
            andthen (send_ack crc32 (r_pkt_ack s1) (seq_exp - 1) PTYPE_ACK (pkt_get_timestamp rcv) window w2)
              (\<lambda>(_, ack, w3).
                Inr (s1\<lparr>r_index := index, r_seq_exp := seq_exp, r_buf := b', r_pkt_ack := ack\<rparr>, w3)))))
     else Inr (s1, w1))"

text \<open>One round. \<open>read\<close> stores at most 528 bytes at the start of \<open>packet_encoded\<close>.\<close>

definition receive_step ::
    "crc_fun \<Rightarrow> int \<Rightarrow> r_event \<Rightarrow> rstate \<Rightarrow> world \<Rightarrow> (rstate ctl \<times> world) outcome" where
  "receive_step crc32 window ev s w =
     (case ev of
        R_idle \<Rightarrow> Inr (Running s, w)
      | R_ready RdErr \<Rightarrow>
          andthen (pkt_del (Some (r_pkt_rcv s)) w) (\<lambda>w1.
          andthen (pkt_del (Some (r_pkt_ack s)) w1) (\<lambda>w2. Inr (Returned, w2)))
      | R_ready (RdBytes bs0) \<Rightarrow>
          (let bs = take 528 bs0 in
           andthen (arr_write (r_packet s) 0 bs) (\<lambda>buf.
           let s1 = s\<lparr>r_packet := buf\<rparr> in
           if length bs = 0 then Inr (Running s1, w)
           else andthen (handle_datagram crc32 window (length bs) s1 w) (\<lambda>(s2, w1).
                Inr (Running s2, w1)))))"

fun receive_loop ::
    "crc_fun \<Rightarrow> int \<Rightarrow> r_event list \<Rightarrow> rstate \<Rightarrow> world \<Rightarrow> (rstate ctl \<times> world) outcome" where
  "receive_loop crc32 window [] s w = Inr (Running s, w)"
| "receive_loop crc32 window (ev # evs) s w =
     (if r_end_file s then Inr (Running s, w)
      else andthen (receive_step crc32 window ev s w) (\<lambda>(c, w1).
           case c of Returned \<Rightarrow> Inr (Returned, w1) | Running s1 \<Rightarrow> receive_loop crc32 window evs s1 w1))"

text \<open>\<open>while (count < 11)\<close>: the acknowledgement of the end of the transfer.\<close>

function final_acks ::
    "crc_fun \<Rightarrow> int \<Rightarrow> nat \<Rightarrow> rstate \<Rightarrow> world \<Rightarrow> (rstate \<times> world) outcome" where
  "final_acks crc32 window count s w =
     (if count < 11 then
        andthen (send_ack crc32 (r_pkt_ack s) (r_seq_exp s - 1) PTYPE_ACK
                   (pkt_get_timestamp (r_pkt_rcv s)) window w) (\<lambda>(_, ack, w1).
        final_acks crc32 window (Suc count) (s\<lparr>r_pkt_ack := ack\<rparr>) w1)
      else Inr (s, w))"
  by pat_completeness auto
termination
  by (relation "measure (\<lambda>(crc32, window, count, s, w). 11 - count)") auto

declare final_acks.simps [simp del]

definition receive_end :: "crc_fun \<Rightarrow> int \<Rightarrow> rstate \<Rightarrow> world \<Rightarrow> world outcome" where
  "receive_end crc32 window s w =
     andthen (final_acks crc32 window 0 s w) (\<lambda>(s1, w1).
     andthen (pkt_del (Some (r_pkt_ack s1)) w1) (\<lambda>w2.
     pkt_del (Some (r_pkt_rcv s1)) w2))"

text \<open>The two packets; when an allocation fails the code calls \<open>pkt_del\<close> on the \<open>NULL\<close> it got.\<close>

definition receive_init :: "bytes \<Rightarrow> world \<Rightarrow> (rstate option \<times> world) outcome" where
  "receive_init packet_encoded w =
     (case pkt_new w of
        (None, w1) \<Rightarrow> andthen (pkt_del None w1) (\<lambda>w2. Inr (None, w2))
      | (Some rcv, w1) \<Rightarrow>
          (case pkt_new w1 of
             (None, w2) \<Rightarrow>
               andthen (pkt_del None w2) (\<lambda>w3.
               andthen (pkt_del (Some rcv) w3) (\<lambda>w4. Inr (None, w4)))
           | (Some ack, w2) \<Rightarrow>
               Inr (Some \<lparr>r_pkt_rcv = rcv, r_pkt_ack = ack, r_index = 0, r_seq_exp = 0,
                          r_buf = rbuf_init, r_packet = packet_encoded, r_end_file = False\<rparr>, w2)))"

text \<open>The whole function. \<open>addr_ok\<close>, \<open>sfd\<close> and \<open>wait\<close> are what \<open>real_address\<close>,
  \<open>create_socket\<close> and \<open>wait_for_client\<close> give; the result is \<open>Running\<close> while the events given
  do not complete the transfer.\<close>

definition receive_data ::
    "crc_fun \<Rightarrow> bool \<Rightarrow> int \<Rightarrow> int \<Rightarrow> bytes \<Rightarrow> r_event list \<Rightarrow> world \<Rightarrow> (rstate ctl \<times> world) outcome" where
  "receive_data crc32 addr_ok sfd wait packet_encoded evs w =
     (if \<not> addr_ok then Inr (Returned, w)
      else if sfd < 0 then Inr (Returned, w)
      else if wait < 0 then Inr (Returned, w)
      else
        (let window = 3 in
         andthen (receive_init packet_encoded w) (\<lambda>(s0, w1).
         case s0 of
           None \<Rightarrow> Inr (Returned, w1)
         | Some s \<Rightarrow>
             andthen (receive_loop crc32 window evs s w1) (\<lambda>(c, w2).
             case c of
               Returned \<Rightarrow> Inr (Returned, w2)
             | Running s1 \<Rightarrow>
                 if r_end_file s1
                 then andthen (receive_end crc32 window s1 w2) (\<lambda>w3. Inr (Returned, w3))
                 else Inr (Running s1, w2)))))"

end
