(* ===== verification/Receiver_Window.thy ===== *)
theory Receiver_Window
  imports Receiver
begin

text \<open>
  The reordering buffer as a sliding window. The interface \<open>sliding_window\<close> is what the
  receiver relies on: storing at a distance from the next expected element, and moving on by
  one. It is interpreted on the circular arrays of server.c; the writing loop is shown to
  deliver the contiguous elements in order and to end.
\<close>

section \<open>The interface\<close>

text \<open>Every element present at distance \<open>d\<close> satisfies \<open>P (e + d)\<close>.\<close>

definition agrees :: "('s \<Rightarrow> nat \<Rightarrow> 'v option) \<Rightarrow> nat \<Rightarrow> (nat \<Rightarrow> 'v \<Rightarrow> bool) \<Rightarrow> nat \<Rightarrow> 's \<Rightarrow> bool" where
  "agrees get W P e s \<longleftrightarrow> (\<forall>d<W. \<forall>v. get s d = Some v \<longrightarrow> P (e + d) v)"

lemma agreesD: "agrees get W P e s \<Longrightarrow> d < W \<Longrightarrow> get s d = Some v \<Longrightarrow> P (e + d) v"
  by (simp add: agrees_def)

lemma agrees_mono:
  "agrees get W P e s \<Longrightarrow> (\<And>d v. d < W \<Longrightarrow> get s d = Some v \<Longrightarrow> P (e + d) v \<Longrightarrow> Q (e + d) v)
    \<Longrightarrow> agrees get W Q e s"
  by (simp add: agrees_def)

locale sliding_window =
  fixes W :: nat
    and inv :: "'s \<Rightarrow> bool"
    and valid :: "'v \<Rightarrow> bool"
    and get :: "'s \<Rightarrow> nat \<Rightarrow> 'v option"
    and put :: "nat \<Rightarrow> 'v \<Rightarrow> 's \<Rightarrow> 's"
    and pop :: "'s \<Rightarrow> 's"
  assumes inv_put: "inv s \<Longrightarrow> d < W \<Longrightarrow> inv (put d v s)"
    and get_put: "inv s \<Longrightarrow> d < W \<Longrightarrow> d' < W \<Longrightarrow> valid v \<Longrightarrow>
      get (put d v s) d' = (if d' = d then Some v else get s d')"
    and inv_pop: "inv s \<Longrightarrow> inv (pop s)"
    and get_pop: "inv s \<Longrightarrow> d < W \<Longrightarrow> get (pop s) d = (if Suc d = W then None else get s (Suc d))"
begin

lemma agrees_put:
  "inv s \<Longrightarrow> d < W \<Longrightarrow> valid v \<Longrightarrow> agrees get W P e s \<Longrightarrow> P (e + d) v \<Longrightarrow>
     agrees get W P e (put d v s)"
  by (auto simp: agrees_def get_put)

lemma agrees_pop: "inv s \<Longrightarrow> agrees get W P e s \<Longrightarrow> agrees get W P (Suc e) (pop s)"
  unfolding agrees_def
  by (clarsimp simp: get_pop split: if_splits) (metis Suc_lessI add_Suc_right)

lemma inv_pops: "inv s \<Longrightarrow> inv ((pop ^^ k) s)"
  by (induction k) (simp_all add: inv_pop)

lemma agrees_pops: "inv s \<Longrightarrow> agrees get W P e s \<Longrightarrow> agrees get W P (e + k) ((pop ^^ k) s)"
  by (induction k) (simp_all add: agrees_pop inv_pops)

lemma get_pops:
  "inv s \<Longrightarrow> d < W \<Longrightarrow> get ((pop ^^ k) s) d = (if d + k < W then get s (d + k) else None)"
proof (induction k arbitrary: d)
  case 0
  then show ?case by simp
next
  case (Suc k)
  then show ?case
    by (cases "Suc d < W") (auto simp: get_pop inv_pops not_less)
qed

end

section \<open>The circular arrays\<close>

type_synonym ring = "int \<times> rbuf"

definition ring_inv :: "nat \<Rightarrow> ring \<Rightarrow> bool" where
  "ring_inv W s \<longleftrightarrow> (case s of (i, b) \<Rightarrow> W \<le> MAX_WINDOW_SIZE \<and> 0 \<le> i \<and> i < int W \<and>
     length (buffer_len b) = MAX_WINDOW_SIZE \<and> length (buffer_payload b) = MAX_PAYLOAD_SIZE)"

definition ring_get :: "nat \<Rightarrow> ring \<Rightarrow> nat \<Rightarrow> (int \<times> ptr) option" where
  "ring_get W s d = (case s of (i, b) \<Rightarrow>
     (let k = nat ((i + int d) mod int W) in
      if buffer_len b ! k = -1 then None else Some (buffer_len b ! k, buffer_payload b ! k)))"

definition ring_put :: "nat \<Rightarrow> nat \<Rightarrow> int \<times> ptr \<Rightarrow> ring \<Rightarrow> ring" where
  "ring_put W d v s = (case s of (i, b) \<Rightarrow>
     (i, projr (store_slot ((i + int d) mod int W) (fst v) (snd v) b)))"

definition ring_pop :: "nat \<Rightarrow> ring \<Rightarrow> ring" where
  "ring_pop W s = (case s of (i, b) \<Rightarrow> ((i + 1) mod int W, projr (store_slot i (-1) None b)))"

lemmas ring_defs = ring_inv_def ring_get_def ring_put_def ring_pop_def

lemma store_slot_ok:
  "length (buffer_len b) = MAX_WINDOW_SIZE \<Longrightarrow> length (buffer_payload b) = MAX_PAYLOAD_SIZE \<Longrightarrow>
   0 \<le> k \<Longrightarrow> k < int MAX_WINDOW_SIZE \<Longrightarrow>
   store_slot k l p b =
     Inr \<lparr>buffer_len = (buffer_len b)[nat k := l], buffer_payload = (buffer_payload b)[nat k := p]\<rparr>"
  by (simp add: store_slot_def arr_set_def MAX_WINDOW_SIZE_def MAX_PAYLOAD_SIZE_def)

lemma ring_index_inj:
  assumes "d < W" "d' < W" "0 \<le> i"
  shows "nat ((i + int d) mod int W) = nat ((i + int d') mod int W) \<longleftrightarrow> d = d'"
proof
  assume "nat ((i + int d) mod int W) = nat ((i + int d') mod int W)"
  then have "(i + int d) mod int W = (i + int d') mod int W"
    using assms by (simp add: eq_nat_nat_iff)
  then have "int W dvd int d - int d'"
    by (simp add: mod_eq_dvd_iff)
  then have le: "int d - int d' \<noteq> 0 \<Longrightarrow> int W \<le> \<bar>int d - int d'\<bar>"
    using dvd_imp_le_int [of "int d - int d'" "int W"] by simp
  show "d = d'"
  proof (rule ccontr)
    assume "d \<noteq> d'"
    with le have "int W \<le> \<bar>int d - int d'\<bar>" by simp
    with assms show False by linarith
  qed
qed simp

lemma ring_index_bound:
  assumes "0 < W" "W \<le> MAX_WINDOW_SIZE"
  shows "0 \<le> (i + int d) mod int W" "(i + int d) mod int W < int MAX_WINDOW_SIZE"
proof -
  show "0 \<le> (i + int d) mod int W" using assms by simp
  have "(i + int d) mod int W < int W" using assms by simp
  then show "(i + int d) mod int W < int MAX_WINDOW_SIZE" using assms by linarith
qed

interpretation ring: sliding_window W "ring_inv W" "\<lambda>v. fst v \<noteq> -1" "ring_get W" "ring_put W" "ring_pop W"
  for W :: nat
proof unfold_locales
  fix s :: ring and d d' :: nat and v :: "int \<times> ptr"
  obtain i b where s: "s = (i, b)" by (cases s)
  assume inv: "ring_inv W s"
  then have W: "0 < W" "W \<le> MAX_WINDOW_SIZE" and i: "0 \<le> i" "i < int W"
    and len: "length (buffer_len b) = MAX_WINDOW_SIZE" "length (buffer_payload b) = MAX_PAYLOAD_SIZE"
    by (auto simp: ring_inv_def s)
  note bound = ring_index_bound [OF W]
  have i31: "i < int MAX_WINDOW_SIZE" using i W by linarith
  have in_len: "nat ((i + int d) mod int W) < length (buffer_len b)"
    "nat ((i + int d) mod int W) < length (buffer_payload b)" for d
    using bound [of i d] len by (auto simp: MAX_WINDOW_SIZE_def MAX_PAYLOAD_SIZE_def)
  show "ring_inv W (ring_pop W s)"
    using W i i31 len by (simp add: ring_inv_def ring_pop_def s store_slot_ok)
  show "ring_inv W (ring_put W d v s)" if "d < W"
    using W i len bound by (simp add: ring_inv_def ring_put_def s store_slot_ok)
  show "ring_get W (ring_put W d v s) d' = (if d' = d then Some v else ring_get W s d')"
    if "d < W" "d' < W" "fst v \<noteq> -1"
    using that len bound in_len i ring_index_inj [OF that(1,2) i(1)]
    by (auto simp: ring_get_def ring_put_def s store_slot_ok Let_def)
  show "ring_get W (ring_pop W s) d = (if Suc d = W then None else ring_get W s (Suc d))" if "d < W"
  proof -
    have k: "(((i + 1) mod int W) + int d) mod int W = (i + int (Suc d)) mod int W"
      by (simp add: mod_simps ac_simps)
    have i0: "nat i = nat ((i + int 0) mod int W)"
      using i by simp
    have g: "ring_get W (ring_pop W s) d =
      (let k = nat ((i + int (Suc d)) mod int W) in
       if (buffer_len b)[nat i := -1] ! k = -1 then None
       else Some ((buffer_len b)[nat i := -1] ! k, (buffer_payload b)[nat i := None] ! k))"
      using i i31 len k by (simp only: ring_get_def ring_pop_def s store_slot_ok prod.case sum.sel rbuf.select_convs)
    show ?thesis
    proof (cases "Suc d = W")
      case True
      have "(i + int (Suc d)) mod int W = i"
        using i True by simp
      with True i i31 len show ?thesis
        by (simp add: g)
    next
      case False
      with that have "Suc d < W" by simp
      then have "nat ((i + int (Suc d)) mod int W) \<noteq> nat i"
        using ring_index_inj [of "Suc d" W 0 i] i0 W(1) i(1) by (metis Zero_not_Suc)
      with False show ?thesis
        unfolding g by (simp add: ring_get_def s Let_def del: of_nat_Suc)
    qed
  qed
qed

section \<open>The writing loop\<close>

text \<open>The slot of element \<open>n\<close> holds the length of \<open>D n\<close> and a live block with its bytes.\<close>

definition slot_ok :: "(nat \<Rightarrow> bytes) \<Rightarrow> world \<Rightarrow> nat \<Rightarrow> int \<times> ptr \<Rightarrow> bool" where
  "slot_ok D w n v \<longleftrightarrow> fst v = int (length (D n)) \<and> (\<exists>a. snd v = Some a \<and> mem w a = Some (D n))"

lemma slot_ok_keeps: "slot_ok D w n v \<Longrightarrow> keeps w w' \<Longrightarrow> slot_ok D w' n v"
  by (auto simp: slot_ok_def keeps_def)

lemma slot_ok_mem_eq: "mem w' = mem w \<Longrightarrow> slot_ok D w' = slot_ok D w"
  by (simp add: slot_ok_def fun_eq_iff)

text \<open>The world after the payloads \<open>bss\<close> were written.\<close>

definition written :: "world \<Rightarrow> bytes list \<Rightarrow> world" where
  "written w bss = w\<lparr>nwrite := nwrite w + length bss, obslog := obslog w @ map Wrote bss\<rparr>"

lemma written_sel [simp]:
  "mem (written w bss) = mem w" "wfail (written w bss) = wfail w" "oom (written w bss) = oom w"
  "nalloc (written w bss) = nalloc w" "obslog (written w bss) = obslog w @ map Wrote bss"
  "clock (written w bss) = clock w" "nclock (written w bss) = nclock w"
  by (simp_all add: written_def)

lemma written_Nil [simp]: "written w [] = w"
  by (simp add: written_def)

lemma written_Cons: "written (written w [bs]) bss = written w (bs # bss)"
  by (simp add: written_def)

lemma write_payload_ok:
  assumes "slot_ok D w n (l, p)" "\<not> wfail w (nwrite w)"
  shows "write_payload p l w = Inr (written w [D n])"
  using assms
  by (auto simp: write_payload_def slot_ok_def load_ok do_write_def Let_def written_def)

text \<open>One turn of the loop is \<open>ring_pop\<close> and a write.\<close>

lemma drain_step_ok:
  assumes "ring_inv W (i, b)" "slot_ok D w n (l, buffer_payload b ! nat i)" "\<not> wfail w (nwrite w)"
  shows "drain_step (int W) i (int (n mod 256)) b l w =
    (case ring_pop W (i, b) of (i', b') \<Rightarrow> Inr (i', int (Suc n mod 256), b', written w [D n]))"
proof -
  have W: "W \<le> MAX_WINDOW_SIZE" and i: "0 \<le> i" "i < int W"
    and len: "length (buffer_len b) = MAX_WINDOW_SIZE" "length (buffer_payload b) = MAX_PAYLOAD_SIZE"
    using assms(1) by (auto simp: ring_inv_def)
  have i31: "i < int MAX_WINDOW_SIZE" using i W by linarith
  have g: "arr_get (buffer_payload b) i = Inr (buffer_payload b ! nat i)"
    using i(1) i31 len by (simp add: arr_get_def MAX_WINDOW_SIZE_def MAX_PAYLOAD_SIZE_def)
  have m: "c_mod (int (n mod 256) + 1) 256 = Inr (int (Suc n mod 256))"
    by (simp add: zmod_int mod_simps ac_simps)
  have mi: "c_mod (i + 1) (int W) = Inr ((i + 1) mod int W)"
    using i by simp
  show ?thesis
    using i(1) i31 len
    by (simp add: drain_step_def g write_payload_ok [OF assms(2,3)] store_slot_ok m mi ring_pop_def
        del: of_nat_Suc)
qed

lemma ring_get_0:
  "ring_inv W (i, b) \<Longrightarrow> ring_get W (i, b) 0 =
     (if buffer_len b ! nat i = -1 then None else Some (buffer_len b ! nat i, buffer_payload b ! nat i))"
  by (simp add: ring_get_def ring_inv_def Let_def)

lemma arr_get_ring:
  "ring_inv W (i, b) \<Longrightarrow> arr_get (buffer_len b) i = Inr (buffer_len b ! nat i)"
  by (auto simp: ring_inv_def arr_get_def)

text \<open>
  The loop ends, writes the elements from the expected one up to the first that is missing, in
  order, and leaves the window at the missing one.
\<close>

lemma drain_contiguous:
  assumes "ring_inv W (i, b)" "agrees (ring_get W) W (slot_ok D w) e (i, b)" "\<forall>k. \<not> wfail w k"
  shows "\<exists>k i' b'. drain (int W) i (int (e mod 256)) b w =
      Inr (i', int ((e + k) mod 256), b', written w (map D [e..<e + k])) \<and>
    (i', b') = (ring_pop W ^^ k) (i, b) \<and> ring_get W (i', b') 0 = None \<and>
    (\<forall>d<k. d < W \<and> ring_get W (i, b) d \<noteq> None)"
  using assms
proof (induction "filled b" arbitrary: i b w e rule: less_induct)
  case less
  let ?l = "buffer_len b ! nat i"
  note inv = less.prems(1)
  have W: "0 < W" using inv by (auto simp: ring_inv_def)
  show ?case
  proof (cases "?l = -1")
    case True
    then have "drain (int W) i (int (e mod 256)) b w = Inr (i, int (e mod 256), b, w)"
      by (subst drain.simps) (simp add: arr_get_ring [OF inv])
    with True inv show ?thesis
      by (intro exI [of _ 0] exI [of _ i] exI [of _ b]) (simp add: ring_get_0)
  next
    case False
    then have g: "ring_get W (i, b) 0 = Some (?l, buffer_payload b ! nat i)"
      by (simp add: ring_get_0 [OF inv])
    with agreesD [OF less.prems(2) W] have so: "slot_ok D w e (?l, buffer_payload b ! nat i)"
      by fastforce
    obtain i1 b1 where pop: "ring_pop W (i, b) = (i1, b1)" by (cases "ring_pop W (i, b)")
    let ?w1 = "written w [D e]"
    have step: "drain_step (int W) i (int (e mod 256)) b ?l w = Inr (i1, int (Suc e mod 256), b1, ?w1)"
      using drain_step_ok [OF inv so] less.prems(3) by (simp add: pop)
    then have "store_slot i (-1) None b = Inr b1"
      by (auto simp: drain_step_def andthen_eq_Inr)
    with False arr_get_ring [OF inv] have dec: "filled b1 < filled b"
      by (auto intro: filled_clear)
    have inv1: "ring_inv W (i1, b1)" and ag1: "agrees (ring_get W) W (slot_ok D ?w1) (Suc e) (i1, b1)"
      using ring.inv_pop [OF inv] ring.agrees_pop [OF inv less.prems(2)]
      by (simp_all add: pop slot_ok_mem_eq [of ?w1 w])
    from less.hyps [OF dec inv1 ag1] less.prems(3) obtain k i' b' where
      k: "drain (int W) i1 (int (Suc e mod 256)) b1 ?w1 =
          Inr (i', int ((Suc e + k) mod 256), b', written ?w1 (map D [Suc e..<Suc e + k]))"
        "(i', b') = (ring_pop W ^^ k) (i1, b1)" "ring_get W (i', b') 0 = None"
        "\<forall>d<k. d < W \<and> ring_get W (i1, b1) d \<noteq> None"
      by auto
    have up: "[e..<e + Suc k] = e # [Suc e..<Suc e + k]" and num: "e + Suc k = Suc e + k"
      by (simp_all add: upt_conv_Cons)
    have "written ?w1 (map D [Suc e..<Suc e + k]) = written w (map D [e..<e + Suc k])"
      by (simp only: up written_Cons list.map)
    with k(1) have rec: "drain (int W) i1 (int (Suc e mod 256)) b1 ?w1 =
        Inr (i', int ((e + Suc k) mod 256), b', written w (map D [e..<e + Suc k]))"
      by (simp only: num)
    have "drain (int W) i (int (e mod 256)) b w =
        Inr (i', int ((e + Suc k) mod 256), b', written w (map D [e..<e + Suc k]))"
      using False
      by (subst drain.simps) (simp only: arr_get_ring [OF inv] andthen_Inr step prod.case rec not_False_eq_True if_True)
    moreover have "(i', b') = (ring_pop W ^^ Suc k) (i, b)"
      using k(2) by (simp add: funpow_swap1 [symmetric] pop funpow_Suc_right del: funpow.simps)
    moreover have "d < W \<and> ring_get W (i, b) d \<noteq> None" if "d < Suc k" for d
    proof (cases d)
      case 0
      with g W show ?thesis by simp
    next
      case (Suc d')
      with that k(4) have d': "d' < W" "ring_get W (i1, b1) d' \<noteq> None" by simp_all
      with Suc ring.get_pop [OF inv, of d'] show ?thesis
        by (auto simp: pop split: if_splits)
    qed
    ultimately show ?thesis
      using k(3) by (intro exI [of _ "Suc k"] exI [of _ i'] exI [of _ b']) auto
  qed
qed

end
