(* ===== verification/Receiver_Laws.thy ===== *)
theory Receiver_Laws
  imports Receiver_Window
begin

text \<open>
  The steps of the receiver: which packets \<open>add_buffer\<close> stores, what \<open>send_ack\<close> puts on the
  wire, and the invariant of the receive loop with one preservation lemma per kind of event.
\<close>

section \<open>The initial buffer\<close>

lemma buffer_len_init_eq: "buffer_len_init = replicate 7 (-1) @ [16777215] @ replicate 23 0"
  by code_simp

lemma ring_init:
  assumes "0 < W" "W \<le> 7"
  shows "ring_inv W (0, rbuf_init)" "d < W \<Longrightarrow> ring_get W (0, rbuf_init) d = None"
proof -
  show "ring_inv W (0, rbuf_init)"
    using assms by (simp add: ring_inv_def rbuf_init_def buffer_len_init_eq MAX_WINDOW_SIZE_def)
  assume "d < W"
  with assms show "ring_get W (0, rbuf_init) d = None"
    by (simp add: ring_get_def rbuf_init_def buffer_len_init_eq nth_append)
qed

section \<open>Storing\<close>

lemma mod_256_cases:
  fixes r x :: int
  assumes "0 \<le> r" "r < 256" "0 \<le> x" "x < 256"
  shows "(r - x) mod 256 = (if x \<le> r then r - x else r - x + 256)"
proof (cases "x \<le> r")
  case True
  with assms show ?thesis by (simp add: mod_pos_pos_trivial)
next
  case False
  have "(r - x) mod 256 = (r - x + 256) mod 256"
    by (rule mod_add_self2 [symmetric])
  also have "\<dots> = r - x + 256"
    using assms False by (intro mod_pos_pos_trivial) auto
  finally show ?thesis using False by simp
qed

text \<open>The condition of \<open>add_buffer\<close>, for a window of 1 to 31: the distance from the expected
  number is less than the window, but for one case where the upper end of the window is exactly
  number 256.\<close>

lemma window_condition:
  fixes r x W :: int
  assumes "0 \<le> r" "r < 256" "0 \<le> x" "x < 256" "1 \<le> W" "W \<le> 31"
  shows "((r \<le> x + W - 1 \<and> r \<ge> x) \<or> (x + W - 1 > 256 \<and> r \<le> c_rem (x + W - 1) 256)) \<longleftrightarrow>
    (r - x) mod 256 < W \<and> \<not> (x + W - 1 = 256 \<and> r = 0)"
proof -
  have d: "(r - x) mod 256 = (if x \<le> r then r - x else r - x + 256)"
    using assms by (intro mod_256_cases)
  have c: "c_rem (x + W - 1) 256 = (if x + W - 1 < 256 then x + W - 1 else x + W - 1 - 256)"
  proof (cases "x + W - 1 < 256")
    case True
    with assms show ?thesis by (simp add: c_rem_def mod_pos_pos_trivial)
  next
    case False
    have "(x + W - 1) mod 256 = (x + W - 1 - 256) mod 256"
      by (rule minus_mod_self2 [symmetric])
    also have "\<dots> = x + W - 1 - 256"
      using assms False by (intro mod_pos_pos_trivial) auto
    finally show ?thesis using assms False by (simp add: c_rem_def)
  qed
  show ?thesis
    unfolding d c using assms by auto
qed

lemma add_buffer_eq:
  assumes "ring_inv W (i, b)" "0 \<le> r" "r < 256" "0 \<le> x" "x < 256"
  shows "add_buffer i r x rcv (int W) b =
    Inr (if (r - x) mod 256 < int W \<and> \<not> (x + int W - 1 = 256 \<and> r = 0)
         then snd (ring_put W (nat ((r - x) mod 256)) (uint (pkt_get_length rcv), pkt_get_payload rcv) (i, b))
         else b)"
proof -
  have W: "0 < W" "W \<le> MAX_WINDOW_SIZE" and i: "0 \<le> i" "i < int W"
    and len: "length (buffer_len b) = MAX_WINDOW_SIZE" "length (buffer_payload b) = MAX_PAYLOAD_SIZE"
    using assms(1) by (auto simp: ring_inv_def)
  let ?d = "(r - x) mod 256"
  have d: "(if r < x then r + 256 else r) - x = ?d"
    using mod_256_cases [OF assms(2-5)] by simp
  have m: "c_mod (i + ?d) (int W) = Inr ((i + ?d) mod int W)"
    using i W by simp
  show ?thesis
    using window_condition [of r x "int W"] assms(2-5) W len ring_index_bound [OF W, of i "nat ?d"]
    by (auto simp: add_buffer_def Let_def d m ring_put_def store_slot_ok MAX_WINDOW_SIZE_def
        simp del: c_mod_ok)
qed

section \<open>Acknowledging\<close>

text \<open>No allocation and no write fails from now on.\<close>

definition env_good :: "world \<Rightarrow> bool" where
  "env_good w \<longleftrightarrow> (\<forall>k. \<not> oom w k) \<and> (\<forall>k. \<not> wfail w k)"

text \<open>The bytes of an acknowledgement that shows what \<open>a\<close> shows.\<close>

definition ack_bytes :: "crc_fun \<Rightarrow> pkt \<Rightarrow> bytes" where
  "ack_bytes crc32 a = header_bytes a @ be32 (crc_of crc32 (Some (header_bytes a)))"

text \<open>\<open>a\<close> acknowledges number \<open>n\<close>.\<close>

definition acks :: "pkt \<Rightarrow> u32 \<Rightarrow> int \<Rightarrow> int \<Rightarrow> bool" where
  "acks a ty window n \<longleftrightarrow> pkt_get_type a = ty \<and> pkt_get_tr a = 0 \<and> LENGTH_f a = 0 \<and>
     pkt_get_window a = word_of_int window \<and> pkt_get_seqnum a = word_of_int n"

lemma payload_is_Nil [simp]: "payload_is p w [] \<longleftrightarrow> TR p = 0 \<and> LENGTH_f p = 0"
  by (simp add: payload_is_def)

lemma send_ack_eq:
  assumes "TR ack0 = 0" "\<not> oom w (nalloc w)" "live w (PAYLOAD ack0)" "0 \<le> window" "window \<le> 31"
    and "ty = PTYPE_ACK \<or> ty = PTYPE_NACK"
  defines "w1 \<equiv> stored (released w (PAYLOAD ack0)) []"
  shows "\<exists>a. acks a ty window (seqnum + 1) \<and> pkt_get_timestamp a = stamp w \<and>
    TR a = 0 \<and> PAYLOAD a = Some (nalloc w) \<and>
    send_ack crc32 ack0 seqnum ty time_data window w =
      (case do_write Sent (ack_bytes crc32 a) (snd (gettimeofday w1)) of
         (r, w3) \<Rightarrow> Inr (if r < 0 then -1 else 0, a, w3))"
proof -
  let ?p4 = "ack0\<lparr>SEQNUM := word_of_int (seqnum + 1), TYPE_f := ucast ty, TIMESTAMP := time_data,
     WINDOW := ucast (word_of_int window :: u8)\<rparr>"
  let ?p5 = "?p4\<lparr>LENGTH_f := 0, PAYLOAD := Some (nalloc w)\<rparr>"
  let ?a = "encoded crc32 ?p5 [] w1"
  let ?buf = "map (junk w1 (nalloc w1)) [0..<20]"
  have win: "unat (word_of_int window :: u8) \<le> 31"
    using assms(4,5) by (simp add: unat_eq_nat_uint uint_word_of_int)
  have ty: "(if ty = PTYPE_ACK then pkt_set_type p PTYPE_ACK
      else if ty = PTYPE_NACK then pkt_set_type p PTYPE_NACK else (st, p)) =
      (PKT_OK, p\<lparr>TYPE_f := ucast ty\<rparr>)" for p st
    using assms(6) by (auto simp: pkt_set_type_def)
  have wd: "pkt_set_window p (word_of_int window) =
      (PKT_OK, p\<lparr>WINDOW := ucast (word_of_int window :: u8)\<rparr>)" for p
    using win by (simp add: pkt_set_window_def MAX_WINDOW_SIZE_def)
  have sp: "pkt_set_payload ?p4 None 0 w = Inr (PKT_OK, ?p5, w1)"
    using set_payload_null [of w ?p4] assms(2,3) by (simp add: w1_def)
  have pl: "payload_is ?p5 w1 []"
    using assms(1) by simp
  have enc: "pkt_encode crc32 ?p5 ?buf 20 w1 =
      Inr (PKT_OK, 12, packet_image crc32 (header_bytes (?p5\<lparr>TIMESTAMP := stamp w1\<rparr>)) [] @ drop 16 ?buf,
        ?a, snd (gettimeofday w1))"
    using encode_ok [OF pl, of ?buf crc32 20] by (simp add: wire_len_def)
  have rd: "arr_read (packet_image crc32 (header_bytes (?p5\<lparr>TIMESTAMP := stamp w1\<rparr>)) [] @ drop 16 ?buf) 0 12 =
      Inr (ack_bytes crc32 ?a)"
    by (simp add: arr_read_def packet_image_def ack_bytes_def header_encoded)
  have st: "stamp w1 = stamp w"
    by (simp add: stamp_def w1_def)
  have ack: "acks ?a ty window (seqnum + 1)" "pkt_get_timestamp ?a = stamp w" "TR ?a = 0"
    "PAYLOAD ?a = Some (nalloc w)"
    using assms(1,6) win
    by (auto simp: acks_def encoded_def Let_def getter_defs st ucast_window_id)
  have "send_ack crc32 ack0 seqnum ty time_data window w =
      (case do_write Sent (ack_bytes crc32 ?a) (snd (gettimeofday w1)) of
         (r, w3) \<Rightarrow> Inr (if r < 0 then -1 else 0, ?a, w3))"
    unfolding send_ack_def Let_def pkt_set_seqnum_def prod.case ty pkt_set_timestamp_def wd
    by (simp only: sp enc rd simp_thms if_False not_True_eq_False andthen_Inr prod.case)
  with ack show ?thesis by blast
qed

text \<open>In a world where nothing fails.\<close>

definition acked :: "world \<Rightarrow> ptr \<Rightarrow> bytes \<Rightarrow> world" where
  "acked w p bs = snd (do_write Sent bs (snd (gettimeofday (stored (released w p) []))))"

lemma acked_sel [simp]:
  "mem (acked w p bs) = (mem (released w p))(nalloc w \<mapsto> [])" "nalloc (acked w p bs) = Suc (nalloc w)"
  "oom (acked w p bs) = oom w" "wfail (acked w p bs) = wfail w"
  by (simp_all add: acked_def do_write_def Let_def)

lemma obslog_acked [simp]: "env_good w \<Longrightarrow> obslog (acked w p bs) = obslog w @ [Sent bs]"
  by (simp add: acked_def do_write_def Let_def env_good_def)

lemma send_ack_good:
  assumes "TR ack0 = 0" "env_good w" "live w (PAYLOAD ack0)" "0 \<le> window" "window \<le> 31"
    and "ty = PTYPE_ACK \<or> ty = PTYPE_NACK"
  shows "\<exists>a. acks a ty window (seqnum + 1) \<and> TR a = 0 \<and> PAYLOAD a = Some (nalloc w) \<and>
    send_ack crc32 ack0 seqnum ty time_data window w =
      Inr (0, a, acked w (PAYLOAD ack0) (ack_bytes crc32 a))"
proof -
  have "\<not> oom w (nalloc w)" using assms(2) by (simp add: env_good_def)
  from send_ack_eq [OF assms(1) this assms(3-6), of seqnum crc32 time_data] assms(2) show ?thesis
    by (force simp: acked_def do_write_def Let_def env_good_def)
qed

end
