(* ===== verification/Receiver_Run.thy ===== *)
theory Receiver_Run
  imports Receiver_Laws "HOL-Library.Sublist"
begin

text \<open>
  Runs of the receive loop. \<open>rinv\<close> is its invariant, with the number \<open>e\<close> of chunks delivered as
  a ghost value; one lemma per kind of event shows that the round ends without undefined
  behaviour and keeps the invariant. \<open>arrival\<close> is what is assumed of the network: a datagram is
  a data packet of the transfer (lost, repeated and reordered within the limits of the 8 bit
  sequence number), the end packet, or one that \<open>pkt_decode\<close> refuses.
\<close>

section \<open>What was written\<close>

fun file_of :: "obs list \<Rightarrow> bytes" where
  "file_of [] = []"
| "file_of (Wrote bs # xs) = bs @ file_of xs"
| "file_of (Sent bs # xs) = file_of xs"

fun sent_of :: "obs list \<Rightarrow> bytes list" where
  "sent_of [] = []"
| "sent_of (Wrote bs # xs) = sent_of xs"
| "sent_of (Sent bs # xs) = bs # sent_of xs"

fun writes_of :: "obs list \<Rightarrow> nat" where
  "writes_of [] = 0"
| "writes_of (Wrote bs # xs) = Suc (writes_of xs)"
| "writes_of (Sent bs # xs) = writes_of xs"

lemma log_append [simp]:
  "file_of (xs @ ys) = file_of xs @ file_of ys"
  "sent_of (xs @ ys) = sent_of xs @ sent_of ys"
  "writes_of (xs @ ys) = writes_of xs + writes_of ys"
  by (induction xs rule: file_of.induct) simp_all

lemma log_Wrote [simp]:
  "file_of (map Wrote bss) = concat bss" "sent_of (map Wrote bss) = []"
  "writes_of (map Wrote bss) = length bss"
  by (induction bss) simp_all

lemma log_Wrote_map [simp]:
  "file_of (map (Wrote \<circ> f) ns) = concat (map f ns)" "sent_of (map (Wrote \<circ> f) ns) = []"
  "writes_of (map (Wrote \<circ> f) ns) = length ns"
  by (induction ns) simp_all

section \<open>The invariant\<close>

text \<open>The slot of chunk \<open>n\<close>: a chunk of the transfer, in a block that is not the one the
  acknowledgement packet owns.\<close>

definition slot_in :: "(nat \<Rightarrow> bytes) \<Rightarrow> nat \<Rightarrow> world \<Rightarrow> ptr \<Rightarrow> nat \<Rightarrow> int \<times> ptr \<Rightarrow> bool" where
  "slot_in D N w ack n v \<longleftrightarrow> n < N \<and> slot_ok D w n v \<and> snd v \<noteq> ack"

definition rinv :: "(nat \<Rightarrow> bytes) \<Rightarrow> nat \<Rightarrow> nat \<Rightarrow> nat \<Rightarrow> rstate \<Rightarrow> world \<Rightarrow> bool" where
  "rinv D N W e s w \<longleftrightarrow>
     e \<le> N \<and> ring_inv W (r_index s, r_buf s) \<and> r_seq_exp s = int (e mod 256) \<and>
     agrees (ring_get W) W (slot_in D N w (PAYLOAD (r_pkt_ack s))) e (r_index s, r_buf s) \<and>
     ring_get W (r_index s, r_buf s) 0 = None \<and>
     heap_ok w \<and> env_good w \<and> live w (PAYLOAD (r_pkt_rcv s)) \<and> live w (PAYLOAD (r_pkt_ack s)) \<and>
     (PAYLOAD (r_pkt_rcv s) = None \<or> PAYLOAD (r_pkt_rcv s) \<noteq> PAYLOAD (r_pkt_ack s)) \<and>
     TR (r_pkt_ack s) = 0 \<and> length (r_packet s) = 528 \<and>
     file_of (obslog w) = concat (map D [0..<e]) \<and> writes_of (obslog w) = e"

lemma env_good_frame [simp]:
  "env_good (stored w bs) = env_good w" "env_good (released w p) = env_good w"
  "env_good (written w bss) = env_good w" "env_good (acked w p bs) = env_good w"
  "env_good (snd (gettimeofday w)) = env_good w"
  by (simp_all add: env_good_def)

lemma heap_ok_written [simp]: "heap_ok (written w bss) = heap_ok w"
  by (simp add: heap_ok_def)

lemma heap_ok_acked: "heap_ok w \<Longrightarrow> heap_ok (acked w p bs)"
  using heap_ok_stored [OF heap_ok_released, of w p "[]"] by (simp add: heap_ok_def)

lemma live_written [simp]: "live (written w bss) = live w"
  by (intro ext) (simp add: live_def split: option.splits)

lemma live_nalloc: "heap_ok w \<Longrightarrow> live w (Some a) \<Longrightarrow> a < nalloc w"
  by (metis heap_ok_def live_Some not_le)

text \<open>Sending an acknowledgement replaces the block of the acknowledgement packet and nothing
  else.\<close>

lemma acked_other:
  assumes "heap_ok w" "mem w a = Some bs" "Some a \<noteq> p"
  shows "mem (acked w p xs) a = Some bs"
proof -
  have "a \<noteq> nalloc w" using assms heap_ok_nalloc by fastforce
  with assms show ?thesis by (auto simp: released_def split: option.splits)
qed

lemma slot_in_acked:
  assumes "slot_in D N w p n v" "heap_ok w"
  shows "slot_in D N (acked w p xs) (Some (nalloc w)) n v"
proof -
  obtain a where a: "snd v = Some a" "mem w a = Some (D n)"
    using assms(1) by (auto simp: slot_in_def slot_ok_def)
  then have "a \<noteq> nalloc w" using assms(2) heap_ok_nalloc by fastforce
  with a assms acked_other [OF assms(2) a(2), of p xs] show ?thesis
    by (auto simp: slot_in_def slot_ok_def)
qed

lemma live_acked:
  assumes "heap_ok w" "live w q" "q = None \<or> q \<noteq> p"
  shows "live (acked w p xs) q \<and> (q = None \<or> q \<noteq> Some (nalloc w))"
proof (cases q)
  case (Some a)
  with assms acked_other [OF assms(1), of a _ p xs] live_nalloc [OF assms(1), of a] show ?thesis
    by (auto simp del: acked_sel)
qed simp

section \<open>The network\<close>

text \<open>\<open>p\<close> is the header of the data packet that carries chunk \<open>n\<close>.\<close>

definition data_header :: "(nat \<Rightarrow> bytes) \<Rightarrow> nat \<Rightarrow> pkt \<Rightarrow> bool" where
  "data_header D n p \<longleftrightarrow> shown p (D n) \<and> D n \<noteq> [] \<and> TYPE_f p = 1 \<and> SEQNUM p = of_nat n"

definition data_event :: "crc_fun \<Rightarrow> (nat \<Rightarrow> bytes) \<Rightarrow> nat \<Rightarrow> r_event \<Rightarrow> bool" where
  "data_event crc32 D n ev \<longleftrightarrow> (\<exists>p. data_header D n p \<and>
     ev = R_ready (RdBytes (packet_image crc32 (header_bytes p) (D n))))"

text \<open>The end packet: a data packet without payload. The code does not look at its sequence
  number. \<open>pkt_encode\<close> announces 12 bytes for it.\<close>

definition end_event :: "crc_fun \<Rightarrow> r_event \<Rightarrow> bool" where
  "end_event crc32 ev \<longleftrightarrow> (\<exists>p. shown p [] \<and> TYPE_f p = 1 \<and>
     ev = R_ready (RdBytes (take 12 (packet_image crc32 (header_bytes p) []))))"

text \<open>A datagram that is no data packet of the transfer, given what the buffer held before:
  \<open>pkt_decode\<close> refuses it, or it is of another type. One that \<open>pkt_decode\<close> accepts with the
  truncation bit set and a payload length is not harmless: decoding releases a payload.\<close>

definition harmless :: "crc_fun \<Rightarrow> bytes \<Rightarrow> r_event \<Rightarrow> bool" where
  "harmless crc32 buf ev \<longleftrightarrow> (case ev of
     R_idle \<Rightarrow> True
   | R_ready RdErr \<Rightarrow> False
   | R_ready (RdBytes bs) \<Rightarrow>
       (let dg = take 528 bs; data = put_at 0 dg buf; st = decode_verdict crc32 data (length dg) in
        st \<noteq> PKT_OK \<or>
        (ucast (drop_bit 6 (hd data)) :: 2 word) \<noteq> 1 \<and> \<not> (wire_tr data \<and> wire_length data \<noteq> 0)))"

section \<open>The abstract receiver\<close>

text \<open>The specification of the reordering: the state is the number of chunks delivered and the
  set of the chunks held back. A data packet is put aside when it lies in the window, and the
  longest contiguous run is delivered. The exception in \<open>takes\<close> is the code's: with
  \<open>seq_exp + window - 1\<close> equal to 256 the packet with number 0 is left out.\<close>

definition takes :: "nat \<Rightarrow> nat \<Rightarrow> nat \<Rightarrow> bool" where
  "takes W e n \<longleftrightarrow> e \<le> n \<and> n < e + W \<and> \<not> (e mod 256 + W = 257 \<and> n mod 256 = 0)"

definition spec_data :: "nat \<Rightarrow> nat \<times> nat set \<Rightarrow> nat \<Rightarrow> nat \<times> nat set" where
  "spec_data W st n = (case st of (e, B) \<Rightarrow>
     (let B' = (if takes W e n then insert n B else B);
          e' = e + length (takeWhile (\<lambda>m. m \<in> B') [e..<e + W]) in
      (e', B' - {..<e'})))"

text \<open>The chunks the buffer of the code holds.\<close>

definition held :: "nat \<Rightarrow> nat \<Rightarrow> int \<Rightarrow> rbuf \<Rightarrow> nat set" where
  "held W e i b = {n. e \<le> n \<and> n < e + W \<and> ring_get W (i, b) (n - e) \<noteq> None}"

lemma takeWhile_run:
  assumes "\<And>d. d < k \<Longrightarrow> P (e + d)" "k < W \<longrightarrow> \<not> P (e + k)" "k \<le> W"
  shows "length (takeWhile P [e..<e + W]) = k"
proof -
  have split: "[e..<e + W] = [e..<e + k] @ [e + k..<e + W]"
    using assms(3) by (metis le_add1 le_add_diff_inverse nat_add_left_cancel_le upt_add_eq_append)
  have "P x" if "x \<in> set [e..<e + k]" for x
    using that assms(1) by (auto simp: le_iff_add)
  then have "takeWhile P ([e..<e + k] @ [e + k..<e + W]) = [e..<e + k] @ takeWhile P [e + k..<e + W]"
    by (rule takeWhile_append2)
  moreover have "takeWhile P [e + k..<e + W] = []"
    using assms(2,3) by (cases "k < W") (simp_all add: upt_conv_Cons)
  ultimately show ?thesis
    by (simp add: split)
qed

lemma spec_data_run:
  assumes "\<And>d. d < k \<Longrightarrow> d < W \<and> ring_get W (i, b) d \<noteq> None"
    and "ring_get W (i', b') 0 = None" "0 < W"
    and "\<And>d. d < W \<Longrightarrow> ring_get W (i', b') d = (if d + k < W then ring_get W (i, b) (d + k) else None)"
    and "held W e i b = (if takes W e n then insert n B else B)"
  shows "spec_data W (e, B) n = (e + k, held W (e + k) i' b')"
proof -
  have k: "k \<le> W" using assms(1) [of W] by (metis less_irrefl not_le)
  have "length (takeWhile (\<lambda>m. m \<in> held W e i b) [e..<e + W]) = k"
    using assms(1,2) assms(4) [of 0] assms(3) k by (intro takeWhile_run) (auto simp: held_def)
  moreover have "held W e i b - {..<e + k} = held W (e + k) i' b'"
  proof (intro set_eqI iffI)
    fix m assume m: "m \<in> held W e i b - {..<e + k}"
    then have "m - (e + k) + k = m - e" "m - e < W" by (auto simp: held_def)
    with m assms(4) [of "m - (e + k)"] show "m \<in> held W (e + k) i' b'" by (auto simp: held_def)
  next
    fix m assume m: "m \<in> held W (e + k) i' b'"
    then have d: "e + k \<le> m" "m - (e + k) < W" "ring_get W (i', b') (m - (e + k)) \<noteq> None"
      by (auto simp: held_def)
    then have "m - (e + k) + k = m - e" by simp
    with d assms(4) [of "m - (e + k)"] show "m \<in> held W e i b - {..<e + k}"
      by (auto simp: held_def split: if_splits)
  qed
  ultimately show ?thesis
    by (simp add: spec_data_def Let_def assms(5) [symmetric])
qed

section \<open>A data packet\<close>

lemma data_header_received:
  assumes "data_header D n p"
  defines "r crc32 q w \<equiv> received crc32 p (D n) q w"
  shows "pkt_get_type (r crc32 q w) = PTYPE_DATA" "pkt_get_tr (r crc32 q w) \<noteq> 1"
    "uint (pkt_get_seqnum (r crc32 q w)) = int (n mod 256)"
    "uint (pkt_get_length (r crc32 q w)) = int (length (D n))" "length (D n) \<le> 512" "D n \<noteq> []"
    "pkt_get_payload (r crc32 q w) = Some (nalloc w)" "PAYLOAD (r crc32 q w) = Some (nalloc w)"
proof -
  have sh: "shown p (D n)" "D n \<noteq> []" "TYPE_f p = 1" "SEQNUM p = of_nat n" "TR p = 0"
    using assms(1) by (auto simp: data_header_def shown_def)
  show 512: "length (D n) \<le> 512" and "D n \<noteq> []"
    using sh by (auto simp: shown_def MAX_PAYLOAD_SIZE_def)
  show "pkt_get_type (r crc32 q w) = PTYPE_DATA" "pkt_get_tr (r crc32 q w) \<noteq> 1"
    "uint (pkt_get_seqnum (r crc32 q w)) = int (n mod 256)"
    unfolding r_def using received_getters [OF sh(1)] sh
    by (simp_all add: pkt_get_type_def pkt_get_tr_def pkt_get_seqnum_def uint_nat unat_of_nat)
  have pl: "payload_is (r crc32 q w) (stored w (D n)) (D n)"
    unfolding r_def by (rule received_payload [OF sh(1,2)])
  show "uint (pkt_get_length (r crc32 q w)) = int (length (D n))"
    using payload_is_length [OF pl] by (simp add: uint_nat)
  show "PAYLOAD (r crc32 q w) = Some (nalloc w)"
    using sh by (simp add: r_def received_def Let_def)
  then show "pkt_get_payload (r crc32 q w) = Some (nalloc w)"
    using payload_is_payload [OF pl] sh by simp
qed

text \<open>Storing the received payload at its distance from the expected chunk.\<close>

lemma mod_distance:
  assumes "e \<le> n + (256 - W)" "n < e + 256" "W \<le> 31" "(int (n mod 256) - int (e mod 256)) mod 256 < int W"
  shows "e \<le> n \<and> n - e < W \<and> nat ((int (n mod 256) - int (e mod 256)) mod 256) = n - e"
proof -
  let ?d = "(int (n mod 256) - int (e mod 256)) mod 256"
  have d: "?d = (int n - int e) mod 256"
    by (simp add: zmod_int mod_simps)
  have le: "e \<le> n"
  proof (rule ccontr)
    assume "\<not> e \<le> n"
    then have "(int n - int e + 256) mod 256 = int n - int e + 256"
      using assms(1,3) by (intro mod_pos_pos_trivial) auto
    then have "?d = int n - int e + 256"
      unfolding d by (metis mod_add_self2)
    with assms show False by linarith
  qed
  have "?d = int n - int e"
    unfolding d using le assms(2) by (intro mod_pos_pos_trivial) auto
  then have dd: "?d = int (n - e)" using le by simp
  show ?thesis using le assms(4) unfolding dd nat_int of_nat_less_iff by blast
qed

lemma add_buffer_data:
  assumes "ring_inv W (i, b)" "agrees (ring_get W) W (slot_in D N w ack) e (i, b)"
    and "e \<le> n + (256 - W)" "n < e + 256" "n < N" "mem w a = Some (D n)" "Some a \<noteq> ack"
    and "uint (pkt_get_length rcv) = int (length (D n))" "pkt_get_payload rcv = Some a"
  shows "\<exists>b'. add_buffer i (int (n mod 256)) (int (e mod 256)) rcv (int W) b = Inr b' \<and>
    ring_inv W (i, b') \<and> agrees (ring_get W) W (slot_in D N w ack) e (i, b') \<and>
    held W e i b' = (if takes W e n then insert n (held W e i b) else held W e i b)"
proof -
  let ?r = "int (n mod 256)" and ?x = "int (e mod 256)"
  let ?v = "(uint (pkt_get_length rcv), pkt_get_payload rcv)"
  let ?take = "(?r - ?x) mod 256 < int W \<and> \<not> (?x + int W - 1 = 256 \<and> ?r = 0)"
  have W: "0 < W" "W \<le> 31" using assms(1) by (auto simp: ring_inv_def MAX_WINDOW_SIZE_def)
  have ab: "add_buffer i ?r ?x rcv (int W) b =
      Inr (if ?take then snd (ring_put W (nat ((?r - ?x) mod 256)) ?v (i, b)) else b)"
    using assms(1) by (intro add_buffer_eq) auto
  have takes: "?take \<longleftrightarrow> takes W e n"
  proof
    assume t: ?take
    with mod_distance [OF assms(3,4) W(2)] have "e \<le> n" "n < e + W" by linarith+
    with t show "takes W e n" by (auto simp: takes_def)
  next
    assume t: "takes W e n"
    then have "(?r - ?x) mod 256 = int n - int e"
      using W(2) unfolding zmod_int mod_diff_eq of_nat_numeral
      by (intro mod_pos_pos_trivial) (auto simp: takes_def)
    with t show ?take by (auto simp: takes_def)
  qed
  show ?thesis
  proof (cases ?take)
    case False
    then show ?thesis using ab takes assms(1,2) by auto
  next
    case True
    then have d: "e \<le> n" "nat ((?r - ?x) mod 256) = n - e" "n - e < W"
      using mod_distance [OF assms(3,4) W(2)] by auto
    have v: "slot_in D N w ack (e + (n - e)) ?v" "fst ?v \<noteq> -1"
      using assms(5-9) d(1) by (auto simp: slot_in_def slot_ok_def)
    obtain b' where b': "ring_put W (n - e) ?v (i, b) = (i, b')"
      by (simp add: ring_put_def)
    have "add_buffer i ?r ?x rcv (int W) b = Inr b'"
      using ab True by (simp add: d(2) b')
    moreover have "ring_inv W (i, b')"
      using ring.inv_put [OF assms(1) d(3), of ?v] by (simp add: b')
    moreover have "agrees (ring_get W) W (slot_in D N w ack) e (i, b')"
      using ring.agrees_put [OF assms(1) d(3) v(2) assms(2) v(1)] by (simp add: b')
    moreover have "held W e i b' = insert n (held W e i b)"
    proof -
      have "ring_get W (i, b') d' = (if d' = n - e then Some ?v else ring_get W (i, b) d')" if "d' < W" for d'
        using ring.get_put [OF assms(1) d(3) that v(2)] by (simp add: b')
      then show ?thesis
        using d(1,3) unfolding held_def by (auto simp: less_diff_conv2 split: if_splits)
    qed
    ultimately show ?thesis using True takes by auto
  qed
qed

text \<open>The datagram lies at the start of the buffer.\<close>

lemma arr_write_datagram:
  "length buf = 528 \<Longrightarrow> length bs \<le> 528 \<Longrightarrow>
     arr_write buf 0 bs = Inr (bs @ drop (length bs) buf) \<and> length (bs @ drop (length bs) buf) = 528"
  by (simp add: arr_write_def put_at_0)

lemma receive_step_datagram:
  assumes "length (r_packet s) = 528" "bs \<noteq> []" "length bs \<le> 528"
  shows "receive_step crc32 window (R_ready (RdBytes bs)) s w =
    andthen (handle_datagram crc32 window (length bs) (s\<lparr>r_packet := bs @ drop (length bs) (r_packet s)\<rparr>) w)
      (\<lambda>(s', w'). Inr (Running s', w'))"
  using assms arr_write_datagram [OF assms(1,3)] by (simp add: receive_step_def Let_def)

lemma rinvD:
  assumes "rinv D N W e s w"
  shows "e \<le> N" "ring_inv W (r_index s, r_buf s)" "r_seq_exp s = int (e mod 256)"
    "agrees (ring_get W) W (slot_in D N w (PAYLOAD (r_pkt_ack s))) e (r_index s, r_buf s)"
    "ring_get W (r_index s, r_buf s) 0 = None" "heap_ok w" "env_good w" "\<not> oom w k" "\<not> wfail w k"
    "live w (PAYLOAD (r_pkt_rcv s))" "live w (PAYLOAD (r_pkt_ack s))"
    "PAYLOAD (r_pkt_rcv s) = None \<or> PAYLOAD (r_pkt_rcv s) \<noteq> PAYLOAD (r_pkt_ack s)"
    "TR (r_pkt_ack s) = 0" "length (r_packet s) = 528"
    "file_of (obslog w) = concat (map D [0..<e])" "writes_of (obslog w) = e" "W \<le> 31" "0 < W"
  using assms by (auto simp: rinv_def env_good_def ring_inv_def MAX_WINDOW_SIZE_def)

lemma slot_in_stored:
  assumes "heap_ok w" "slot_in D N w ack n v"
  shows "slot_in D N (stored w bs) ack n v"
  using assms slot_ok_keeps [OF _ keeps_stored] by (auto simp: slot_in_def)

lemma slot_in_written [simp]: "slot_in D N (written w bss) = slot_in D N w"
  by (simp add: slot_in_def slot_ok_def fun_eq_iff)

text \<open>The part of \<open>handle_datagram\<close> from \<open>add_buffer\<close> on: what has become contiguous is
  written, then the number that is expected next is acknowledged.\<close>

lemma deliver_step:
  assumes "ring_inv W (i, b)" "agrees (ring_get W) W (slot_in D N w (PAYLOAD ack0)) e (i, b)"
    and "heap_ok w" "env_good w" "live w (PAYLOAD ack0)" "TR ack0 = 0" "e \<le> N"
    and "file_of (obslog w) = concat (map D [0..<e])" "writes_of (obslog w) = e"
  shows "\<exists>k i' b' a. e + k \<le> N \<and>
    (\<forall>B n. held W e i b = (if takes W e n then insert n B else B) \<longrightarrow>
       spec_data W (e, B) n = (e + k, held W (e + k) i' b')) \<and>
    drain (int W) i (int (e mod 256)) b w =
      Inr (i', int ((e + k) mod 256), b', written w (map D [e..<e + k])) \<and>
    send_ack crc32 ack0 (int ((e + k) mod 256) - 1) PTYPE_ACK td (int W) (written w (map D [e..<e + k])) =
      Inr (0, a, acked (written w (map D [e..<e + k])) (PAYLOAD ack0) (ack_bytes crc32 a)) \<and>
    acks a PTYPE_ACK (int W) (int ((e + k) mod 256)) \<and> TR a = 0 \<and> PAYLOAD a = Some (nalloc w) \<and>
    ring_inv W (i', b') \<and> ring_get W (i', b') 0 = None \<and>
    agrees (ring_get W) W (slot_in D N (acked (written w (map D [e..<e + k])) (PAYLOAD ack0)
      (ack_bytes crc32 a)) (PAYLOAD a)) (e + k) (i', b')"
proof -
  have W: "0 < W" "W \<le> 31" using assms(1) by (auto simp: ring_inv_def MAX_WINDOW_SIZE_def)
  have ag: "agrees (ring_get W) W (slot_ok D w) e (i, b)"
    using assms(2) by (rule agrees_mono) (simp add: slot_in_def)
  have "\<forall>k. \<not> wfail w k" using assms(4) by (simp add: env_good_def)
  from drain_contiguous [OF assms(1) ag this] obtain k i' b' where
    dr: "drain (int W) i (int (e mod 256)) b w =
      Inr (i', int ((e + k) mod 256), b', written w (map D [e..<e + k]))"
    and pops: "(i', b') = (ring_pop W ^^ k) (i, b)" and empty: "ring_get W (i', b') 0 = None"
    and full: "\<forall>d<k. d < W \<and> ring_get W (i, b) d \<noteq> None"
    by blast
  let ?w = "written w (map D [e..<e + k])"
  have "e + k \<le> N"
  proof (cases k)
    case 0
    with assms(7) show ?thesis by simp
  next
    case (Suc k')
    with full obtain v where "k' < W" "ring_get W (i, b) k' = Some v" by auto
    from agreesD [OF assms(2) this] Suc show ?thesis by (simp add: slot_in_def)
  qed
  moreover have "\<forall>B n. held W e i b = (if takes W e n then insert n B else B) \<longrightarrow>
       spec_data W (e, B) n = (e + k, held W (e + k) i' b')"
    using full empty W(1) ring.get_pops [OF assms(1)]
    by (intro allI impI spec_data_run) (auto simp: pops)
  moreover from send_ack_good [of ack0 ?w "int W" PTYPE_ACK "int ((e + k) mod 256) - 1" crc32 td]
  obtain a where a: "acks a PTYPE_ACK (int W) (int ((e + k) mod 256))" "TR a = 0" "PAYLOAD a = Some (nalloc w)"
    and sa: "send_ack crc32 ack0 (int ((e + k) mod 256) - 1) PTYPE_ACK td (int W) ?w =
      Inr (0, a, acked ?w (PAYLOAD ack0) (ack_bytes crc32 a))"
    using assms(4-6) W by auto
  moreover have "ring_inv W (i', b')"
    using ring.inv_pops [OF assms(1)] by (simp only: pops)
  moreover have "agrees (ring_get W) W (slot_in D N (acked ?w (PAYLOAD ack0) (ack_bytes crc32 a)) (PAYLOAD a))
      (e + k) (i', b')"
  proof (rule agrees_mono)
    show "agrees (ring_get W) W (slot_in D N w (PAYLOAD ack0)) (e + k) (i', b')"
      using ring.agrees_pops [OF assms(1,2)] by (simp only: pops)
    show "slot_in D N (acked ?w (PAYLOAD ack0) (ack_bytes crc32 a)) (PAYLOAD a) (e + k + d) v"
      if "slot_in D N w (PAYLOAD ack0) (e + k + d) v" for d v
      using slot_in_acked [of D N ?w "PAYLOAD ack0" "e + k + d" v "ack_bytes crc32 a"] that assms(3)
      by (simp add: a(3))
  qed
  ultimately show ?thesis using dr empty by blast
qed

lemma handle_data:
  assumes "pkt_decode crc32 (r_packet s) len (r_pkt_rcv s) w = Inr (PKT_OK, rcv, w1)"
    and "pkt_get_type rcv = PTYPE_DATA" "pkt_get_tr rcv \<noteq> 1" "uint (pkt_get_length rcv) \<noteq> 0"
    and "add_buffer (r_index s) (uint (pkt_get_seqnum rcv)) (r_seq_exp s) rcv window (r_buf s) = Inr b"
    and "drain window (r_index s) (r_seq_exp s) b w1 = Inr (i', x', b', w2)"
    and "send_ack crc32 (r_pkt_ack s) (x' - 1) PTYPE_ACK (pkt_get_timestamp rcv) window w2 = Inr (st, a, w3)"
  shows "handle_datagram crc32 window len s w =
    Inr (s\<lparr>r_pkt_rcv := rcv, r_index := i', r_seq_exp := x', r_buf := b', r_pkt_ack := a\<rparr>, w3)"
  unfolding handle_datagram_def assms(1) using assms(2-7) by (simp add: Let_def)

lemma handle_end:
  assumes "pkt_decode crc32 (r_packet s) len (r_pkt_rcv s) w = Inr (PKT_OK, rcv, w1)"
    and "pkt_get_type rcv = PTYPE_DATA" "pkt_get_tr rcv \<noteq> 1" "uint (pkt_get_length rcv) = 0"
  shows "handle_datagram crc32 window len s w = Inr (s\<lparr>r_pkt_rcv := rcv, r_end_file := True\<rparr>, w1)"
  unfolding handle_datagram_def assms(1) using assms(2-4) by (simp add: Let_def)

lemma handle_other:
  assumes "pkt_decode crc32 (r_packet s) len (r_pkt_rcv s) w = Inr (st, rcv, w1)"
    and "\<not> (st = PKT_OK \<and> pkt_get_type rcv = PTYPE_DATA)"
  shows "handle_datagram crc32 window len s w = Inr (s\<lparr>r_pkt_rcv := rcv\<rparr>, w1)"
  unfolding handle_datagram_def assms(1) using assms(2) by (auto simp: Let_def)

lemma data_step:
  assumes inv: "rinv D N W e s w"
    and ev: "data_event crc32 D n ev" "n < N" "e \<le> n + (256 - W)" "n < e + 256"
  shows "\<exists>s' w' e' a. receive_step crc32 (int W) ev s w = Inr (Running s', w') \<and>
    rinv D N W e' s' w' \<and> e \<le> e' \<and> r_end_file s' = r_end_file s \<and>
    spec_data W (e, held W e (r_index s) (r_buf s)) n = (e', held W e' (r_index s') (r_buf s')) \<and>
    acks a PTYPE_ACK (int W) (int (e' mod 256)) \<and>
    obslog w' = obslog w @ map Wrote (map D [e..<e']) @ [Sent (ack_bytes crc32 a)]"
proof -
  note I = rinvD [OF inv]
  obtain p where p: "data_header D n p" and
    evp: "ev = R_ready (RdBytes (packet_image crc32 (header_bytes p) (D n)))"
    using ev(1) by (auto simp: data_event_def)
  let ?im = "packet_image crc32 (header_bytes p) (D n)"
  let ?rest = "drop (length ?im) (r_packet s)"
  let ?s = "s\<lparr>r_packet := ?im @ ?rest\<rparr>"
  let ?rcv = "received crc32 p (D n) (r_pkt_rcv s) w"
  let ?w = "stored w (D n)"
  let ?ack = "PAYLOAD (r_pkt_ack s)"
  note R = data_header_received(1-4) [OF p, of crc32 "r_pkt_rcv s" w] data_header_received(5,6) [OF p]
    data_header_received(7,8) [OF p, of crc32 "r_pkt_rcv s" w]
  have lim: "length ?im = 16 + length (D n)" by simp
  then have "0 < length ?im" by linarith
  then have len: "?im \<noteq> []" "length ?im \<le> 528" "4 \<le> length ?im" "length (?im @ ?rest) = 528"
    unfolding length_greater_0_conv using lim R(5) I(14) by (simp_all add: lim del: length_packet_image)
  have dec: "pkt_decode crc32 (?im @ ?rest) (length ?im) (r_pkt_rcv s) w = Inr (PKT_OK, ?rcv, ?w)"
    using decode_eq [of "?im @ ?rest" w "r_pkt_rcv s" crc32 "length ?im"] len(4) I(8,10) p R(6)
      decode_image [OF _ len(3), of p "D n" crc32 ?rest "r_pkt_rcv s" w]
    by (simp add: data_header_def)
  have fresh: "Some (nalloc w) \<noteq> ?ack"
    using live_nalloc [OF I(6), of "nalloc w"] I(11) by (metis less_irrefl)
  have heap: "heap_ok ?w" "env_good ?w" "live ?w ?ack"
    using heap_ok_stored [OF I(6)] I(7) keeps_live [OF keeps_stored [OF I(6)] I(11)] by simp_all
  have ag: "agrees (ring_get W) W (slot_in D N ?w ?ack) e (r_index s, r_buf s)"
    using I(4) by (rule agrees_mono) (rule slot_in_stored [OF I(6)])
  have mem: "mem ?w (nalloc w) = Some (D n)" by simp
  obtain b where b: "add_buffer (r_index s) (int (n mod 256)) (int (e mod 256)) ?rcv (int W) (r_buf s) = Inr b"
    "ring_inv W (r_index s, b)" "agrees (ring_get W) W (slot_in D N ?w ?ack) e (r_index s, b)"
    "held W e (r_index s) b =
      (if takes W e n then insert n (held W e (r_index s) (r_buf s)) else held W e (r_index s) (r_buf s))"
    using add_buffer_data [OF I(2) ag ev(3,4,2) mem fresh R(4,7)] by blast
  have log: "file_of (obslog ?w) = concat (map D [0..<e])" "writes_of (obslog ?w) = e"
    using I(15,16) by simp_all
  obtain k i' b' a where
    k: "e + k \<le> N" "\<forall>B n. held W e (r_index s) b = (if takes W e n then insert n B else B) \<longrightarrow>
       spec_data W (e, B) n = (e + k, held W (e + k) i' b')"
    and dr: "drain (int W) (r_index s) (int (e mod 256)) b ?w =
      Inr (i', int ((e + k) mod 256), b', written ?w (map D [e..<e + k]))"
    and sa: "send_ack crc32 (r_pkt_ack s) (int ((e + k) mod 256) - 1) PTYPE_ACK (pkt_get_timestamp ?rcv)
        (int W) (written ?w (map D [e..<e + k])) =
      Inr (0, a, acked (written ?w (map D [e..<e + k])) ?ack (ack_bytes crc32 a))"
    and a: "acks a PTYPE_ACK (int W) (int ((e + k) mod 256))" "TR a = 0" "PAYLOAD a = Some (nalloc ?w)"
    and fin: "ring_inv W (i', b')" "ring_get W (i', b') 0 = None"
      "agrees (ring_get W) W (slot_in D N (acked (written ?w (map D [e..<e + k])) ?ack
        (ack_bytes crc32 a)) (PAYLOAD a)) (e + k) (i', b')"
    using deliver_step [OF b(2,3) heap(1-3) I(13,1) log] by blast
  let ?w' = "acked (written ?w (map D [e..<e + k])) ?ack (ack_bytes crc32 a)"
  let ?s' = "?s\<lparr>r_pkt_rcv := ?rcv, r_index := i', r_seq_exp := int ((e + k) mod 256), r_buf := b', r_pkt_ack := a\<rparr>"
  have "handle_datagram crc32 (int W) (length ?im) ?s w = Inr (?s', ?w')"
    by (rule trans [OF handle_data [of crc32 ?s "length ?im" w ?rcv ?w "int W" b i' "int ((e + k) mod 256)" b'
        "written ?w (map D [e..<e + k])" 0 a ?w']])
      (use b(1) dr sa R(1-4,6) I(3) dec in \<open>simp_all del: length_packet_image\<close>)
  then have "receive_step crc32 (int W) ev s w = Inr (Running ?s', ?w')"
    using receive_step_datagram [OF I(14) len(1,2)] by (simp add: evp)
  moreover have "up": "concat (map D [0..<e]) @ concat (map D [e..<e + k]) = concat (map D [0..<e + k])"
    by (simp add: upt_add_eq_append [of 0 e k, simplified])
  have lv: "live ?w' (PAYLOAD ?rcv) \<and> (PAYLOAD ?rcv = None \<or> PAYLOAD ?rcv \<noteq> Some (nalloc ?w))"
    using live_acked [of "written ?w (map D [e..<e + k])" "PAYLOAD ?rcv" ?ack "ack_bytes crc32 a"] heap(1) R(8) fresh
    by (simp del: acked_sel)
  have "rinv D N W (e + k) ?s' ?w'"
    unfolding rinv_def
    using k(1) fin lv a heap len(4) log up heap_ok_acked [of "written ?w (map D [e..<e + k])"]
    by simp
  moreover have "obslog ?w' = obslog w @ map Wrote (map D [e..<e + k]) @ [Sent (ack_bytes crc32 a)]"
    using heap(2) by simp
  ultimately show ?thesis
    using k b(4) a(1) by (intro exI [of _ ?s'] exI [of _ ?w'] exI [of _ "e + k"] exI [of _ a]) auto
qed

section \<open>Other events\<close>

text \<open>What decoding does to the heap when it does not release a payload.\<close>

definition mild :: "pkt \<Rightarrow> world \<Rightarrow> pkt \<Rightarrow> world \<Rightarrow> bool" where
  "mild p w p' w' \<longleftrightarrow> w' = w \<and> PAYLOAD p' = PAYLOAD p \<or>
     (\<exists>bs. w' = stored w bs \<and> PAYLOAD p' = Some (nalloc w))"

lemma decode_mild:
  assumes "decode_result crc32 data len p w = (st, p', w')"
    and "st \<noteq> PKT_OK \<or> \<not> (wire_tr data \<and> wire_length data \<noteq> 0)"
  shows "mild p w p' w'"
  using assms
  by (auto simp: mild_def decode_result_def payload_stored_def with_crc1_def with_payload_def
      with_crc2_def split: if_splits)

lemma rinv_mild:
  assumes inv: "rinv D N W e s w" and m: "mild (r_pkt_rcv s) w p' w'" and "length buf = 528"
  shows "rinv D N W e (s\<lparr>r_packet := buf, r_pkt_rcv := p', r_end_file := f\<rparr>) w' \<and> obslog w' = obslog w"
  using m unfolding mild_def
proof (elim disjE exE conjE)
  note I = rinvD [OF inv]
  show ?thesis if "w' = w" "PAYLOAD p' = PAYLOAD (r_pkt_rcv s)"
    using inv assms(3) that by (simp add: rinv_def)
  show ?thesis if w': "w' = stored w bs" and p': "PAYLOAD p' = Some (nalloc w)" for bs
  proof -
    have "agrees (ring_get W) W (slot_in D N w' (PAYLOAD (r_pkt_ack s))) e (r_index s, r_buf s)"
      unfolding w' using I(4) by (rule agrees_mono) (rule slot_in_stored [OF I(6)])
    moreover have "Some (nalloc w) \<noteq> PAYLOAD (r_pkt_ack s)"
      using live_nalloc [OF I(6), of "nalloc w"] I(11) by (metis less_irrefl)
    moreover have "heap_ok w'" "env_good w'" "live w' (PAYLOAD (r_pkt_ack s))"
      unfolding w' using heap_ok_stored [OF I(6)] I(7) keeps_live [OF keeps_stored [OF I(6)] I(11)]
      by simp_all
    ultimately show ?thesis
      using inv assms(3) p' by (simp add: rinv_def w')
  qed
qed

lemma receive_step_decoded:
  assumes "rinv D N W e s w"
  defines "data bs \<equiv> put_at 0 (take 528 bs) (r_packet s)"
  shows "length (data bs) = 528 \<and> (\<exists>st p' w'.
    decode_result crc32 (data bs) (length (take 528 bs)) (r_pkt_rcv s) w = (st, p', w') \<and>
    pkt_decode crc32 (data bs) (length (take 528 bs)) (r_pkt_rcv s) w = Inr (st, p', w') \<and>
    st = decode_verdict crc32 (data bs) (length (take 528 bs)))"
proof -
  note I = rinvD [OF assms(1)]
  have len: "length (data bs) = 528"
    using I(14) by (simp add: data_def)
  from decode_eq [of "data bs" w "r_pkt_rcv s" crc32 "length (take 528 bs)"] len I(8,10)
    fst_decode_result [of crc32 "data bs" "length (take 528 bs)" "r_pkt_rcv s" w]
  show ?thesis
    by (cases "decode_result crc32 (data bs) (length (take 528 bs)) (r_pkt_rcv s) w") simp
qed

lemma TYPE_decoded:
  assumes "decode_result crc32 data len p w = (PKT_OK, p', w')"
  shows "TYPE_f p' = ucast (drop_bit 6 (hd data))"
  using assms
  by (auto simp: decode_result_def with_crc1_def with_payload_def with_crc2_def with_header_def
      with_seqnum_def set_byte0_def split: if_splits)

lemma pkt_get_type_data: "pkt_get_type p = PTYPE_DATA \<longleftrightarrow> TYPE_f p = 1"
proof
  assume "pkt_get_type p = PTYPE_DATA"
  then have "ucast (ucast (TYPE_f p) :: u32) = (ucast (1 :: u32) :: 2 word)"
    by (simp add: pkt_get_type_def)
  moreover have "ucast (ucast (TYPE_f p) :: u32) = TYPE_f p"
    by (rule bit_word_eqI) (auto simp: bit_simps)
  ultimately show "TYPE_f p = 1" by simp
qed (simp add: pkt_get_type_def)

lemma harmless_step:
  assumes inv: "rinv D N W e s w" and ev: "harmless crc32 (r_packet s) ev"
  shows "\<exists>s' w'. receive_step crc32 (int W) ev s w = Inr (Running s', w') \<and> rinv D N W e s' w' \<and>
    r_end_file s' = r_end_file s \<and> obslog w' = obslog w"
proof -
  consider "ev = R_idle" | bs where "ev = R_ready (RdBytes bs)"
    using ev by (auto simp: harmless_def split: r_event.splits rd_result.splits)
  then show ?thesis
  proof cases
    case 1
    with inv show ?thesis by (simp add: receive_step_def)
  next
    case 2
    let ?dg = "take 528 bs"
    let ?data = "put_at 0 ?dg (r_packet s)"
    have wr: "arr_write (r_packet s) 0 ?dg = Inr ?data"
      using rinvD(14) [OF inv] by (simp add: arr_write_def)
    from receive_step_decoded [OF inv, of bs crc32] obtain st p' w' where
      len: "length ?data = 528"
      and dr: "decode_result crc32 ?data (length ?dg) (r_pkt_rcv s) w = (st, p', w')"
      and pd: "pkt_decode crc32 ?data (length ?dg) (r_pkt_rcv s) w = Inr (st, p', w')"
      and st: "st = decode_verdict crc32 ?data (length ?dg)"
      by blast
    have "st \<noteq> PKT_OK \<or> pkt_get_type p' \<noteq> PTYPE_DATA \<and> \<not> (wire_tr ?data \<and> wire_length ?data \<noteq> 0)"
      using ev TYPE_decoded [of crc32 ?data "length ?dg" "r_pkt_rcv s" w p' w'] dr st
      by (auto simp: 2 harmless_def Let_def pkt_get_type_data)
    then have "mild (r_pkt_rcv s) w p' w'" "\<not> (st = PKT_OK \<and> pkt_get_type p' = PTYPE_DATA)"
      using decode_mild [OF dr] by auto
    note R = rinv_mild [OF inv this(1) len, of "r_end_file s"] and no = this(2)
    let ?s = "s\<lparr>r_packet := ?data, r_pkt_rcv := p', r_end_file := r_end_file s\<rparr>"
    have R0: "rinv D N W e (s\<lparr>r_packet := ?data\<rparr>) w"
      using inv len by (simp add: rinv_def)
    have hd: "handle_datagram crc32 (int W) (length ?dg) (s\<lparr>r_packet := ?data\<rparr>) w = Inr (?s, w')"
      using handle_other [of crc32 "s\<lparr>r_packet := ?data\<rparr>" "length ?dg" w st p' w'] pd no
      by (simp del: length_take)
    show ?thesis
    proof (cases "length ?dg = 0")
      case True
      then have "bs = []" by (cases bs) simp_all
      then have "receive_step crc32 (int W) ev s w = Inr (Running (s\<lparr>r_packet := ?data\<rparr>), w)"
        unfolding 2 receive_step_def r_event.case rd_result.case Let_def wr andthen_Inr by simp
      with R0 show ?thesis by auto
    next
      case False
      then have "receive_step crc32 (int W) ev s w = Inr (Running ?s, w')"
        unfolding 2 receive_step_def r_event.case rd_result.case Let_def wr andthen_Inr hd
        using False by (simp del: length_take)
      with R show ?thesis by auto
    qed
  qed
qed

lemma end_step:
  assumes inv: "rinv D N W e s w" and ev: "end_event crc32 ev"
  shows "\<exists>s' w'. receive_step crc32 (int W) ev s w = Inr (Running s', w') \<and> rinv D N W e s' w' \<and>
    r_end_file s' \<and> obslog w' = obslog w"
proof -
  obtain p where p: "shown p []" "TYPE_f p = 1" "TR p = 0" "LENGTH_f p = 0"
    and evp: "ev = R_ready (RdBytes (take 12 (packet_image crc32 (header_bytes p) [])))"
    using ev by (auto simp: end_event_def shown_def)
  let ?bs = "take 12 (packet_image crc32 (header_bytes p) [])"
  have bs: "?bs = header_bytes p @ be32 (crc_of crc32 (Some (header_bytes p)))" "length ?bs = 12"
    by (simp_all add: packet_image_def)
  let ?data = "put_at 0 ?bs (r_packet s)"
  have data: "?data = header_bytes p @ be32 (crc_of crc32 (Some (header_bytes p))) @ drop 12 (r_packet s)"
    unfolding put_at_0 bs by simp
  have tk: "take 528 ?bs = ?bs" by simp
  from receive_step_decoded [OF inv, of ?bs crc32, unfolded tk bs(2)] have
    len: "length ?data = 528" and
    pd: "pkt_decode crc32 ?data 12 (r_pkt_rcv s) w = Inr (decode_result crc32 ?data 12 (r_pkt_rcv s) w)"
    by auto
  have wl: "wire_length ?data = 0" "\<not> wire_tr ?data" "hd ?data = byte0 p" "crc1_matches crc32 ?data"
    unfolding data using p by (simp_all add: wire_header hd_header_bytes crc1_matches_def)
  let ?p' = "with_crc1 (r_pkt_rcv s) ?data"
  have dr: "decode_result crc32 ?data 12 (r_pkt_rcv s) w = (PKT_OK, ?p', w)"
    using wl by (simp add: decode_result_def MAX_PAYLOAD_SIZE_def)
  have TY: "TYPE_f ?p' = 1"
    using arg_cong [OF set_byte0_byte0 [of "r_pkt_rcv s" p], of TYPE_f] p(2)
    by (simp add: with_crc1_def with_header_def with_seqnum_def wl(3))
  have TR: "TR ?p' = 0" and LE: "LENGTH_f ?p' = 0"
    using wl(1,2) htons_wire_length [of ?data] by (simp_all add: with_crc1_def)
  let ?s = "s\<lparr>r_packet := ?data, r_pkt_rcv := ?p', r_end_file := True\<rparr>"
  have hd: "handle_datagram crc32 (int W) 12 (s\<lparr>r_packet := ?data\<rparr>) w = Inr (?s, w)"
  proof (rule trans [OF handle_end [of crc32 "s\<lparr>r_packet := ?data\<rparr>" 12 w ?p' w]])
    show "pkt_get_type ?p' = PTYPE_DATA" using TY by (simp add: pkt_get_type_data)
    show "pkt_get_tr ?p' \<noteq> 1" "uint (pkt_get_length ?p') = 0"
      using TR LE by (simp_all add: pkt_get_tr_def pkt_get_length_def)
  qed (use pd dr in simp_all)
  have "arr_write (r_packet s) 0 (take 528 ?bs) = Inr ?data"
    unfolding tk using rinvD(14) [OF inv] bs(2) by (simp add: arr_write_def)
  then have "receive_step crc32 (int W) ev s w = Inr (Running ?s, w)"
    unfolding evp receive_step_def r_event.case rd_result.case Let_def by (simp only: andthen_Inr tk bs(2) hd) simp
  moreover have "mild (r_pkt_rcv s) w ?p' w"
    by (simp add: mild_def with_crc1_def)
  from rinv_mild [OF inv this len, of True] have "rinv D N W e ?s w" by simp
  ultimately show ?thesis by auto
qed

end
