(* ===== verification/Sender_Laws.thy ===== *)
theory Sender_Laws
  imports Sender Receiver_Run
begin

text \<open>
  The steps of the sender: where \<open>adapt_buffer\<close> moves the window, what is sent when the file is
  readable, when an acknowledgement arrives and when the timer runs out, and the invariant of
  the main loop. \<open>seq_ind\<close> counts the packets in an \<open>int\<close>, so transfers end before \<open>2 ^ 31\<close> of them.
\<close>

section \<open>Moving the window\<close>

lemma mod_256_step: "((s - int (Suc d)) mod 256 + 1) mod 256 = (s - int d) mod 256"
  by (simp add: mod_simps)

lemma mod_256_ne:
  fixes s :: int
  assumes "0 \<le> s" "s < 256" "d < 256"
  shows "(s - int d) mod 256 = s \<longleftrightarrow> d = 0"
proof
  assume "(s - int d) mod 256 = s"
  then have "(s - int d) mod 256 = s mod 256" using assms by simp
  then have "256 dvd int d" by (simp add: mod_eq_dvd_iff)
  with assms(3) show "d = 0" by (auto dest: zdvd_imp_le)
qed (use assms in simp)

lemma adapt_loop_run:
  assumes "0 \<le> seq" "seq < 256" "0 < window" "d < 256" "0 \<le> ind"
  shows "\<exists>tv'. adapt_loop ops seq window ts n ((seq - int d) mod 256) ind tv w =
    Some (Inr (seq, if d = 0 then ind else (ind + int d) mod window, tv',
      if d = 0 then w else snd (gettimeofday w)))"
  using assms(4,5)
proof (induction d arbitrary: ind tv w)
  case 0
  show ?case using assms(1,2) by (subst adapt_loop.simps) simp
next
  case (Suc d)
  let ?ind = "(ind + 1) mod window"
  have ne: "(seq - int (Suc d)) mod 256 \<noteq> c_rem seq 256"
    using mod_256_ne [OF assms(1,2) Suc.prems(1)] assms(1,2) by simp
  have ind: "c_mod (ind + 1) window = Inr ?ind" "0 \<le> ?ind"
    using Suc.prems(2) assms(3) by simp_all
  have sq: "c_rem ((seq - int (Suc d)) mod 256 + 1) 256 = (seq - int d) mod 256"
    using mod_256_step [of seq d] by simp
  have eq: "(seq - int d) mod 256 = seq \<longleftrightarrow> d = 0"
    using mod_256_ne [OF assms(1,2)] Suc.prems(1) by simp
  have add: "(?ind + int d) mod window = (ind + int (Suc d)) mod window"
    by (simp add: mod_simps ac_simps)
  note IH = Suc.IH [OF Suc_lessD [OF Suc.prems(1)] ind(2)]
  show ?case
  proof (cases "d = 0")
    case True
    obtain tv1 w1 where g: "gettimeofday w = (tv1, w1)" by (cases "gettimeofday w")
    from IH [of "adapt_rtt ops tv1 ts tv n" w1] obtain tv' where
      "adapt_loop ops seq window ts n ((seq - int d) mod 256) ?ind (adapt_rtt ops tv1 ts tv n) w1 =
        Some (Inr (seq, ?ind, tv', w1))"
      using True by auto
    then show ?thesis
      by (subst adapt_loop.simps) (use True ne ind(1) sq eq g in \<open>simp del: of_nat_Suc\<close>, simp)
  next
    case False
    from IH [of tv w] obtain tv' where
      "adapt_loop ops seq window ts n ((seq - int d) mod 256) ?ind tv w =
        Some (Inr (seq, (?ind + int d) mod window, tv', snd (gettimeofday w)))"
      using False by auto
    then show ?thesis
      by (subst adapt_loop.simps) (use False ne ind(1) sq eq add in \<open>simp del: of_nat_Suc\<close>)
  qed
qed

lemma adapt_buffer_run:
  assumes "0 \<le> small_seq" "small_seq < 256" "0 \<le> seq" "seq < 256" "0 < window" "0 \<le> small_ind"
  defines "d \<equiv> (seq - small_seq) mod 256"
  shows "adapt_buffer ops small_seq seq small_ind window ts tv n fail w =
    Inr (seq, if d = 0 then small_ind else (small_ind + d) mod window, fail,
      if d = 0 then w else snd (gettimeofday w))"
proof -
  have d0: "0 \<le> d" "d < 256" unfolding d_def by simp_all
  then have dd: "d = int (nat d)" "nat d < 256" by simp_all
  have "(seq - int (nat d)) mod 256 = small_seq mod 256"
    unfolding dd(1) [symmetric] by (simp add: d_def mod_simps)
  then have "(seq - int (nat d)) mod 256 = small_seq" using assms(1,2) by simp
  with adapt_loop_run [OF assms(3-5) dd(2) assms(6), of ops ts n tv w] obtain tv' where
    "adapt_loop ops seq window ts n small_seq small_ind tv w =
      Some (Inr (seq, if nat d = 0 then small_ind else (small_ind + int (nat d)) mod window, tv',
        if nat d = 0 then w else snd (gettimeofday w)))"
    by auto
  moreover have "nat d = 0 \<longleftrightarrow> d = 0" "int (nat d) = d" using d0 by auto
  ultimately show ?thesis
    unfolding adapt_buffer_def by simp
qed

section \<open>The invariant\<close>

lemma u8_of_mod: "(word_of_int (int (n mod 256)) :: u8) = of_nat n" "(of_nat (n mod 256) :: u8) = of_nat n"
  by (simp_all add: word_of_nat_eq_iff take_bit_nat_def)

text \<open>A slot that holds chunk \<open>j\<close>, ready to be sent again.\<close>

definition slot_holds :: "(nat \<Rightarrow> bytes) \<Rightarrow> world \<Rightarrow> nat \<Rightarrow> pkt option \<Rightarrow> bool" where
  "slot_holds D w j x \<longleftrightarrow> (\<exists>p. x = Some p \<and> payload_is p w (D j) \<and> D j \<noteq> [] \<and> TYPE_f p = 1 \<and>
     SEQNUM p = of_nat j)"

text \<open>\<open>a\<close> chunks are acknowledged, \<open>n\<close> are sent; the window is 1 until the first acknowledgement
  and \<open>W\<close>, what the receiver announces, afterwards. The last \<open>W\<close> chunks sent are in their slots.\<close>

definition window_at :: "nat \<Rightarrow> nat \<Rightarrow> nat \<Rightarrow> int \<Rightarrow> bool" where
  "window_at W a n v \<longleftrightarrow> 1 \<le> W \<and> W \<le> 31 \<and> a \<le> n \<and> n < 2 ^ 31 \<and> int n - int a \<le> v \<and> (v = 1 \<and> a = 0 \<or> v = int W)"

definition sinv :: "(nat \<Rightarrow> bytes) \<Rightarrow> nat \<Rightarrow> nat \<Rightarrow> nat \<Rightarrow> int \<Rightarrow> sstate \<Rightarrow> world \<Rightarrow> bool" where
  "sinv D W a n v s w \<longleftrightarrow>
     window_at W a n v \<and> s_window s = v \<and> s_small_seq s = int (a mod 256) \<and> s_seq_exp s = int (n mod 256) \<and>
     s_seq_ind s = int n \<and> s_small_ind s = int a mod v \<and> s_fail s = 0 \<and>
     (s_endFile s = 0 \<longrightarrow> s_buffer_empty s = (if n = 0 then 0 else 1)) \<and> s_endFile s \<in> {0, 1} \<and>
     length (s_packet s) = 528 \<and> length (s_read_tmp s) = 512 \<and> length (s_buffer s) = 31 \<and>
     (\<forall>j<n. n \<le> j + W \<longrightarrow> slot_holds D w j (s_buffer s ! (j mod W))) \<and>
     (\<forall>j<31. n \<le> j \<or> W \<le> j \<longrightarrow> s_buffer s ! j = None) \<and>
     TR (s_pkt_send s) = 0 \<and> TYPE_f (s_pkt_send s) = 1 \<and> live w (PAYLOAD (s_pkt_send s)) \<and>
     live w (PAYLOAD (s_pkt_ack s)) \<and>
     (PAYLOAD (s_pkt_ack s) = None \<or> PAYLOAD (s_pkt_ack s) \<noteq> PAYLOAD (s_pkt_send s)) \<and>
     heap_ok w \<and> env_good w"

lemma slot_holds_keeps: "slot_holds D w j x \<Longrightarrow> keeps w w' \<Longrightarrow> slot_holds D w' j x"
  by (auto simp: slot_holds_def intro: payload_is_keeps)

lemma sinv_keeps:
  "sinv D W a n v s w \<Longrightarrow> keeps w w' \<Longrightarrow> heap_ok w' \<Longrightarrow> env_good w' \<Longrightarrow> sinv D W a n v s w'"
  by (auto simp: sinv_def intro: slot_holds_keeps keeps_live)

lemma sinvD:
  assumes "sinv D W a n v s w"
  shows "window_at W a n v" "s_window s = v" "s_small_seq s = int (a mod 256)" "s_seq_exp s = int (n mod 256)"
    "s_seq_ind s = int n" "s_small_ind s = int a mod v" "s_fail s = 0"
    "length (s_packet s) = 528" "length (s_read_tmp s) = 512" "length (s_buffer s) = 31"
    "j < n \<Longrightarrow> n \<le> j + W \<Longrightarrow> slot_holds D w j (s_buffer s ! (j mod W))"
    "TR (s_pkt_send s) = 0" "TYPE_f (s_pkt_send s) = 1" "live w (PAYLOAD (s_pkt_send s))"
    "live w (PAYLOAD (s_pkt_ack s))" "heap_ok w" "env_good w" "\<not> oom w k" "\<not> wfail w k"
    "j < 31 \<Longrightarrow> n \<le> j \<or> W \<le> j \<Longrightarrow> s_buffer s ! j = None"
    "PAYLOAD (s_pkt_ack s) = None \<or> PAYLOAD (s_pkt_ack s) \<noteq> PAYLOAD (s_pkt_send s)"
  using assms by (auto simp: sinv_def env_good_def)

text \<open>A chunk that was read is never in a slot that is still free.\<close>

lemma ring_differs: "n \<le> i \<or> W \<le> i \<Longrightarrow> j < n \<Longrightarrow> 1 \<le> W \<Longrightarrow> j mod W \<noteq> i" for i :: nat
  by (metis less_le_trans mod_less_divisor mod_less_eq_dividend not_le One_nat_def Suc_le_eq)

section \<open>Sending a packet\<close>

text \<open>A datagram that carries chunk \<open>j\<close>, as the receiver understands it.\<close>

definition data_packet :: "crc_fun \<Rightarrow> (nat \<Rightarrow> bytes) \<Rightarrow> nat \<Rightarrow> bytes \<Rightarrow> bool" where
  "data_packet crc32 D j bs \<longleftrightarrow> data_event crc32 D j (R_ready (RdBytes bs))"

text \<open>The world after a packet was encoded and written.\<close>

definition sent :: "world \<Rightarrow> bytes \<Rightarrow> world" where
  "sent w bs = snd (do_write Sent bs (snd (gettimeofday w)))"

lemma sent_sel [simp]:
  "mem (sent w bs) = mem w" "nalloc (sent w bs) = nalloc w" "oom (sent w bs) = oom w"
  "wfail (sent w bs) = wfail w"
  by (simp_all add: sent_def do_write_def Let_def)

lemma sent_frame [simp]:
  "heap_ok (sent w bs) = heap_ok w" "env_good (sent w bs) = env_good w" "keeps w (sent w bs)"
  by (simp_all add: heap_ok_def env_good_def keeps_def)

lemma obslog_sent [simp]: "env_good w \<Longrightarrow> obslog (sent w bs) = obslog w @ [Sent bs]"
  by (simp add: sent_def do_write_def Let_def env_good_def)

lemma send_packet_ok:
  assumes "env_good w" "s_packet s = bs @ rest"
  shows "send_packet (length bs) s (snd (gettimeofday w)) = Inr (SRunning s, sent w bs)"
  using assms by (simp add: send_packet_def arr_read_def sent_def do_write_def Let_def env_good_def)

text \<open>The bytes \<open>pkt_encode\<close> leaves for chunk \<open>j\<close>.\<close>

lemma encode_chunk:
  assumes "payload_is p w (D j)" "D j \<noteq> []" "TYPE_f p = 1" "SEQNUM p = of_nat j" "length buf = 528"
  shows "\<exists>bs p'. pkt_encode crc32 p buf len w =
      Inr (PKT_OK, length bs, bs @ drop (length bs) buf, p', snd (gettimeofday w)) \<and>
    data_packet crc32 D j bs \<and> slot_holds D w j (Some p') \<and>
    p' = encoded crc32 p (D j) w"
proof -
  let ?p = "p\<lparr>TIMESTAMP := stamp w\<rparr>"
  let ?bs = "packet_image crc32 (header_bytes ?p) (D j)"
  have len: "length (D j) \<le> 512" using assms(1) by (simp add: payload_is_def MAX_PAYLOAD_SIZE_def)
  have "pkt_encode crc32 p buf len w =
      Inr (PKT_OK, wire_len (D j), ?bs @ drop (16 + length (D j)) buf, encoded crc32 p (D j) w, snd (gettimeofday w))"
    using encode_ok [OF assms(1)] assms(5) len by simp
  moreover have "length ?bs = wire_len (D j)" "length ?bs = 16 + length (D j)"
    using assms(2) by (simp_all add: wire_len_def)
  moreover have "data_packet crc32 D j ?bs"
    using assms payload_is_shown [OF assms(1)]
    unfolding data_packet_def data_event_def data_header_def
    by (intro exI [of _ ?p]) (simp add: shown_def)
  moreover have "slot_holds D w j (Some (encoded crc32 p (D j) w))"
    using assms by (simp add: slot_holds_def encoded_def Let_def)
  ultimately show ?thesis by metis
qed

lemma encode_slot_ok:
  assumes "slot_holds D w j (s_buffer s ! i)" "i < length (s_buffer s)" "length (s_packet s) = 528" "env_good w"
  shows "\<exists>bs p'. encode_slot crc32 (int i) s w send_packet =
      Inr (SRunning (s\<lparr>s_packet := bs @ drop (length bs) (s_packet s), s_buffer := (s_buffer s)[i := Some p']\<rparr>), sent w bs) \<and>
    data_packet crc32 D j bs \<and> length bs \<le> 528 \<and> slot_holds D w j (Some p')"
proof -
  obtain p where p: "s_buffer s ! i = Some p" "payload_is p w (D j)" "D j \<noteq> []" "TYPE_f p = 1"
    "SEQNUM p = of_nat j"
    using assms(1) by (auto simp: slot_holds_def)
  from encode_chunk [where D = D and j = j, OF p(2-5) assms(3), of crc32 528] obtain bs p' where
    e: "pkt_encode crc32 p (s_packet s) 528 w =
      Inr (PKT_OK, length bs, bs @ drop (length bs) (s_packet s), p', snd (gettimeofday w))"
    and d: "data_packet crc32 D j bs" "slot_holds D w j (Some p')"
    by auto
  have "length bs \<le> 528"
    using d(1) p(2) by (auto simp: data_packet_def data_event_def payload_is_def MAX_PAYLOAD_SIZE_def)
  moreover have "buffer_slot (int i) s = Inr p"
    using p(1) assms(2) by (simp add: buffer_slot_def arr_get_def)
  moreover have "arr_set (s_buffer s) (int i) (Some p') = Inr ((s_buffer s)[i := Some p'])"
    using assms(2) by (simp add: arr_set_def)
  ultimately show ?thesis
    using e d send_packet_ok [OF assms(4), of "s\<lparr>s_packet := bs @ drop (length bs) (s_packet s),
          s_buffer := (s_buffer s)[i := Some p']\<rparr>" bs "drop (length bs) (s_packet s)"]
    by (intro exI [of _ bs] exI [of _ p']) (simp add: encode_slot_def Let_def)
qed

section \<open>The timer\<close>

text \<open>The chunk in the slot of the oldest packet: the oldest unacknowledged one, or, when all are
  acknowledged, the one \<open>W\<close> before.\<close>

definition oldest :: "nat \<Rightarrow> nat \<Rightarrow> nat \<Rightarrow> nat" where
  "oldest W a n = (if a < n then a else n - W)"

lemma window_atD:
  assumes "window_at W a n v"
  shows "1 \<le> W" "W \<le> 31" "a \<le> n" "n < 2 ^ 31" "int n - int a \<le> v" "n \<le> a + W" "0 < v"
    "int a mod v = int (a mod W)" "nat (int a mod v) < 31"
proof -
  show b: "1 \<le> W" "W \<le> 31" "a \<le> n" "n < 2 ^ 31" "int n - int a \<le> v" "0 < v"
    using assms by (auto simp: window_at_def)
  show "n \<le> a + W" using assms by (auto simp: window_at_def)
  show m: "int a mod v = int (a mod W)"
    using assms by (auto simp: window_at_def zmod_int)
  have "a mod W < W" using b(1) by simp
  then show "nat (int a mod v) < 31" using b(2) unfolding m by simp
qed

text \<open>Replacing a slot by the same chunk keeps the invariant.\<close>

lemma sinv_slot:
  assumes inv: "sinv D W a n v s w" and "slot_holds D w j (Some p)" "j < n" "n \<le> j + W"
    and "length buf = 528"
  shows "sinv D W a n v (s\<lparr>s_packet := buf, s_buffer := (s_buffer s)[j mod W := Some p]\<rparr>) w"
proof -
  have W: "1 \<le> W" using window_atD(1) [OF sinvD(1) [OF inv]] .
  have "slot_holds D w i ((s_buffer s)[j mod W := Some p] ! (i mod W))" if i: "i < n" "n \<le> i + W" for i
  proof (cases "i mod W = j mod W")
    case True
    have "i = j"
    proof (rule ccontr)
      assume ne: "i \<noteq> j"
      have "int W dvd int i - int j"
        using True by (metis mod_eq_dvd_iff of_nat_eq_iff zmod_int)
      then have "int W \<le> \<bar>int i - int j\<bar>"
        using ne dvd_imp_le_int [of "int i - int j" "int W"] by simp
      with i assms(3,4) show False by linarith
    qed
    moreover have "j mod W < length (s_buffer s)"
      using W window_atD(2) [OF sinvD(1) [OF inv]] sinvD(10) [OF inv]
      by (metis less_le_trans mod_less_divisor less_eq_Suc_le One_nat_def)
    ultimately show ?thesis using assms(2) by simp
  next
    case False
    then show ?thesis using sinvD(11) [OF inv i] by simp
  qed
  moreover have "(s_buffer s)[j mod W := Some p] ! i = None" if "i < 31" "n \<le> i \<or> W \<le> i" for i
    using sinvD(20) [OF inv that] ring_differs [OF that(2) assms(3)] window_atD(1) [OF sinvD(1) [OF inv]] by simp
  ultimately show ?thesis
    using inv assms(5) by (simp add: sinv_def)
qed

lemma resend_ok:
  assumes inv: "sinv D W a n v s w" and "a < n \<or> W \<le> n" "0 < n"
  shows "\<exists>bs s'. resend_oldest crc32 s w = Inr (SRunning s', sent w bs) \<and>
    data_packet crc32 D (oldest W a n) bs \<and> oldest W a n < n \<and> sinv D W a n v s' (sent w bs) \<and>
    s_endFile s' = s_endFile s"
proof -
  note I = sinvD [OF inv] and A = window_atD [OF sinvD(1) [OF inv]]
  let ?j = "oldest W a n"
  have j: "?j < n" "n \<le> ?j + W" "?j mod W = a mod W"
    using assms(2,3) A(1,3,6) by (auto simp: oldest_def le_mod_geq)
  have "c_mod (int a mod v) v = Inr (int a mod v)" using A(7) by simp
  then have i: "c_mod (s_small_ind s) (s_window s) = Inr (int (a mod W))"
    by (simp only: I(2,6) A(8))
  have lt: "a mod W < length (s_buffer s)"
    using A(8,9) I(10) by simp
  have "slot_holds D w ?j (s_buffer s ! (a mod W))"
    using I(11) [OF j(1,2)] j(3) by simp
  from encode_slot_ok [OF this lt I(8,17), of crc32] obtain bs p' where
    e: "encode_slot crc32 (int (a mod W)) s w send_packet =
      Inr (SRunning (s\<lparr>s_packet := bs @ drop (length bs) (s_packet s), s_buffer := (s_buffer s)[a mod W := Some p']\<rparr>), sent w bs)"
    and d: "data_packet crc32 D ?j bs" "length bs \<le> 528" "slot_holds D w ?j (Some p')"
    by blast
  have "length (bs @ drop (length bs) (s_packet s)) = 528" using d(2) I(8) by simp
  from sinv_slot [OF inv d(3) j(1,2) this] have
    "sinv D W a n v (s\<lparr>s_packet := bs @ drop (length bs) (s_packet s), s_buffer := (s_buffer s)[a mod W := Some p']\<rparr>) w"
    by (simp only: j(3))
  then have "sinv D W a n v (s\<lparr>s_packet := bs @ drop (length bs) (s_packet s), s_buffer := (s_buffer s)[a mod W := Some p']\<rparr>) (sent w bs)"
    by (rule sinv_keeps) (use I(16,17) in simp_all)
  with e d(1) j(1) i show ?thesis
    by (intro exI [of _ bs] exI [of _ "s\<lparr>s_packet := bs @ drop (length bs) (s_packet s), s_buffer := (s_buffer s)[a mod W := Some p']\<rparr>"])
      (simp add: resend_oldest_def)
qed

section \<open>Reading the file\<close>

lemma stored_more: "env_good w \<Longrightarrow> pkt_new w = (Some fresh, w') \<Longrightarrow>
    w' = w\<lparr>nalloc := Suc (nalloc w)\<rparr>"
  by (auto simp: pkt_new_def Let_def env_good_def)

lemma frame_nalloc:
  "heap_ok w \<Longrightarrow> heap_ok (w\<lparr>nalloc := Suc (nalloc w)\<rparr>)"
  "env_good (w\<lparr>nalloc := k\<rparr>) = env_good w" "keeps w (w\<lparr>nalloc := k\<rparr>)"
  "live (w\<lparr>nalloc := k\<rparr>) = live w" "obslog (w\<lparr>nalloc := k\<rparr>) = obslog w"
  by (auto simp: heap_ok_def env_good_def keeps_def live_def fun_eq_iff split: option.splits)

lemma set_payload_chunk:
  assumes "TR p = 0" "live w (PAYLOAD p)" "env_good w" "heap_ok w" "bs \<noteq> []" "length bs \<le> 512"
    "length tmp = 512"
  shows "pkt_set_payload p (Some (put_at 0 bs tmp)) (of_nat (length bs)) w =
      Inr (PKT_OK, p\<lparr>LENGTH_f := htons (of_nat (length bs)), PAYLOAD := Some (nalloc w)\<rparr>, stored w bs) \<and>
    payload_is (p\<lparr>LENGTH_f := htons (of_nat (length bs)), PAYLOAD := Some (nalloc w)\<rparr>) (stored w bs) bs"
  using assms set_payload_eq [of w "of_nat (length bs)" "put_at 0 bs tmp" p]
  by (simp add: env_good_def put_at_0 payload_is_def MAX_PAYLOAD_SIZE_def)

text \<open>A chunk is read, buffered, encoded and sent.\<close>

lemma read_file_eq:
  assumes "TR (s_pkt_send s) = 0" "live w (PAYLOAD (s_pkt_send s))" "env_good w" "heap_ok w"
    and "bs \<noteq> []" "length bs \<le> 512" "length (s_read_tmp s) = 512" "length (s_packet s) = 528"
    and "0 < s_window s" "0 \<le> s_seq_ind s" "s_seq_ind s mod s_window s < int (length (s_buffer s))" "0 \<le> s_seq_exp s"
    and "TYPE_f (s_pkt_send s) = 1" "word_of_int (s_seq_exp s) = (of_nat j :: u8)" "D j = bs"
  shows "\<exists>im p p' tmp k. read_file crc32 (SrBytes bs) s w =
      Inr (SRunning (s\<lparr>s_read_tmp := tmp, s_buffer_empty := k, s_pkt_send := p',
            s_packet := im @ drop (length im) (s_packet s),
            s_buffer := (s_buffer s)[nat (s_seq_ind s mod s_window s) := Some p],
            s_seq_exp := (s_seq_exp s + 1) mod 256, s_seq_ind := s_seq_ind s + 1, s_sent := 1\<rparr>),
        sent (stored w bs\<lparr>nalloc := Suc (Suc (nalloc w))\<rparr>) im) \<and>
    length tmp = 512 \<and> k = (if s_buffer_empty s = 0 then 1 else s_buffer_empty s) \<and>
    length im \<le> 528 \<and> data_packet crc32 D j im \<and>
    slot_holds D (stored w bs) j (Some p) \<and> TR p' = 0 \<and> TYPE_f p' = 1 \<and> PAYLOAD p' = Some (nalloc w)"
proof -
  let ?p1 = "s_pkt_send s\<lparr>LENGTH_f := htons (of_nat (length bs)), PAYLOAD := Some (nalloc w)\<rparr>"
  let ?p2 = "?p1\<lparr>SEQNUM := word_of_int (s_seq_exp s)\<rparr>"
  let ?w1 = "stored w bs" and ?i = "s_seq_ind s mod s_window s"
  let ?w2 = "?w1\<lparr>nalloc := Suc (Suc (nalloc w))\<rparr>"
  let ?tmp = "put_at 0 bs (s_read_tmp s)"
  define k where "k = (if s_buffer_empty s = 0 then 1 else s_buffer_empty s)"
  note sp = set_payload_chunk [OF assms(1-7)]
  obtain fresh where pn: "pkt_new ?w1 = (Some fresh, ?w2)"
    using assms(3) by (simp add: pkt_new_def Let_def env_good_def)
  have pl: "payload_is ?p2 ?w2 (D j)" "slot_holds D ?w1 j (Some ?p2)"
    using sp assms(5,13-15) frame_nalloc(3) [of ?w1 "Suc (Suc (nalloc w))"]
    by (auto simp: slot_holds_def intro: payload_is_keeps)
  from encode_chunk [where D = D and j = j, OF pl(1) _ _ _ assms(8), of crc32 528] assms(5,13-15)
  obtain im p' where
    e: "pkt_encode crc32 ?p2 (s_packet s) 528 ?w2 =
      Inr (PKT_OK, length im, im @ drop (length im) (s_packet s), p', snd (gettimeofday ?w2))"
    and d: "data_packet crc32 D j im" "p' = encoded crc32 ?p2 (D j) ?w2"
    by auto
  have lim: "length im \<le> 528"
    using d(1) assms(6,15) by (auto simp: data_packet_def data_event_def)
  have aw: "arr_write (s_read_tmp s) 0 bs = Inr ?tmp"
    using assms(6,7) by (simp add: arr_write_def)
  have tk: "take MAX_PAYLOAD_SIZE bs = bs" using assms(6) by (simp add: MAX_PAYLOAD_SIZE_def)
  have cm: "c_mod (s_seq_ind s) (s_window s) = Inr ?i" "c_mod (s_seq_exp s + 1) 256 = Inr ((s_seq_exp s + 1) mod 256)"
    using assms(9,10,12) by simp_all
  have as: "arr_set (s_buffer s) ?i (Some ?p2) = Inr ((s_buffer s)[nat ?i := Some ?p2])"
    using assms(9-11) by (simp add: arr_set_def)
  let ?s1 = "s\<lparr>s_read_tmp := ?tmp, s_buffer_empty := k\<rparr>"
  have s1: "(if s_buffer_empty (s\<lparr>s_read_tmp := ?tmp\<rparr>) = 0 then s\<lparr>s_read_tmp := ?tmp, s_buffer_empty := 1\<rparr>
      else s\<lparr>s_read_tmp := ?tmp\<rparr>) = ?s1"
    by (cases s) (simp add: k_def)
  let ?s2 = "?s1\<lparr>s_pkt_send := p', s_packet := im @ drop (length im) (s_packet s),
    s_buffer := (s_buffer s)[nat ?i := Some ?p2]\<rparr>"
  have snd: "send_packet (length im) ?s2 (snd (gettimeofday ?w2)) = Inr (SRunning ?s2, sent ?w2 im)"
    by (rule send_packet_ok [where rest = "drop (length im) (s_packet s)"])
      (use assms(3) in \<open>simp_all add: frame_nalloc\<close>)
  have "read_file crc32 (SrBytes bs) s w =
      Inr (SRunning (?s2\<lparr>s_seq_exp := (s_seq_exp s + 1) mod 256, s_seq_ind := s_seq_ind s + 1, s_sent := 1\<rparr>), sent ?w2 im)"
    unfolding read_file_def s_read.case Let_def cm tk aw andthen_Inr s1
    using assms(5) sp
    by (simp add: pkt_set_seqnum_def pn pkt_copy_def cm as e snd)
  moreover have "TR p' = 0" "TYPE_f p' = 1" "PAYLOAD p' = Some (nalloc w)"
    using assms(1,13) by (simp_all add: d(2) encoded_def Let_def)
  moreover have "length ?tmp = 512" using assms(6,7) by simp
  ultimately show ?thesis
    using lim d(1) pl(2) k_def by blast
qed

lemma window_at_more: "window_at W a n v \<Longrightarrow> int n - int a < v \<Longrightarrow> Suc n < 2 ^ 31 \<Longrightarrow> window_at W a (Suc n) v"
  by (auto simp: window_at_def)

lemma window_index:
  assumes "window_at W a n v" "int n - int a < v"
  shows "int n mod v = int (n mod W)" "n mod W < 31"
proof -
  show "int n mod v = int (n mod W)"
    using assms by (auto simp: window_at_def zmod_int)
  have "n mod W < W" using assms(1) by (simp add: window_at_def)
  then show "n mod W < 31" using assms(1) by (simp add: window_at_def)
qed

lemma mod_differs:
  assumes "j < n" "n < j + (W :: nat)"
  shows "j mod W \<noteq> n mod W"
proof
  assume "j mod W = n mod W"
  then have "int W dvd int n - int j"
    by (metis mod_eq_dvd_iff of_nat_eq_iff zmod_int)
  then have "int W \<le> int n - int j"
    using assms by (intro zdvd_imp_le) auto
  with assms show False by linarith
qed

lemma file_step:
  assumes inv: "sinv D W a n v s w" and room: "int n - int a < v" "Suc n < 2 ^ 31"
    and D: "D n \<noteq> []" "length (D n) \<le> 512" and "s_endFile s = 0"
  shows "\<exists>s' w' im. read_file crc32 (SrBytes (D n)) s w = Inr (SRunning s', w') \<and>
    sinv D W a (Suc n) v s' w' \<and> s_sent s' = 1 \<and> s_endFile s' = 0 \<and>
    s_ack_received s' = s_ack_received s \<and>
    obslog w' = obslog w @ [Sent im] \<and> data_packet crc32 D n im"
proof -
  note I = sinvD [OF inv] and A = window_atD [OF sinvD(1) [OF inv]]
  note ix = window_index [OF I(1) room(1)]
  have idx: "s_seq_ind s mod s_window s = int (n mod W)"
    by (simp only: I(2,5) ix(1))
  have pos: "0 < s_window s" "0 \<le> s_seq_ind s" "s_seq_ind s mod s_window s < int (length (s_buffer s))"
    "0 \<le> s_seq_exp s" "word_of_int (s_seq_exp s) = (of_nat n :: u8)"
    using A(7) ix(2) unfolding idx by (simp_all add: I(2,4,5,10) u8_of_mod)
  from read_file_eq [where D = D and j = n, OF I(12,14,17,16) D I(9,8) pos(1-4) I(13) pos(5), of crc32]
  obtain im p p' tmp k where
    r: "read_file crc32 (SrBytes (D n)) s w =
      Inr (SRunning (s\<lparr>s_read_tmp := tmp, s_buffer_empty := k, s_pkt_send := p',
            s_packet := im @ drop (length im) (s_packet s),
            s_buffer := (s_buffer s)[nat (s_seq_ind s mod s_window s) := Some p],
            s_seq_exp := (s_seq_exp s + 1) mod 256, s_seq_ind := s_seq_ind s + 1, s_sent := 1\<rparr>),
        sent (stored w (D n)\<lparr>nalloc := Suc (Suc (nalloc w))\<rparr>) im)"
    and f: "length tmp = 512" "k = (if s_buffer_empty s = 0 then 1 else s_buffer_empty s)"
      "length im \<le> 528" "data_packet crc32 D n im" "slot_holds D (stored w (D n)) n (Some p)"
      "TR p' = 0" "TYPE_f p' = 1" "PAYLOAD p' = Some (nalloc w)"
    by blast
  let ?s = "s\<lparr>s_read_tmp := tmp, s_buffer_empty := k, s_pkt_send := p',
            s_packet := im @ drop (length im) (s_packet s), s_buffer := (s_buffer s)[n mod W := Some p],
            s_seq_exp := (s_seq_exp s + 1) mod 256, s_seq_ind := s_seq_ind s + 1, s_sent := 1\<rparr>"
  let ?w2 = "stored w (D n)\<lparr>nalloc := Suc (Suc (nalloc w))\<rparr>"
  have k: "k = 1" using inv assms(6) f(2) by (auto simp: sinv_def)
  have kw: "keeps w (stored w (D n))" by (rule keeps_stored [OF I(16)])
  have slots: "slot_holds D (stored w (D n)) j ((s_buffer s)[n mod W := Some p] ! (j mod W))"
    if j: "j < Suc n" "Suc n \<le> j + W" for j
  proof (cases "j = n")
    case True
    then show ?thesis using f(5) ix(2) I(10) by simp
  next
    case False
    have "j mod W \<noteq> n mod W" using j False by (intro mod_differs) auto
    then show ?thesis
      using slot_holds_keeps [OF I(11) kw] j False by simp
  qed
  have heap: "heap_ok (stored w (D n))" "env_good (stored w (D n))"
    using heap_ok_stored [OF I(16)] I(17) by simp_all
  have free: "(s_buffer s)[n mod W := Some p] ! j = None" if "j < 31" "Suc n \<le> j \<or> W \<le> j" for j
    using I(20) [of j] ring_differs [OF that(2) lessI] A(1) that by auto
  have fresh: "PAYLOAD (s_pkt_ack s) \<noteq> Some (nalloc w)"
    using live_nalloc [OF I(16), of "nalloc w"] I(15) by (metis less_irrefl)
  have "live (stored w (D n)) (PAYLOAD (s_pkt_ack s))"
    by (rule keeps_live [OF kw I(15)])
  moreover have "(s_seq_exp s + 1) mod 256 = int (Suc n mod 256)" "s_seq_ind s + 1 = int (Suc n)"
    by (simp_all add: I(4,5) zmod_int mod_simps add.commute)
  ultimately have "sinv D W a (Suc n) v ?s (stored w (D n))"
    unfolding sinv_def
    using window_at_more [OF I(1) room] I f heap slots free fresh assms(6) k by simp
  moreover have "keeps (stored w (D n)) (sent ?w2 im)" "heap_ok (sent ?w2 im)" "env_good (sent ?w2 im)"
    using heap frame_nalloc(1) [OF heap(1)] by (simp_all add: frame_nalloc keeps_def)
  ultimately have "sinv D W a (Suc n) v ?s (sent ?w2 im)"
    by (rule sinv_keeps)
  moreover have "obslog (sent ?w2 im) = obslog w @ [Sent im]"
    using heap(2) by (simp add: frame_nalloc)
  ultimately show ?thesis
    using r f(4) assms(6) by (intro exI [of _ ?s] exI [of _ "sent ?w2 im"] exI [of _ im]) (simp add: idx)
qed

section \<open>Reading the socket\<close>

text \<open>A datagram of a header and its check-sum.\<close>

lemma decode_header_image:
  fixes crc32 :: crc_fun
  assumes "TR p = 0" "LENGTH_f p = 0" "4 \<le> len"
  defines "d \<equiv> header_bytes p @ be32 (crc_of crc32 (Some (header_bytes p)))"
  shows "decode_result crc32 (d @ rest) len q w =
    (PKT_OK, q\<lparr>WINDOW := WINDOW p, TR := TR p, TYPE_f := TYPE_f p, SEQNUM := SEQNUM p,
       LENGTH_f := LENGTH_f p, TIMESTAMP := TIMESTAMP p,
       CRC1 := htonl (crc_of crc32 (Some (header_bytes p)))\<rparr>, w)"
proof -
  let ?c = "be32 (crc_of crc32 (Some (header_bytes p)))"
  have d: "d @ rest = header_bytes p @ ?c @ rest" by (simp add: d_def)
  have "wire_length (d @ rest) = 0" "\<not> wire_tr (d @ rest)"
    unfolding d using assms(1,2) by (simp_all add: wire_header)
  moreover have "crc1_matches crc32 (d @ rest)" "take 4 (drop 8 (d @ rest)) = ?c"
    unfolding d by (simp_all add: crc1_matches_def)
  moreover have "with_header q (d @ rest) = q\<lparr>WINDOW := WINDOW p, TR := TR p, TYPE_f := TYPE_f p,
      SEQNUM := SEQNUM p, LENGTH_f := LENGTH_f p, TIMESTAMP := TIMESTAMP p\<rparr>"
    unfolding d by (rule with_header_of_header)
  ultimately show ?thesis
    using assms(3) by (simp add: decode_result_def with_crc1_def MAX_PAYLOAD_SIZE_def)
qed

text \<open>An acknowledgement of \<open>k\<close> between \<open>a\<close> and \<open>n\<close>.\<close>

lemma on_ack_step:
  fixes p :: pkt and v' :: int and s :: sstate
  assumes inv: "sinv D W a n v s w" and k: "a \<le> k" "k \<le> n" and "s_window s = v"
    and win: "v' = (if int W > v then int W else v)"
  defines "s1 \<equiv> s\<lparr>s_window := v', s_pkt_send := p, s_ack_received := 1\<rparr>"
  assumes p: "TR p = 0" "TYPE_f p = 1" "PAYLOAD p = PAYLOAD (s_pkt_send s)"
  shows "\<exists>s' w'. on_ack crc32 ops (of_nat k) s1 w = Inr (SRunning s', w') \<and> sinv D W k n (int W) s' w' \<and>
    s_ack_received s' = 1 \<and> s_sent s' = s_sent s \<and> s_endFile s' = s_endFile s \<and> obslog w' = obslog w"
proof -
  note I = sinvD [OF inv] and A = window_atD [OF sinvD(1) [OF inv]]
  have v': "v' = int W" using I(1) win by (auto simp: window_at_def)
  have seq: "uint (of_nat k :: u8) = int (k mod 256)"
    by (simp add: uint_nat unat_of_nat)
  have "(int (k mod 256) - int (a mod 256)) mod 256 = (int k - int a) mod 256"
    by (simp add: zmod_int mod_simps)
  also have "\<dots> = int k - int a"
    using k A(2,6) by (intro mod_pos_pos_trivial) auto
  finally have d: "(int (k mod 256) - int (a mod 256)) mod 256 = int k - int a" .
  have ind: "s_small_ind s = int (a mod W)" by (simp only: I(6) A(8))
  let ?w = "if k = a then w else snd (gettimeofday w)"
  let ?ind = "int k mod int W"
  have "(int (a mod W) + (int k - int a)) mod int W = int k mod int W"
    unfolding zmod_int by (simp add: mod_simps)
  then have ab: "adapt_buffer ops (s_small_seq s1) (uint (of_nat k :: u8)) (s_small_ind s1) (s_window s1) ts tv m fl w =
      Inr (int (k mod 256), ?ind, fl, ?w)" for ts tv m fl
    using adapt_buffer_run [of "int (a mod 256)" "int (k mod 256)" "int W" "int (a mod W)" ops ts tv m fl w] A(1) k
    by (simp add: s1_def v' seq d I(3) ind) (simp add: zmod_int)
  let ?s2 = "s1\<lparr>s_small_seq := int (k mod 256), s_small_ind := ?ind\<rparr>"
  let ?s3 = "if s_endFile s = 1 \<and> ?ind = s_seq_exp s then ?s2\<lparr>s_buffer_empty := 0\<rparr> else ?s2"
  have "on_ack crc32 ops (of_nat k) s1 w = Inr (SRunning ?s3, ?w)"
    unfolding on_ack_def ab using I(7) by (simp add: s1_def Let_def)
  moreover have "window_at W k n (int W)"
    using I(1) k by (auto simp: window_at_def)
  then have "sinv D W k n (int W) ?s3 w"
    using inv p by (auto simp: sinv_def s1_def v')
  then have "sinv D W k n (int W) ?s3 ?w"
    by (rule sinv_keeps) (use I(16,17) in \<open>auto simp: keeps_def heap_ok_def\<close>)
  ultimately show ?thesis
    by (intro exI [of _ ?s3] exI [of _ ?w]) (simp add: s1_def)
qed

lemma uint_window: "W \<le> 31 \<Longrightarrow> uint (word_of_int (int W) :: u8) = int W"
  by (simp add: uint_nat unat_of_nat)

text \<open>A datagram that acknowledges number \<open>k\<close>, positively or negatively, reaches its handler in a
  state that differs from \<open>s\<close> as the invariant allows.\<close>

lemma read_ack_eq:
  assumes inv: "sinv D W a n v s w" and x: "acks x ty (int W) (int (k mod 256))" "TR x = 0"
  shows "\<exists>s0 p. read_sock crc32 ops (SrBytes (ack_bytes crc32 x)) s w =
      (let s1 = s0\<lparr>s_window := int W, s_pkt_send := p, s_ack_received := 1\<rparr> in
       if ty = PTYPE_ACK then on_ack crc32 ops (of_nat k) s1 w
       else if ty = PTYPE_NACK then on_nack crc32 (of_nat k) s1 w
       else Inr (SRunning s1, w)) \<and>
    sinv D W a n v s0 w \<and> TR p = 0 \<and> TYPE_f p = 1 \<and> PAYLOAD p = PAYLOAD (s_pkt_send s0) \<and>
    s_sent s0 = s_sent s \<and> s_endFile s0 = s_endFile s"
proof -
  note I = sinvD [OF inv] and A = window_atD [OF sinvD(1) [OF inv]]
  let ?bs = "ack_bytes crc32 x"
  have len: "length ?bs = 12" "take 528 ?bs = ?bs" by (simp_all add: ack_bytes_def)
  let ?buf = "?bs @ drop 12 (s_packet s)"
  have aw: "arr_write (s_packet s) 0 ?bs = Inr ?buf" "length ?buf = 528"
    using arr_write_datagram [OF I(8), of ?bs] len by simp_all
  define ack where "ack = s_pkt_ack s\<lparr>WINDOW := WINDOW x, TR := TR x, TYPE_f := TYPE_f x, SEQNUM := SEQNUM x,
       LENGTH_f := LENGTH_f x, TIMESTAMP := TIMESTAMP x, CRC1 := htonl (crc_of crc32 (Some (header_bytes x)))\<rparr>"
  have "pkt_decode crc32 ?buf 12 (s_pkt_ack s) w = Inr (decode_result crc32 ?buf 12 (s_pkt_ack s) w)"
    using I(15,18) aw(2) by (intro decode_eq) simp_all
  also have "decode_result crc32 ?buf 12 (s_pkt_ack s) w = (PKT_OK, ack, w)"
    unfolding ack_bytes_def ack_def
    using x by (intro decode_header_image) (simp_all add: acks_def)
  finally have pd: "pkt_decode crc32 ?buf 12 (s_pkt_ack s) w = Inr (PKT_OK, ack, w)" .
  have g: "pkt_get_type ack = ty" "pkt_get_seqnum ack = of_nat k" "uint (pkt_get_window ack) = int W"
    using x(1) uint_window [OF A(2)]
    by (simp_all add: ack_def acks_def pkt_get_type_def pkt_get_seqnum_def pkt_get_window_def u8_of_mod)
  let ?s = "s\<lparr>s_packet := ?buf, s_pkt_ack := ack\<rparr>"
  have inv1: "sinv D W a n v ?s w"
    using inv aw(2) by (simp add: sinv_def ack_def)
  let ?p = "s_pkt_send s\<lparr>WINDOW := ucast (word_of_int (int W) :: u8)\<rparr>"
  have sw: "pkt_set_window (s_pkt_send s) (word_of_int (int W)) = (PKT_OK, ?p)"
    using A(2) uint_window [OF A(2)] by (simp add: pkt_set_window_def MAX_WINDOW_SIZE_def unat_eq_nat_uint)
  have "v = int W \<or> v < int W" using I(1) by (auto simp: window_at_def)
  then have sv: "(if int W > s_window ?s then ?s\<lparr>s_window := int W\<rparr> else ?s) = ?s\<lparr>s_window := int W\<rparr>"
    using I(2) by (cases s) auto
  have "read_sock crc32 ops (SrBytes ?bs) s w = process_ack crc32 ops ?s w"
    unfolding read_sock_def s_read.case len Let_def aw(1) andthen_Inr
    using pd by simp
  also have "\<dots> = (let s1 = ?s\<lparr>s_window := int W, s_pkt_send := ?p, s_ack_received := 1\<rparr> in
       if ty = PTYPE_ACK then on_ack crc32 ops (of_nat k) s1 w
       else if ty = PTYPE_NACK then on_nack crc32 (of_nat k) s1 w
       else Inr (SRunning s1, w))"
    using g sv sw by (simp add: process_ack_def Let_def)
  finally show ?thesis
    using inv1 I(12,13) by (intro exI [of _ ?s] exI [of _ ?p]) simp
qed

lemma ack_step:
  assumes inv: "sinv D W a n v s w" and x: "acks x PTYPE_ACK (int W) (int (k mod 256))" "TR x = 0"
    and k: "a \<le> k" "k \<le> n"
  shows "\<exists>s' w'. read_sock crc32 ops (SrBytes (ack_bytes crc32 x)) s w = Inr (SRunning s', w') \<and>
    sinv D W k n (int W) s' w' \<and>
    s_ack_received s' = 1 \<and> s_sent s' = s_sent s \<and> s_endFile s' = s_endFile s \<and> obslog w' = obslog w"
proof -
  from read_ack_eq [OF inv x, of crc32 ops] obtain s0 p where
    r: "read_sock crc32 ops (SrBytes (ack_bytes crc32 x)) s w =
      on_ack crc32 ops (of_nat k) (s0\<lparr>s_window := int W, s_pkt_send := p, s_ack_received := 1\<rparr>) w"
    and s0: "sinv D W a n v s0 w" "TR p = 0" "TYPE_f p = 1" "PAYLOAD p = PAYLOAD (s_pkt_send s0)"
      "s_sent s0 = s_sent s" "s_endFile s0 = s_endFile s"
    by (auto simp: Let_def)
  have "int W = (if int W > v then int W else v)" using sinvD(1) [OF inv] by (auto simp: window_at_def)
  from on_ack_step [OF s0(1) k sinvD(2) [OF s0(1)] this s0(2-4), of crc32 ops] show ?thesis
    unfolding r using s0(5,6) by simp
qed

end
