(* ===== verification/Sender_Loop.thy ===== *)
theory Sender_Loop
  imports Sender_Laws "HOL-Library.Sublist"
begin

text \<open>
  Runs of the sender's main loop. \<open>s_round\<close> says what one \<open>select\<close> round may bring while the
  sender has \<open>n\<close> chunks sent and \<open>a\<close> acknowledged: the next chunk of the file, its end, an
  acknowledgement in the window, a datagram that \<open>pkt_decode\<close> refuses, or nothing. \<open>s_run\<close> chains
  rounds. Every run is executed without undefined behaviour, every datagram sent is a data packet
  of the transfer, and every chunk read is sent.
\<close>

section \<open>A datagram that is refused\<close>

definition garbage :: "crc_fun \<Rightarrow> bytes \<Rightarrow> bool" where
  "garbage crc32 bs \<longleftrightarrow> bs \<noteq> [] \<and> length bs \<le> 528 \<and>
     (\<forall>rest. decode_verdict crc32 (bs @ rest) (length bs) \<noteq> PKT_OK)"

lemma garbage_step:
  assumes inv: "sinv D W a n v s w" and g: "garbage crc32 bs"
  shows "\<exists>s' w'. read_sock crc32 ops (SrBytes bs) s w = Inr (SRunning s', w') \<and> sinv D W a n v s' w' \<and>
    s_ack_received s' = s_ack_received s \<and> s_sent s' = s_sent s \<and> s_endFile s' = s_endFile s \<and>
    obslog w' = obslog w"
proof -
  note I = sinvD [OF inv]
  have len: "take 528 bs = bs" "length bs \<noteq> 0" using g by (simp_all add: garbage_def)
  let ?buf = "bs @ drop (length bs) (s_packet s)"
  have aw: "arr_write (s_packet s) 0 bs = Inr ?buf" "length ?buf = 528"
    using arr_write_datagram [OF I(8), of bs] g by (simp_all add: garbage_def)
  obtain st ack w' where dr: "decode_result crc32 ?buf (length bs) (s_pkt_ack s) w = (st, ack, w')"
    by (cases "decode_result crc32 ?buf (length bs) (s_pkt_ack s) w")
  have st: "st \<noteq> PKT_OK"
    using fst_decode_result [of crc32 ?buf "length bs" "s_pkt_ack s" w] dr g by (simp add: garbage_def)
  have pd: "pkt_decode crc32 ?buf (length bs) (s_pkt_ack s) w = Inr (st, ack, w')"
    using decode_eq [of ?buf w "s_pkt_ack s" crc32 "length bs"] aw(2) I(15,18) dr by simp
  let ?s = "s\<lparr>s_packet := ?buf, s_pkt_ack := ack\<rparr>"
  have "read_sock crc32 ops (SrBytes bs) s w = Inr (SRunning ?s, w')"
    unfolding read_sock_def s_read.case len(1) Let_def aw(1) andthen_Inr
    using len(2) pd st by simp
  moreover have "mild (s_pkt_ack s) w ack w'" using decode_mild [OF dr] st by simp
  then have "sinv D W a n v ?s w' \<and> obslog w' = obslog w"
    unfolding mild_def
  proof (elim disjE exE conjE)
    show ?thesis if "w' = w" "PAYLOAD ack = PAYLOAD (s_pkt_ack s)"
      using inv aw(2) that by (simp add: sinv_def)
    show ?thesis if w': "w' = stored w xs" and p: "PAYLOAD ack = Some (nalloc w)" for xs
    proof -
      have "sinv D W a n v s w'"
        unfolding w' by (rule sinv_keeps [OF inv keeps_stored [OF I(16)]])
          (use heap_ok_stored [OF I(16)] I(17) in simp_all)
      moreover have "PAYLOAD (s_pkt_send s) \<noteq> Some (nalloc w)"
        using live_nalloc [OF I(16), of "nalloc w"] I(14) by (metis less_irrefl)
      ultimately have "sinv D W a n v ?s w'"
        using aw(2) p by (auto simp: sinv_def w')
      then show ?thesis by (simp add: w')
    qed
  qed
  ultimately show ?thesis by (intro exI [of _ ?s] exI [of _ w']) simp
qed

section \<open>Rounds\<close>

text \<open>What the code takes for room in the window: \<open>seq_exp - small_seq < window\<close>, on numbers of 8 bits.
  It is right up to 255 chunks; later the window may seem to have room when it has none.\<close>

definition not_full :: "nat \<Rightarrow> nat \<Rightarrow> int \<Rightarrow> bool" where
  "not_full a n v \<longleftrightarrow> int (n mod 256) - int (a mod 256) < v"

lemma room_not_full: "a \<le> n \<Longrightarrow> int n - int a < v \<Longrightarrow> not_full a n v"
proof -
  assume a: "a \<le> n" "int n - int a < v"
  then obtain d where "n = a + d" by (metis le_iff_add)
  moreover have "(a + d) mod 256 \<le> a mod 256 + d"
    by (metis mod_add_left_eq mod_less_eq_dividend)
  ultimately show ?thesis using a(2) by (simp add: not_full_def)
qed

lemma not_full_short: "n < 256 \<Longrightarrow> a \<le> n \<Longrightarrow> not_full a n v \<longleftrightarrow> int n - int a < v"
  by (simp add: not_full_def)

text \<open>The file is read only when there is room, or the code sees that there is none.\<close>

inductive file_part :: "(nat \<Rightarrow> bytes) \<Rightarrow> nat \<Rightarrow> nat \<Rightarrow> nat \<Rightarrow> int \<Rightarrow> s_read option \<Rightarrow> nat \<Rightarrow> bool \<Rightarrow> bool \<Rightarrow> bool"
  for D N a n v where
  fp_chunk: "n < N \<Longrightarrow> Suc n < 2 ^ 31 \<Longrightarrow> int n - int a < v \<Longrightarrow>
     file_part D N a n v (Some (SrBytes (D n))) (Suc n) True False"
| fp_end: "n = N \<Longrightarrow> int n - int a < v \<Longrightarrow> file_part D N a n v (Some (SrBytes [])) n False True"
| fp_none: "file_part D N a n v None n False False"
| fp_full: "\<not> not_full a n v \<Longrightarrow> file_part D N a n v f n False False"

inductive sock_part :: "crc_fun \<Rightarrow> nat \<Rightarrow> nat \<Rightarrow> nat \<Rightarrow> int \<Rightarrow> s_read option \<Rightarrow> nat \<Rightarrow> int \<Rightarrow> bool \<Rightarrow> bool"
  for crc32 W a n v where
  sp_none: "sock_part crc32 W a n v None a v False"
| sp_ack: "acks x PTYPE_ACK (int W) (int (k mod 256)) \<Longrightarrow> TR x = 0 \<Longrightarrow> a \<le> k \<Longrightarrow> k \<le> n \<Longrightarrow>
     sock_part crc32 W a n v (Some (SrBytes (ack_bytes crc32 x))) k (int W) True"
| sp_garbage: "garbage crc32 bs \<Longrightarrow> sock_part crc32 W a n v (Some (SrBytes bs)) a v False"

text \<open>The last condition excludes the rounds in which the timer runs out although no slot was
  filled yet that it could send again.\<close>

inductive s_round ::
    "crc_fun \<Rightarrow> (nat \<Rightarrow> bytes) \<Rightarrow> nat \<Rightarrow> nat \<Rightarrow> bool \<Rightarrow> nat \<Rightarrow> nat \<Rightarrow> int \<Rightarrow> s_event \<Rightarrow> nat \<Rightarrow> nat \<Rightarrow> int \<Rightarrow> bool \<Rightarrow> bool"
  for crc32 D N W fg a n v where
  round: "file_part D N a n v f n' snt ended \<Longrightarrow> sock_part crc32 W a n' v r a' v' got \<Longrightarrow>
     (fg \<and> \<not> snt \<and> \<not> got \<Longrightarrow> 0 < n' \<and> (a' < n' \<or> W \<le> n')) \<Longrightarrow>
     s_round crc32 D N W fg a n v \<lparr>ev_file = f, ev_sock = r\<rparr> a' n' v' ended"

inductive s_run ::
    "crc_fun \<Rightarrow> (nat \<Rightarrow> bytes) \<Rightarrow> nat \<Rightarrow> nat \<Rightarrow> bool \<Rightarrow> nat \<Rightarrow> nat \<Rightarrow> int \<Rightarrow> s_event list \<Rightarrow> nat \<Rightarrow> nat \<Rightarrow> int \<Rightarrow> bool \<Rightarrow> bool"
  for crc32 D N W fg where
  run_nil: "s_run crc32 D N W fg a n v [] a n v False"
| run_end: "s_round crc32 D N W fg a n v ev a' n' v' True \<Longrightarrow> s_run crc32 D N W fg a n v (ev # late) a' n' v' True"
| run_step: "s_round crc32 D N W fg a n v ev a1 n1 v1 False \<Longrightarrow> s_run crc32 D N W fg a1 n1 v1 evs a' n' v' e \<Longrightarrow>
     s_run crc32 D N W fg a n v (ev # evs) a' n' v' e"

inductive_cases s_roundE: "s_round crc32 D N W fg a n v ev a' n' v' e"

section \<open>Their execution\<close>

text \<open>What a part of a round sends: the data packets of the chunks \<open>js\<close>.\<close>

definition sends :: "crc_fun \<Rightarrow> (nat \<Rightarrow> bytes) \<Rightarrow> nat list \<Rightarrow> world \<Rightarrow> world \<Rightarrow> bool" where
  "sends crc32 D js w w' \<longleftrightarrow>
     (\<exists>bss. obslog w' = obslog w @ map Sent bss \<and> list_all2 (data_packet crc32 D) js bss)"

lemma sends_Nil: "obslog w' = obslog w \<Longrightarrow> sends crc32 D [] w w'"
  by (simp add: sends_def)

lemma sends_one: "obslog w' = obslog w @ [Sent bs] \<Longrightarrow> data_packet crc32 D j bs \<Longrightarrow> sends crc32 D [j] w w'"
  by (auto simp: sends_def intro: exI [of _ "[bs]"])

lemma sends_append: "sends crc32 D js w w1 \<Longrightarrow> sends crc32 D ks w1 w2 \<Longrightarrow> sends crc32 D (js @ ks) w w2"
  unfolding sends_def by (metis append.assoc list_all2_appendI map_append)

lemma may_read_room:
  assumes "sinv D W a n v s w" "s_endFile s = 0"
  shows "may_read s \<longleftrightarrow> not_full a n v"
  using assms window_atD [OF sinvD(1) [OF assms(1)]]
  by (auto simp: may_read_def sinv_def not_full_def)

definition file_action :: "crc_fun \<Rightarrow> bool \<Rightarrow> s_event \<Rightarrow> sstate \<Rightarrow> world \<Rightarrow> (sstate sctl \<times> world) outcome" where
  "file_action crc32 rd ev s w =
     (case ev_file ev of Some r \<Rightarrow> if rd then read_file crc32 r s w else Inr (SRunning s, w)
      | None \<Rightarrow> Inr (SRunning s, w))"

definition sock_action :: "crc_fun \<Rightarrow> 'd dbl \<Rightarrow> s_event \<Rightarrow> sstate \<Rightarrow> world \<Rightarrow> (sstate sctl \<times> world) outcome" where
  "sock_action crc32 ops ev s w =
     (case ev_sock ev of Some r \<Rightarrow> read_sock crc32 ops r s w | None \<Rightarrow> Inr (SRunning s, w))"

lemma send_step_parts:
  "0 \<le> sfd \<Longrightarrow> 0 \<le> fd \<Longrightarrow> send_step crc32 ops fg sfd fd ev s w =
     ctl_bind (file_action crc32 (may_read s) ev (s\<lparr>s_sent := 0, s_ack_received := 0\<rparr>) w) (\<lambda>s1 w1.
     ctl_bind (sock_action crc32 ops ev s1 w1) (\<lambda>s2 w2. timer_part crc32 fg s2 w2))"
  by (simp add: send_step_def file_action_def sock_action_def Let_def)

lemma read_end:
  assumes "sinv D W a n v s w"
  shows "read_file crc32 (SrBytes []) s w = Inr (SRunning (s\<lparr>s_endFile := 1\<rparr>), w)"
proof -
  have "c_mod (s_seq_ind s) (s_window s) = Inr (int n mod v)"
    using sinvD [OF assms] window_atD(7) [OF sinvD(1) [OF assms]] by simp
  moreover have "s\<lparr>s_read_tmp := s_read_tmp s\<rparr> = s" by simp
  ultimately show ?thesis
    by (simp add: read_file_def Let_def arr_write_def)
qed

lemma file_action_ok:
  assumes inv: "sinv D W a n v s w" "s_endFile s = 0" "s_sent s = 0"
    and part: "file_part D N a n v (ev_file ev) n' snt ended"
    and chunks: "\<And>j. j < N \<Longrightarrow> D j \<noteq> [] \<and> length (D j) \<le> 512"
  shows "\<exists>s' w' js. file_action crc32 (not_full a n v) ev s w = Inr (SRunning s', w') \<and>
    sinv D W a n' v s' w' \<and> s_sent s' = (if snt then 1 else 0) \<and> s_endFile s' = (if ended then 1 else 0) \<and>
    s_ack_received s' = s_ack_received s \<and> sends crc32 D js w w' \<and> js = [n..<n']"
  using part
proof cases
  case fp_chunk
  then have nf: "not_full a n v"
    using room_not_full window_atD(3) [OF sinvD(1) [OF inv(1)]] by blast
  from fp_chunk have D: "D n \<noteq> []" "length (D n) \<le> 512" "int n - int a < v" "Suc n < 2 ^ 31" using chunks by auto
  from file_step [OF inv(1) D(3,4,1,2) inv(2), of crc32] obtain s' w' im where
    "read_file crc32 (SrBytes (D n)) s w = Inr (SRunning s', w')" "sinv D W a (Suc n) v s' w'"
    "s_sent s' = 1" "s_endFile s' = 0" "s_ack_received s' = s_ack_received s"
    "obslog w' = obslog w @ [Sent im]" "data_packet crc32 D n im"
    by blast
  with fp_chunk nf show ?thesis
    by (intro exI [of _ s'] exI [of _ w'] exI [of _ "[n]"]) (auto simp: file_action_def intro: sends_one)
next
  case fp_end
  then have nf: "not_full a n v"
    using room_not_full window_atD(3) [OF sinvD(1) [OF inv(1)]] by blast
  have "sinv D W a n v (s\<lparr>s_endFile := 1\<rparr>) w" using inv(1) by (simp add: sinv_def)
  with fp_end nf inv read_end [OF inv(1), of crc32] show ?thesis
    by (intro exI [of _ "s\<lparr>s_endFile := 1\<rparr>"] exI [of _ w] exI [of _ "[]"])
      (simp add: file_action_def sends_Nil)
next
  case fp_none
  with inv show ?thesis by (auto simp: file_action_def intro: sends_Nil)
next
  case fp_full
  with inv show ?thesis by (auto simp: file_action_def intro: sends_Nil split: option.splits)
qed

lemma sock_action_ok:
  assumes inv: "sinv D W a n v s w" "s_ack_received s = 0"
    and part: "sock_part crc32 W a n v (ev_sock ev) a' v' got"
  shows "\<exists>s' w'. sock_action crc32 ops ev s w = Inr (SRunning s', w') \<and> sinv D W a' n v' s' w' \<and>
    s_ack_received s' = (if got then 1 else 0) \<and> s_sent s' = s_sent s \<and> s_endFile s' = s_endFile s \<and>
    obslog w' = obslog w"
  using part
proof cases
  case sp_none
  with inv show ?thesis by (simp add: sock_action_def)
next
  case (sp_ack x)
  with ack_step [OF inv(1), of x a' crc32 ops] show ?thesis by (simp add: sock_action_def)
next
  case (sp_garbage bs)
  with garbage_step [OF inv(1), of crc32 bs ops] inv(2) show ?thesis by (simp add: sock_action_def)
qed

lemma timer_part_ok:
  assumes inv: "sinv D W a n v s w" and sa: "s_sent s = (if snt then 1 else 0)" "s_ack_received s = (if got then 1 else 0)"
    and ok: "fg \<and> \<not> snt \<and> \<not> got \<Longrightarrow> 0 < n \<and> (a < n \<or> W \<le> n)"
  shows "\<exists>s' w' js. timer_part crc32 fg s w = Inr (SRunning s', w') \<and> sinv D W a n v s' w' \<and>
    s_endFile s' = s_endFile s \<and> sends crc32 D js w w' \<and> set js \<subseteq> {..<n} \<and> (\<forall>j\<in>set js. n \<le> j + W)"
proof (cases "fg \<and> \<not> snt \<and> \<not> got")
  case True
  with ok have "a < n \<or> W \<le> n" "0 < n" by auto
  from resend_ok [OF inv this, of crc32] obtain bs s' where
    r: "resend_oldest crc32 s w = Inr (SRunning s', sent w bs)" "data_packet crc32 D (oldest W a n) bs"
      "oldest W a n < n" "sinv D W a n v s' (sent w bs)" "s_endFile s' = s_endFile s"
    by blast
  moreover have "sends crc32 D [oldest W a n] w (sent w bs)"
    using r(2) sinvD(17) [OF inv] by (intro sends_one) simp_all
  moreover have old: "n \<le> oldest W a n + W"
    using window_atD(6) [OF sinvD(1) [OF inv]] by (auto simp: oldest_def)
  ultimately show ?thesis
    using True sa by (intro exI [of _ s'] exI [of _ "sent w bs"] exI [of _ "[oldest W a n]"])
      (simp add: timer_part_def)
next
  case False
  then have "timer_part crc32 fg s w = Inr (SRunning s, w)" using sa by (auto simp: timer_part_def)
  with inv show ?thesis by (auto intro: sends_Nil)
qed

lemma round_ok:
  assumes inv: "sinv D W a n v s w" "s_endFile s = 0" and r: "s_round crc32 D N W fg a n v ev a' n' v' e"
    and fds: "0 \<le> sfd" "0 \<le> fd" and chunks: "\<And>j. j < N \<Longrightarrow> D j \<noteq> [] \<and> length (D j) \<le> 512"
  shows "\<exists>s' w' js. send_step crc32 ops fg sfd fd ev s w = Inr (SRunning s', w') \<and> sinv D W a' n' v' s' w' \<and>
    s_endFile s' = (if e then 1 else 0) \<and> sends crc32 D js w w' \<and> subseq [n..<n'] js \<and> set js \<subseteq> {..<n'} \<and>
    (\<forall>j\<in>set js. n' \<le> j + W)"
proof -
  from r obtain snt got where
    f: "file_part D N a n v (ev_file ev) n' snt e" and k: "sock_part crc32 W a n' v (ev_sock ev) a' v' got"
    and t: "fg \<and> \<not> snt \<and> \<not> got \<longrightarrow> 0 < n' \<and> (a' < n' \<or> W \<le> n')"
    by (elim s_roundE) auto
  let ?s0 = "s\<lparr>s_sent := 0, s_ack_received := 0\<rparr>"
  have i0: "sinv D W a n v ?s0 w" using inv(1) by (simp add: sinv_def)
  have mr: "may_read s \<longleftrightarrow> not_full a n v" by (rule may_read_room [OF inv])
  from file_action_ok [OF i0 _ _ f chunks, of crc32] inv(2) obtain s1 w1 js1 where
    1: "file_action crc32 (not_full a n v) ev ?s0 w = Inr (SRunning s1, w1)" "sinv D W a n' v s1 w1"
      "s_sent s1 = (if snt then 1 else 0)" "s_endFile s1 = (if e then 1 else 0)" "s_ack_received s1 = 0"
      "sends crc32 D js1 w w1" "js1 = [n..<n']"
    by auto
  from sock_action_ok [OF 1(2,5) k, of ops] obtain s2 w2 where
    2: "sock_action crc32 ops ev s1 w1 = Inr (SRunning s2, w2)" "sinv D W a' n' v' s2 w2"
      "s_ack_received s2 = (if got then 1 else 0)" "s_sent s2 = s_sent s1" "s_endFile s2 = s_endFile s1"
      "obslog w2 = obslog w1"
    by blast
  have "s_sent s2 = (if snt then 1 else 0)" using 2(4) 1(3) by simp
  from timer_part_ok [OF 2(2) this 2(3), of fg crc32] t obtain s3 w3 js3 where
    3: "timer_part crc32 fg s2 w2 = Inr (SRunning s3, w3)" "sinv D W a' n' v' s3 w3"
      "s_endFile s3 = s_endFile s2" "sends crc32 D js3 w2 w3" "set js3 \<subseteq> {..<n'}" "\<forall>j\<in>set js3. n' \<le> j + W"
    by blast
  have "n' \<le> Suc n" using f by cases simp_all
  then have js1: "\<forall>j\<in>set js1. n' \<le> j + W"
    using window_atD(1) [OF sinvD(1) [OF inv(1)]] by (auto simp: 1(7))
  have "send_step crc32 ops fg sfd fd ev s w = Inr (SRunning s3, w3)"
    using fds 1(1) 2(1) 3(1) by (simp add: send_step_parts mr)
  moreover have "sends crc32 D (js1 @ js3) w w3"
    using 1(6) 3(4) 2(6) by (intro sends_append [of crc32 D js1 w w1]) (simp_all add: sends_def)
  ultimately show ?thesis
    using 3 2(5) 1(4,7) js1 by (intro exI [of _ s3] exI [of _ w3] exI [of _ "js1 @ js3"]) auto
qed

lemma file_part_mono: "file_part D N a n v f n' snt e \<Longrightarrow> n \<le> n'"
  by (induction rule: file_part.induct) simp_all

lemma s_round_mono: "s_round crc32 D N W fg a n v ev a' n' v' e \<Longrightarrow> n \<le> n'"
  by (auto elim!: s_roundE dest: file_part_mono)

lemma run_ok:
  assumes "s_run crc32 D N W fg a n v evs a' n' v' e" "sinv D W a n v s w" "s_endFile s = 0"
    and fds: "0 \<le> sfd" "0 \<le> fd" and chunks: "\<And>j. j < N \<Longrightarrow> D j \<noteq> [] \<and> length (D j) \<le> 512"
  shows "\<exists>s' left w' js. send_loop crc32 ops fg sfd fd evs s w = Inr (SRunning s', left, w') \<and>
    sinv D W a' n' v' s' w' \<and> s_endFile s' = (if e then 1 else 0) \<and> n \<le> n' \<and>
    sends crc32 D js w w' \<and> subseq [n..<n'] js \<and> set js \<subseteq> {..<n'}"
  using assms(1-3)
proof (induction arbitrary: s w rule: s_run.induct)
  case (run_nil a n v)
  then show ?case by (intro exI [of _ s] exI [of _ "[]"] exI [of _ w]) (simp add: sends_Nil)
next
  case (run_end a n v ev a' n' v' late)
  from round_ok [OF run_end(2,3,1) fds chunks, of ops] obtain s' w' js where
    r: "send_step crc32 ops fg sfd fd ev s w = Inr (SRunning s', w')" "sinv D W a' n' v' s' w'"
      "s_endFile s' = 1" "sends crc32 D js w w'" "subseq [n..<n'] js" "set js \<subseteq> {..<n'}"
    by auto
  have "send_loop crc32 ops fg sfd fd late s' w' = Inr (SRunning s', late, w')"
    using r(3) by (cases late) (simp_all add: going_def)
  with r run_end(3) s_round_mono [OF run_end(1)] show ?case
    by (intro exI [of _ s'] exI [of _ late] exI [of _ w'] exI [of _ js]) (simp add: going_def)
next
  case (run_step a n v ev a1 n1 v1 evs a' n' v' e)
  from round_ok [OF run_step.prems run_step.hyps(1) fds chunks, of ops] obtain s1 w1 js1 where
    r: "send_step crc32 ops fg sfd fd ev s w = Inr (SRunning s1, w1)" "sinv D W a1 n1 v1 s1 w1"
      "s_endFile s1 = 0" "sends crc32 D js1 w w1" "subseq [n..<n1] js1" "set js1 \<subseteq> {..<n1}"
    by auto
  from run_step.IH [OF r(2,3)] obtain s2 left w2 js2 where
    q: "send_loop crc32 ops fg sfd fd evs s1 w1 = Inr (SRunning s2, left, w2)" "sinv D W a' n' v' s2 w2"
      "s_endFile s2 = (if e then 1 else 0)" "n1 \<le> n'" "sends crc32 D js2 w1 w2" "subseq [n1..<n'] js2"
      "set js2 \<subseteq> {..<n'}"
    by blast
  have "sends crc32 D (js1 @ js2) w w2" by (rule sends_append [OF r(4) q(5)])
  moreover have "[n..<n'] = [n..<n1] @ [n1..<n']"
    using s_round_mono [OF run_step.hyps(1)] q(4) by (metis le_add_diff_inverse upt_add_eq_append)
  then have "subseq [n..<n'] (js1 @ js2)" using r(5) q(6) by (simp add: list_emb_append_mono)
  moreover have "set (js1 @ js2) \<subseteq> {..<n'}" using r(6) q(4,7) by auto
  moreover have "send_loop crc32 ops fg sfd fd (ev # evs) s w = Inr (SRunning s2, left, w2)"
    using r(1) q(1) run_step.prems(2) by (simp add: going_def)
  ultimately show ?case
    using q s_round_mono [OF run_step.hyps(1)]
    by (intro exI [of _ s2] exI [of _ left] exI [of _ w2] exI [of _ "js1 @ js2"]) simp
qed

text \<open>The state in which the loop starts.\<close>

lemma send_init_ok:
  assumes "env_good w" "heap_ok w" "1 \<le> W" "W \<le> 31" "length pe = 528" "length rt = 512"
  shows "\<exists>s w1. send_init pe rt w = Inr (Some s, w1) \<and> sinv D W 0 0 1 s w1 \<and> s_endFile s = 0 \<and>
    obslog w1 = obslog w"
  using assms
  by (simp add: send_init_def pkt_new_def env_good_def Let_def pkt_set_window_def MAX_WINDOW_SIZE_def
      pkt_copy_def sinv_def window_at_def heap_ok_def)

end
