(* ===== verification/Sender_End.thy ===== *)
theory Sender_End
  imports Sender_Loop
begin

text \<open>
  The exchange of the end packet: what each round writes, and how the loop ends.
\<close>

definition wrote :: "world \<Rightarrow> bytes \<Rightarrow> world" where
  "wrote w bs = w\<lparr>nwrite := Suc (nwrite w), obslog := obslog w @ [Sent bs]\<rparr>"

lemma wrote_sel [simp]:
  "mem (wrote w bs) = mem w" "nalloc (wrote w bs) = nalloc w" "oom (wrote w bs) = oom w"
  "wfail (wrote w bs) = wfail w" "obslog (wrote w bs) = obslog w @ [Sent bs]"
  by (simp_all add: wrote_def)

lemma wrote_frame [simp]:
  "env_good (wrote w bs) = env_good w" "live (wrote w bs) = live w" "heap_ok (wrote w bs) = heap_ok w"
  by (simp_all add: env_good_def live_def heap_ok_def fun_eq_iff split: option.splits)

lemma live_mem_eq: "mem w' = mem w \<Longrightarrow> live w' p = live w p"
  by (simp add: live_def split: option.splits)

lemma send_packet_wrote:
  assumes "env_good w" "tmp \<le> length (s_packet s)"
  shows "send_packet tmp s w = Inr (SRunning s, wrote w (take tmp (s_packet s)))"
  using assms by (simp add: send_packet_def arr_read_def do_write_def Let_def env_good_def wrote_def)

lemma end_round_idle:
  assumes "env_good w" "tmp \<le> length (s_packet s)" "ev_sock ev = None"
  shows "end_round crc32 tmp ev s w = Inr (False, SRunning s, wrote w (take tmp (s_packet s)))"
  using assms by (simp add: end_round_def send_packet_wrote)

lemma end_loop_idle:
  assumes "env_good w" "tmp \<le> length (s_packet s)" "\<And>ev. ev \<in> set evs \<Longrightarrow> ev_sock ev = None"
  shows "\<exists>w'. end_loop crc32 tmp (evs @ late) s w = end_loop crc32 tmp late s w' \<and>
    obslog w' = obslog w @ replicate (length evs) (Sent (take tmp (s_packet s))) \<and> mem w' = mem w \<and>
    nalloc w' = nalloc w \<and> env_good w'"
  using assms
proof (induction evs arbitrary: w)
  case Nil
  then show ?case by (intro exI [of _ w]) simp
next
  case (Cons ev evs)
  let ?bs = "take tmp (s_packet s)"
  have "end_round crc32 tmp ev s w = Inr (False, SRunning s, wrote w ?bs)"
    using Cons.prems by (intro end_round_idle) simp_all
  then have 1: "end_loop crc32 tmp ((ev # evs) @ late) s w = end_loop crc32 tmp (evs @ late) s (wrote w ?bs)"
    by simp
  have "env_good (wrote w ?bs)" using Cons.prems(1) by simp
  from Cons.IH [OF this Cons.prems(2)] Cons.prems(3) obtain w' where
    "end_loop crc32 tmp (evs @ late) s (wrote w ?bs) = end_loop crc32 tmp late s w'"
    "obslog w' = obslog (wrote w ?bs) @ replicate (length evs) (Sent ?bs)" "mem w' = mem (wrote w ?bs)"
    "nalloc w' = nalloc (wrote w ?bs)" "env_good w'"
    by auto
  with 1 show ?case by (intro exI [of _ w']) simp
qed

text \<open>A round with a datagram that \<open>pkt_decode\<close> accepts ends the loop.\<close>

lemma end_round_accept:
  assumes "env_good w" "length (s_packet s) = 528" "tmp \<le> 528"
    and "ev_sock ev = Some r" "bs = (case r of SrErr \<Rightarrow> [] | SrBytes bs0 \<Rightarrow> take 528 bs0)"
    and "len = (case r of SrErr \<Rightarrow> 2 ^ 64 - 1 | SrBytes bs0 \<Rightarrow> length bs)"
    and "decode_result crc32 (put_at 0 bs (s_packet s)) len (s_pkt_ack s) (wrote w (take tmp (s_packet s))) = (st, ack, w')"
    and "live w (PAYLOAD (s_pkt_ack s))"
  shows "end_round crc32 tmp ev s w =
    Inr (st = PKT_OK, SRunning (s\<lparr>s_packet := put_at 0 bs (s_packet s), s_pkt_ack := ack\<rparr>), w')"
proof -
  have len: "length bs \<le> 528" using assms(5) by (simp split: s_read.splits)
  then have "arr_write (s_packet s) 0 bs = Inr (put_at 0 bs (s_packet s))" "length (put_at 0 bs (s_packet s)) = 528"
    using assms(2) by (simp_all add: arr_write_def)
  moreover have "\<not> oom (wrote w bs') k" for bs' k using assms(1) by (simp add: env_good_def)
  ultimately show ?thesis
    using assms(1-4,8) decode_eq [of "put_at 0 bs (s_packet s)" "wrote w (take tmp (s_packet s))" "s_pkt_ack s" crc32 len]
    by (simp add: end_round_def send_packet_wrote Let_def assms(5) [symmetric] assms(6) [symmetric] assms(7))
qed

lemma end_loop_accept:
  assumes "end_round crc32 tmp ev s w = Inr (True, SRunning s1, w1)"
    and "live w1 (PAYLOAD (s_pkt_ack s1))" "live w1 (PAYLOAD (s_pkt_send s1))"
    and "PAYLOAD (s_pkt_ack s1) = None \<or> PAYLOAD (s_pkt_ack s1) \<noteq> PAYLOAD (s_pkt_send s1)"
  shows "\<exists>w'. end_loop crc32 tmp (ev # late) s w = Inr (SReturned, w') \<and> obslog w' = obslog w1"
proof -
  let ?w2 = "released w1 (PAYLOAD (s_pkt_ack s1))"
  have "live ?w2 (PAYLOAD (s_pkt_send s1))"
    using assms(3,4) by (auto simp: live_def released_def split: option.splits)
  then show ?thesis
    using assms(1,2) by (simp add: pkt_del_def free_released)
qed

text \<open>The state in which the end packet is exchanged.\<close>

lemma end_start_ok:
  assumes inv: "sinv D W a n v s w"
  shows "\<exists>im p s1. end_start crc32 s w = Inr (12, SRunning s1, snd (gettimeofday w)) \<and>
    im = packet_image crc32 (header_bytes p) [] \<and> shown p [] \<and> TYPE_f p = 1 \<and> SEQNUM p = of_nat n \<and>
    s_packet s1 = im @ drop 16 (s_packet s) \<and> s_pkt_ack s1 = s_pkt_ack s \<and>
    PAYLOAD (s_pkt_send s1) = PAYLOAD (s_pkt_send s)"
proof -
  note I = sinvD [OF inv]
  let ?p2 = "s_pkt_send s\<lparr>LENGTH_f := 0, SEQNUM := of_nat n\<rparr>"
  let ?p = "?p2\<lparr>TIMESTAMP := stamp w\<rparr>"
  let ?im = "packet_image crc32 (header_bytes ?p) []"
  let ?s1 = "s\<lparr>s_pkt_send := encoded crc32 ?p2 [] w, s_packet := ?im @ drop 16 (s_packet s)\<rparr>"
  have "payload_is ?p2 w []" using I(12) by simp
  from encode_ok [OF this, of "s_packet s" crc32 528] I(8)
  have "pkt_encode crc32 ?p2 (s_packet s) 528 w =
      Inr (PKT_OK, 12, ?im @ drop 16 (s_packet s), encoded crc32 ?p2 [] w, snd (gettimeofday w))"
    by (simp add: wire_len_def)
  moreover have "pkt_set_length (s_pkt_send s) 0 = (PKT_OK, s_pkt_send s\<lparr>LENGTH_f := 0\<rparr>)"
    by (simp add: pkt_set_length_def)
  ultimately have "end_start crc32 s w = Inr (12, SRunning ?s1, snd (gettimeofday w))"
    by (simp add: end_start_def pkt_set_seqnum_def Let_def I(4) u8_of_mod)
  moreover have "shown ?p []" "TYPE_f ?p = 1" using I(12,13) by (simp_all add: shown_def)
  ultimately show ?thesis
    by (intro exI [of _ ?im] exI [of _ ?p] exI [of _ ?s1]) (simp add: encoded_def Let_def)
qed

lemma send_end_start:
  assumes "sinv D W a n v s w"
  shows "\<exists>im p s1. send_end crc32 evs s w = end_loop crc32 12 evs s1 (snd (gettimeofday w)) \<and>
    im = packet_image crc32 (header_bytes p) [] \<and> shown p [] \<and> TYPE_f p = 1 \<and> SEQNUM p = of_nat n \<and>
    s_packet s1 = im @ drop 16 (s_packet s) \<and> s_pkt_ack s1 = s_pkt_ack s \<and>
    PAYLOAD (s_pkt_send s1) = PAYLOAD (s_pkt_send s)"
  using end_start_ok [OF assms, of crc32] by (force simp: send_end_def)

text \<open>What the exchange of the end packet needs of a state.\<close>

definition end_state :: "crc_fun \<Rightarrow> sstate \<Rightarrow> world \<Rightarrow> bool" where
  "end_state crc32 s w \<longleftrightarrow>
     env_good w \<and> length (s_packet s) = 528 \<and> end_event crc32 (R_ready (RdBytes (take 12 (s_packet s)))) \<and>
     live w (PAYLOAD (s_pkt_ack s)) \<and> live w (PAYLOAD (s_pkt_send s)) \<and>
     (PAYLOAD (s_pkt_ack s) = None \<or> PAYLOAD (s_pkt_ack s) \<noteq> PAYLOAD (s_pkt_send s))"

lemma end_state_mem_eq: "end_state crc32 s w \<Longrightarrow> mem w' = mem w \<Longrightarrow> env_good w' \<Longrightarrow> end_state crc32 s w'"
  using live_mem_eq [of w' w] by (simp add: end_state_def)

lemma end_start_state:
  assumes "sinv D W a n v s w"
  shows "\<exists>s1. end_start crc32 s w = Inr (12, SRunning s1, snd (gettimeofday w)) \<and>
    end_state crc32 s1 (snd (gettimeofday w))"
proof -
  note I = sinvD [OF assms]
  from end_start_ok [OF assms, of crc32] obtain im p s1 where
    st: "end_start crc32 s w = Inr (12, SRunning s1, snd (gettimeofday w))"
    and im: "im = packet_image crc32 (header_bytes p) []" "shown p []" "TYPE_f p = 1"
    and s1: "s_packet s1 = im @ drop 16 (s_packet s)" "s_pkt_ack s1 = s_pkt_ack s"
      "PAYLOAD (s_pkt_send s1) = PAYLOAD (s_pkt_send s)"
    by blast
  have "length (s_packet s1) = 528" "take 12 (s_packet s1) = take 12 im"
    using I(8) im(1) by (simp_all add: s1(1))
  moreover have "end_event crc32 (R_ready (RdBytes (take 12 im)))"
    using im unfolding end_event_def by blast
  ultimately have "end_state crc32 s1 (snd (gettimeofday w))"
    using I(14,15,17,21) by (simp add: end_state_def s1(2,3) live_mem_eq [of "snd (gettimeofday w)" w])
  with st show ?thesis by blast
qed

text \<open>A round that gets an acknowledgement is the last one.\<close>

lemma end_loop_answer:
  assumes "end_state crc32 s w" "ev_sock ev = Some (SrBytes (ack_bytes crc32 x))" "TR x = 0" "LENGTH_f x = 0"
  shows "\<exists>w'. end_loop crc32 12 (ev # late) s w = Inr (SReturned, w') \<and>
    obslog w' = obslog w @ [Sent (take 12 (s_packet s))]"
proof -
  note E = assms(1) [unfolded end_state_def]
  let ?bs = "ack_bytes crc32 x" and ?w = "wrote w (take 12 (s_packet s))"
  have env: "env_good w" and len: "length (s_packet s) = 528" using E by simp_all
  have bs: "take 528 ?bs = ?bs" "length ?bs = 12" by (simp_all add: ack_bytes_def)
  obtain ack where dr: "decode_result crc32 (put_at 0 ?bs (s_packet s)) 12 (s_pkt_ack s) ?w = (PKT_OK, ack, ?w)"
    and ack: "PAYLOAD ack = PAYLOAD (s_pkt_ack s)"
    using decode_header_image [OF assms(3,4), of 12 crc32 "drop 12 (s_packet s)" "s_pkt_ack s" ?w] bs(2)
    by (simp add: put_at_0 ack_bytes_def)
  have c: "(12 :: nat) \<le> 528" "?bs = (case SrBytes ?bs of SrErr \<Rightarrow> [] | SrBytes b \<Rightarrow> take 528 b)"
    "12 = (case SrBytes ?bs of SrErr \<Rightarrow> 2 ^ 64 - 1 | SrBytes b \<Rightarrow> length ?bs)"
    by (simp_all only: s_read.case bs)
  have "end_round crc32 12 ev s w =
      Inr (True, SRunning (s\<lparr>s_packet := put_at 0 ?bs (s_packet s), s_pkt_ack := ack\<rparr>), ?w)"
    using end_round_accept [OF env len c(1) assms(2) c(2,3) dr] E by (simp only: simp_thms)
  from end_loop_accept [OF this, of late] ack E show ?thesis by auto
qed

end
