(* ===== verification/Receiver_Loop.thy ===== *)
theory Receiver_Loop
  imports Receiver_Run
begin

text \<open>
  The receive loop and the end of the transfer: the invariant over any list of events the
  network allows, delivery of every chunk that arrives in order, and the final
  acknowledgements.
\<close>

section \<open>What may arrive\<close>

text \<open>A data packet of the transfer may arrive at any time, as long as its distance from the
  chunk expected next is unambiguous in 8 bits: at most \<open>256 - W\<close> behind, less than 256 ahead.\<close>

definition arrival ::
    "crc_fun \<Rightarrow> (nat \<Rightarrow> bytes) \<Rightarrow> nat \<Rightarrow> nat \<Rightarrow> rstate \<Rightarrow> world \<Rightarrow> r_event \<Rightarrow> bool" where
  "arrival crc32 D N W s w ev \<longleftrightarrow>
     harmless crc32 (r_packet s) ev \<or> end_event crc32 ev \<or>
     (\<exists>n<N. data_event crc32 D n ev \<and>
        writes_of (obslog w) \<le> n + (256 - W) \<and> n < writes_of (obslog w) + 256)"

fun admissible ::
    "crc_fun \<Rightarrow> (nat \<Rightarrow> bytes) \<Rightarrow> nat \<Rightarrow> nat \<Rightarrow> r_event list \<Rightarrow> rstate \<Rightarrow> world \<Rightarrow> bool" where
  "admissible crc32 D N W [] s w = True"
| "admissible crc32 D N W (ev # evs) s w =
     (r_end_file s \<or>
      arrival crc32 D N W s w ev \<and>
      (case receive_step crc32 (int W) ev s w of
         Inr (Running s', w') \<Rightarrow> admissible crc32 D N W evs s' w'
       | _ \<Rightarrow> True))"

section \<open>The loop\<close>

lemma arrival_step:
  assumes inv: "rinv D N W e s w" and ev: "arrival crc32 D N W s w ev"
  shows "\<exists>s' w' e'. receive_step crc32 (int W) ev s w = Inr (Running s', w') \<and>
    rinv D N W e' s' w' \<and> e \<le> e' \<and> (r_end_file s' \<longrightarrow> r_end_file s \<or> end_event crc32 ev)"
proof -
  have e: "writes_of (obslog w) = e" using rinvD(16) [OF inv] .
  consider "harmless crc32 (r_packet s) ev" | "end_event crc32 ev"
    | n where "n < N" "data_event crc32 D n ev" "e \<le> n + (256 - W)" "n < e + 256"
    using ev by (auto simp: arrival_def e)
  then show ?thesis
  proof cases
    case 1
    from harmless_step [OF inv this] show ?thesis by auto
  next
    case 2
    from end_step [OF inv this] 2 show ?thesis by auto
  next
    case 3
    from data_step [OF inv 3(2,1,3,4)] show ?thesis by metis
  qed
qed

lemma expected_step:
  assumes inv: "rinv D N W e s w" and ev: "data_event crc32 D e ev" "e < N"
  shows "\<exists>s' w' e'. receive_step crc32 (int W) ev s w = Inr (Running s', w') \<and>
    rinv D N W e' s' w' \<and> e < e' \<and> r_end_file s' = r_end_file s"
proof -
  have W: "0 < W" "W \<le> 31" using rinvD [OF inv] by auto
  from data_step [OF inv ev] obtain s' w' e' where
    st: "receive_step crc32 (int W) ev s w = Inr (Running s', w')" "rinv D N W e' s' w'"
      "r_end_file s' = r_end_file s"
    and sp: "spec_data W (e, held W e (r_index s) (r_buf s)) e = (e', held W e' (r_index s') (r_buf s'))"
    by auto
  have "takes W e e" using W by (auto simp: takes_def)
  then have "e < e'"
    using sp W(1) by (auto simp: spec_data_def Let_def upt_conv_Cons)
  with st show ?thesis by blast
qed

lemma loop_safe:
  assumes "rinv D N W e s w" "admissible crc32 D N W evs s w"
  shows "\<exists>s' w' e'. receive_loop crc32 (int W) evs s w = Inr (Running s', w') \<and> e \<le> e' \<and>
    rinv D N W e' s' w' \<and> (r_end_file s' \<longrightarrow> r_end_file s \<or> (\<exists>ev\<in>set evs. end_event crc32 ev))"
  using assms
proof (induction evs arbitrary: s w e)
  case Nil
  then show ?case by auto
next
  case (Cons ev evs)
  show ?case
  proof (cases "r_end_file s")
    case True
    with Cons.prems(1) show ?thesis by auto
  next
    case False
    with Cons.prems(2) have "arrival crc32 D N W s w ev" by simp
    from arrival_step [OF Cons.prems(1) this] obtain s1 w1 e1 where
      st: "receive_step crc32 (int W) ev s w = Inr (Running s1, w1)" and i1: "rinv D N W e1 s1 w1" "e \<le> e1"
      and en: "r_end_file s1 \<longrightarrow> r_end_file s \<or> end_event crc32 ev"
      by blast
    from False st Cons.prems(2) have "admissible crc32 D N W evs s1 w1" by simp
    from Cons.IH [OF i1(1) this] obtain s' w' e' where
      "receive_loop crc32 (int W) evs s1 w1 = Inr (Running s', w')" "e1 \<le> e'" "rinv D N W e' s' w'"
      "r_end_file s' \<longrightarrow> r_end_file s1 \<or> (\<exists>ev\<in>set evs. end_event crc32 ev)"
      by blast
    with False st i1(2) en show ?thesis
      by (intro exI [of _ s'] exI [of _ w'] exI [of _ e']) auto
  qed
qed

text \<open>If the chunks from the expected one on arrive in this order, among any other events, all
  of them are delivered.\<close>

fun in_order :: "crc_fun \<Rightarrow> (nat \<Rightarrow> bytes) \<Rightarrow> nat \<Rightarrow> nat \<Rightarrow> r_event list \<Rightarrow> bool" where
  "in_order crc32 D m N [] = (N \<le> m)"
| "in_order crc32 D m N (ev # evs) =
     (N \<le> m \<or> data_event crc32 D m ev \<and> in_order crc32 D (Suc m) N evs \<or> in_order crc32 D m N evs)"

lemma in_order_done: "N \<le> m \<Longrightarrow> in_order crc32 D m N evs"
  by (cases evs) simp_all

lemma loop_complete:
  assumes "rinv D N W e s w" "admissible crc32 D N W evs s w" "\<not> r_end_file s"
    and "\<And>ev. ev \<in> set evs \<Longrightarrow> \<not> end_event crc32 ev"
    and "in_order crc32 D m N evs" "m \<le> e"
  shows "\<exists>s' w'. receive_loop crc32 (int W) evs s w = Inr (Running s', w') \<and> rinv D N W N s' w' \<and>
    \<not> r_end_file s'"
  using assms
proof (induction evs arbitrary: s w e m)
  case Nil
  then have "N \<le> m" by simp
  with Nil.prems(6) rinvD(1) [OF Nil.prems(1)] have "e = N" by simp
  with Nil.prems show ?case by simp
next
  case (Cons ev evs)
  have ar: "arrival crc32 D N W s w ev" using Cons.prems(2,3) by simp
  have end_ev: "\<not> end_event crc32 ev" using Cons.prems(4) by simp
  obtain s1 w1 e1 m1 where st: "receive_step crc32 (int W) ev s w = Inr (Running s1, w1)"
    and i1: "rinv D N W e1 s1 w1" "\<not> r_end_file s1" and m1: "m1 \<le> e1" "in_order crc32 D m1 N evs"
  proof (cases "m < N \<and> m = e \<and> data_event crc32 D m ev \<and> in_order crc32 D (Suc m) N evs")
    case True
    from expected_step [OF Cons.prems(1), of crc32 ev] True obtain s1 w1 e1 where
      1: "receive_step crc32 (int W) ev s w = Inr (Running s1, w1)" "rinv D N W e1 s1 w1" "e < e1"
        "r_end_file s1 = r_end_file s" by auto
    show thesis by (rule that [of s1 w1 e1 "Suc m"]) (use 1 True Cons.prems(3) in auto)
  next
    case False
    from arrival_step [OF Cons.prems(1) ar] obtain s1 w1 e1 where
      1: "receive_step crc32 (int W) ev s w = Inr (Running s1, w1)" "rinv D N W e1 s1 w1" "e \<le> e1"
        "\<not> r_end_file s1" using Cons.prems(3) end_ev by blast
    have "m = e \<or> Suc m \<le> e" using Cons.prems(6) by auto
    then have "in_order crc32 D m N evs \<or> Suc m \<le> e \<and> in_order crc32 D (Suc m) N evs"
      using False Cons.prems(5) in_order_done [of N m crc32 D evs]
      by (cases "N \<le> m") auto
    with 1 Cons.prems(6) that [of s1 w1 e1 m] that [of s1 w1 e1 "Suc m"] show thesis by auto
  qed
  have "admissible crc32 D N W evs s1 w1"
    using Cons.prems(2,3) st by simp
  from Cons.IH [OF i1(1) this i1(2) _ m1(2,1)] Cons.prems(3,4) st show ?case
    by simp
qed

lemma receive_loop_append:
  "receive_loop crc32 window (evs1 @ evs2) s w =
     andthen (receive_loop crc32 window evs1 s w) (\<lambda>(c, w1).
       case c of Returned \<Rightarrow> Inr (Returned, w1) | Running s1 \<Rightarrow> receive_loop crc32 window evs2 s1 w1)"
proof (induction evs1 arbitrary: s w)
  case Nil
  then show ?case by simp
next
  case (Cons ev evs1)
  show ?case
  proof (cases "r_end_file s")
    case True
    have "receive_loop crc32 window evs s w = Inr (Running s, w)" for evs
      using True by (cases evs) simp_all
    then show ?thesis using True by simp
  next
    case False
    show ?thesis
    proof (cases "receive_step crc32 window ev s w")
      case (Inr x)
      with False Cons show ?thesis
        by (cases x; cases "fst x") (auto simp: andthen_assoc)
    qed (use False in simp)
  qed
qed

section \<open>Short transfers\<close>

text \<open>Up to \<open>256 - W\<close> chunks, the sequence numbers are never ambiguous: any data packets of the
  transfer may arrive at any time.\<close>

lemma admissible_short:
  assumes "N \<le> 256 - W" "rinv D N W e s w"
    and "\<And>ev. ev \<in> set evs \<Longrightarrow> ev = R_idle \<or> end_event crc32 ev \<or> (\<exists>n<N. data_event crc32 D n ev)"
  shows "admissible crc32 D N W evs s w"
  using assms(2,3)
proof (induction evs arbitrary: s w e)
  case Nil
  then show ?case by simp
next
  case (Cons ev evs)
  have "writes_of (obslog w) = e" "e \<le> N" "0 < W" using rinvD [OF Cons.prems(1)] by auto
  then have "n < N \<longrightarrow> writes_of (obslog w) \<le> n + (256 - W) \<and> n < writes_of (obslog w) + 256" for n
    using assms(1) by auto
  moreover have "ev = R_idle \<or> end_event crc32 ev \<or> (\<exists>n<N. data_event crc32 D n ev)"
    using Cons.prems(2) by simp
  ultimately have ar: "arrival crc32 D N W s w ev"
    by (auto simp: arrival_def harmless_def)
  from arrival_step [OF Cons.prems(1) this] obtain s1 w1 e1 where
    "receive_step crc32 (int W) ev s w = Inr (Running s1, w1)" "rinv D N W e1 s1 w1" by blast
  with ar Cons.IH [of e1 s1 w1] Cons.prems(2) show ?case by simp
qed

section \<open>The end of the transfer\<close>

lemma final_acks_run:
  assumes "TR (r_pkt_ack s) = 0" "env_good w" "live w (PAYLOAD (r_pkt_ack s))" "heap_ok w"
    "0 \<le> window" "window \<le> 31" "live w (PAYLOAD (r_pkt_rcv s))"
    "PAYLOAD (r_pkt_rcv s) = None \<or> PAYLOAD (r_pkt_rcv s) \<noteq> PAYLOAD (r_pkt_ack s)" "count \<le> 11"
  shows "\<exists>s' w' as. final_acks crc32 window count s w = Inr (s', w') \<and> length as = 11 - count \<and>
    (\<forall>a\<in>set as. acks a PTYPE_ACK window (r_seq_exp s)) \<and>
    obslog w' = obslog w @ map (\<lambda>a. Sent (ack_bytes crc32 a)) as \<and>
    r_pkt_rcv s' = r_pkt_rcv s \<and> live w' (PAYLOAD (r_pkt_ack s')) \<and> live w' (PAYLOAD (r_pkt_rcv s)) \<and>
    (PAYLOAD (r_pkt_rcv s) = None \<or> PAYLOAD (r_pkt_rcv s) \<noteq> PAYLOAD (r_pkt_ack s'))"
  using assms
proof (induction "11 - count" arbitrary: count s w)
  case 0
  then have "count = 11" by simp
  with 0 show ?case by (subst final_acks.simps) auto
next
  case (Suc d)
  then have c: "count < 11" and d: "d = 11 - Suc count" by simp_all
  from send_ack_good [OF Suc.prems(1,2,3,5,6), of PTYPE_ACK "r_seq_exp s - 1" crc32
      "pkt_get_timestamp (r_pkt_rcv s)"] obtain a where
    a: "acks a PTYPE_ACK window (r_seq_exp s)" "TR a = 0" "PAYLOAD a = Some (nalloc w)"
    and sa: "send_ack crc32 (r_pkt_ack s) (r_seq_exp s - 1) PTYPE_ACK (pkt_get_timestamp (r_pkt_rcv s)) window w =
      Inr (0, a, acked w (PAYLOAD (r_pkt_ack s)) (ack_bytes crc32 a))"
    by auto
  let ?w = "acked w (PAYLOAD (r_pkt_ack s)) (ack_bytes crc32 a)" and ?s = "s\<lparr>r_pkt_ack := a\<rparr>"
  have lv: "live ?w (PAYLOAD (r_pkt_rcv s)) \<and> (PAYLOAD (r_pkt_rcv s) = None \<or> PAYLOAD (r_pkt_rcv s) \<noteq> Some (nalloc w))"
    by (rule live_acked [OF Suc.prems(4,7,8)])
  from Suc.hyps(1) [OF d, of ?s ?w] a lv Suc.prems c heap_ok_acked [OF Suc.prems(4)] obtain s' w' as where
    r: "final_acks crc32 window (Suc count) ?s ?w = Inr (s', w')" "length as = d"
      "\<forall>a\<in>set as. acks a PTYPE_ACK window (r_seq_exp s)"
      "obslog w' = obslog ?w @ map (\<lambda>a. Sent (ack_bytes crc32 a)) as"
      "r_pkt_rcv s' = r_pkt_rcv s" "live w' (PAYLOAD (r_pkt_ack s'))" "live w' (PAYLOAD (r_pkt_rcv s))"
      "PAYLOAD (r_pkt_rcv s) = None \<or> PAYLOAD (r_pkt_rcv s) \<noteq> PAYLOAD (r_pkt_ack s')"
    by (auto simp: d)
  have "final_acks crc32 window count s w = Inr (s', w')"
    using c sa r(1) by (subst final_acks.simps) simp
  with r a(1) Suc.hyps(2) Suc.prems(2) show ?case
    by (intro exI [of _ s'] exI [of _ w'] exI [of _ "a # as"]) auto
qed

end
