(* ===== verification/Packet_Props.thy ===== *)
theory Packet_Props
  imports Codec_Roundtrip
begin

text \<open>
  The properties of the packet structure and of its codec, each followed by an instance at a
  concrete packet. The instances use a packet whose payload is the three bytes 7, 8, 9 in
  block 0 of the heap, and the byte sum as the check-sum.
\<close>

section \<open>A concrete world\<close>

definition world0 :: world where
  "world0 = \<lparr>mem = (\<lambda>_. None)(0 \<mapsto> [7, 8, 9]), nalloc = 1, oom = (\<lambda>_. False), junk = (\<lambda>_ _. 0),
     nclock = 0, clock = (\<lambda>_. \<lparr>tv_sec = 0, tv_usec = 5\<rparr>), nwrite = 0, wfail = (\<lambda>_. False),
     ptr_repr = (\<lambda>_. 0), obslog = []\<rparr>"

definition pkt0 :: pkt where
  "pkt0 = \<lparr>WINDOW = 3, TR = 0, TYPE_f = 1, SEQNUM = 4, LENGTH_f = htons 3, TIMESTAMP = 0, CRC1 = 0,
     PAYLOAD = Some 0, CRC2 = 0\<rparr>"

definition pkt_empty :: pkt where
  "pkt_empty = pkt0\<lparr>LENGTH_f := 0, PAYLOAD := None\<rparr>"

definition pkt_ack0 :: pkt where
  "pkt_ack0 = pkt_empty\<lparr>TYPE_f := 2\<rparr>"

lemma payload_is_pkt0: "payload_is pkt0 world0 [7, 8, 9]"
  by (simp add: payload_is_def pkt0_def world0_def MAX_PAYLOAD_SIZE_def)

lemma world0_sel [simp]:
  "\<not> oom world0 n" "heap_ok world0" "live world0 None" "mem world0 0 = Some [7, 8, 9]"
  "nalloc world0 = Suc 0" "nclock world0 = 0"
  by (auto simp: world0_def heap_ok_def)

lemma pkt_empty_sel [simp]: "PAYLOAD pkt_empty = None" "TR pkt_empty = 0"
  by (simp_all add: pkt_empty_def pkt0_def)

section \<open>Encoding\<close>

lemma copy_payload_oob:
  assumes "mem w a = Some blk" "n \<le> length blk" "length buf < 12 + n" "i \<le> n" "12 + i \<le> length buf"
  shows "copy_payload (Some a) w i n buf = Inl OutOfBounds"
  using assms
proof (induction "n - i" arbitrary: i buf)
  case 0
  then show ?case by simp
next
  case (Suc k)
  then have i: "i < n" and k: "k = n - Suc i" by simp_all
  have ld: "load (Some a) i 1 w = Inr [blk ! i]"
    using i Suc.prems(1,2) by (simp add: load_ok take_Suc_conv_app_nth hd_drop_conv_nth take_Suc)
  show ?case
  proof (cases "12 + i < length buf")
    case True
    let ?buf = "put_at (12 + i) [blk ! i] buf"
    have "copy_payload (Some a) w (Suc i) n ?buf = Inl OutOfBounds"
      using Suc.prems i k True by (intro Suc.hyps(1)) auto
    with True i ld show ?thesis
      by (subst copy_payload.simps) (simp add: arr_write_ok)
  next
    case False
    with i ld show ?thesis
      by (subst copy_payload.simps) (simp add: arr_write_def)
  qed
qed

lemma encode_overrun:
  assumes "payload_is p w bs" "length buf < 16 + length bs"
  shows "pkt_encode crc32 p buf len w = Inl OutOfBounds"
proof -
  let ?w = "snd (gettimeofday w)" and ?n = "length bs" and ?p = "p\<lparr>TIMESTAMP := stamp w\<rparr>"
  let ?h = "header_bytes ?p"
  define p1 where "p1 = ?p\<lparr>CRC1 := htonl (crc_of crc32 (Some ?h))\<rparr>"
  have p1: "payload_is p1 ?w bs" and tr: "TR p = 0" "TR p1 = 0"
    using assms(1) by (simp_all add: mem_gettimeofday p1_def) (simp_all add: payload_is_def)
  have n: "unat (pkt_get_length p) = ?n"
    using assms(1) by (rule payload_is_length)
  have ts: "pkt_set_timestamp p (stamp_of (fst (gettimeofday w))) = (PKT_OK, ?p)"
    by (simp add: pkt_set_timestamp_def stamp_def gettimeofday_def)
  have cp: "copy_payload (pkt_get_payload p1) ?w 0 ?n b = Inl OutOfBounds"
    if "length b < 12 + ?n" "12 \<le> length b" for b
  proof -
    have "bs \<noteq> []" using that by auto
    with p1 obtain a blk where "PAYLOAD p1 = Some a" "mem ?w a = Some blk" "?n \<le> length blk"
      by (auto simp: payload_is_def)
    with p1 that \<open>bs \<noteq> []\<close> show ?thesis
      by (simp add: payload_is_payload copy_payload_oob)
  qed
  have enc: "pkt_encode crc32 p buf len w =
     andthen (arr_write buf 0 ?h) (\<lambda>buf1.
     andthen (arr_write buf1 8 (be32 (crc_of crc32 (Some (take 8 buf1))))) (\<lambda>buf2.
     andthen (copy_payload (pkt_get_payload (?p\<lparr>CRC1 := htonl (crc_of crc32 (Some (take 8 buf1)))\<rparr>)) ?w 0 ?n buf2) (\<lambda>buf3.
     andthen (region (pkt_get_payload (?p\<lparr>CRC1 := htonl (crc_of crc32 (Some (take 8 buf1)))\<rparr>)) ?n ?w) (\<lambda>r.
     andthen (arr_write buf3 (?n + 12) (be32 (crc_of crc32 r))) (\<lambda>buf4.
     Inr (PKT_OK, (if 0 < ?n then ?n + 4 else ?n) + 12, buf4,
          ?p\<lparr>CRC1 := htonl (crc_of crc32 (Some (take 8 buf1))), CRC2 := htonl (crc_of crc32 r)\<rparr>, ?w))))))"
    using tr by (simp add: pkt_encode_def Let_def split_beta ts n pkt_set_crc1_def pkt_set_crc2_def
        crc_of_def)
  have h: "take 8 (put_at 0 ?h buf) = ?h"
    by (rule take_put_at_0) simp
  show ?thesis
  proof (cases "12 \<le> length buf")
    case False
    then show ?thesis
      by (auto simp: enc arr_write_def)
  next
    case True
    then have b: "length (put_at 8 (be32 c) (put_at 0 ?h buf)) = length buf" for c
      by simp
    show ?thesis
    proof (cases "12 + ?n \<le> length buf")
      case False
      with True b show ?thesis
        by (simp add: enc arr_write_ok h p1_def [symmetric] cp)
    next
      case le: True
      then have "copy_payload (pkt_get_payload p1) ?w 0 ?n (put_at 8 (be32 c) (put_at 0 ?h buf)) =
          Inr (put_at 12 bs (put_at 8 (be32 c) (put_at 0 ?h buf)))" for c
        using p1 True by (intro copy_payload_is) auto
      with True le assms(2) show ?thesis
        by (simp add: enc arr_write_ok h p1_def [symmetric] payload_is_region [OF p1])
          (auto simp: arr_write_def)
    qed
  qed
qed

text \<open>C8. A packet that is not truncated and whose payload pointer is as long as its length field
  says survives \<open>pkt_encode\<close> followed by \<open>pkt_decode\<close>: every accessor of the decoded packet
  shows what the encoded one shows, and the decoded payload is a block of its own with the
  same bytes. This holds for any check-sum function.\<close>

theorem encode_decode_roundtrip:
  assumes "payload_is p w bs" "length buf = 528" "\<not> oom w (nalloc w)" "live w (PAYLOAD q)"
  shows "\<exists>buf' p' w1 q' w2.
    pkt_encode crc32 p buf cap w = Inr (PKT_OK, wire_len bs, buf', p', w1) \<and>
    pkt_decode crc32 buf' (wire_len bs) q w1 = Inr (PKT_OK, q', w2) \<and>
    pkt_get_type q' = pkt_get_type p \<and> pkt_get_tr q' = pkt_get_tr p \<and>
    pkt_get_window q' = pkt_get_window p \<and> pkt_get_seqnum q' = pkt_get_seqnum p \<and>
    pkt_get_length q' = of_nat (length bs) \<and> pkt_get_timestamp q' = stamp w \<and>
    pkt_get_crc1 q' = pkt_get_crc1 p' \<and> pkt_get_crc2 q' = pkt_get_crc2 p' \<and>
    region (pkt_get_payload q') (length bs) w2 = Inr (if bs = [] then None else Some bs)"
proof -
  let ?p1 = "p\<lparr>TIMESTAMP := stamp w\<rparr>" and ?w1 = "snd (gettimeofday w)"
  let ?buf = "packet_image crc32 (header_bytes ?p1) bs @ drop (16 + length bs) buf"
  let ?q = "received crc32 ?p1 bs q ?w1" and ?w2 = "if bs = [] then ?w1 else stored ?w1 bs"
  have le: "length bs \<le> 512" using assms(1) by (simp add: payload_is_def MAX_PAYLOAD_SIZE_def)
  have sh: "shown ?p1 bs"
    using assms(1) by (simp add: payload_is_def shown_def)
  have enc: "pkt_encode crc32 p buf cap w = Inr (PKT_OK, wire_len bs, ?buf, encoded crc32 p bs w, ?w1)"
    using assms(2) le by (intro encode_ok [OF assms(1)]) simp
  have lv: "live ?w1 (PAYLOAD q)"
    using assms(4) by (simp add: live_def split: option.splits)
  have "pkt_decode crc32 ?buf (wire_len bs) q ?w1 = Inr (decode_result crc32 ?buf (wire_len bs) q ?w1)"
    using assms(2,3) le lv by (intro decode_eq) auto
  then have dec: "pkt_decode crc32 ?buf (wire_len bs) q ?w1 = Inr (PKT_OK, ?q, ?w2)"
    using sh by (simp add: decode_image wire_len_def)
  have rg: "region (pkt_get_payload ?q) (length bs) ?w2 = Inr (if bs = [] then None else Some bs)"
  proof (cases "bs = []")
    case True
    with sh have "pkt_get_length ?q = 0"
      by (simp add: received_getters) (simp add: pkt_get_length_def shown_def)
    with True show ?thesis by (simp add: region_def pkt_get_payload_def)
  next
    case False
    with payload_is_region [OF received_payload [OF sh False]] show ?thesis by simp
  qed
  have e: "pkt_get_crc1 (encoded crc32 p bs w) = crc_of crc32 (Some (header_bytes ?p1))"
    "pkt_get_crc2 (encoded crc32 p bs w) = (if bs = [] then 0 else crc_of crc32 (Some bs))"
    using sh by (auto simp: encoded_def Let_def getter_defs shown_def MAX_PAYLOAD_SIZE_def)
  have g: "pkt_get_length ?p1 = of_nat (length bs)"
    using sh by (simp add: pkt_get_length_def shown_def)
  show ?thesis
    by (intro exI conjI, rule enc, rule dec)
      (simp_all add: received_getters [OF sh] e g rg del: if_split, simp_all add: getter_defs)
qed

theorem encode_decode_roundtrip_witness:
  "\<exists>buf' p' w1 q' w2.
    pkt_encode sum_crc pkt0 (replicate 528 0) 0 world0 = Inr (PKT_OK, wire_len [7, 8, 9], buf', p', w1) \<and>
    pkt_decode sum_crc buf' (wire_len [7, 8, 9]) pkt_empty w1 = Inr (PKT_OK, q', w2) \<and>
    region (pkt_get_payload q') (length [7, 8, 9 :: byte]) w2 = Inr (Some [7, 8, 9])"
proof -
  have "live world0 (PAYLOAD pkt_empty)" by simp
  from encode_decode_roundtrip [OF payload_is_pkt0 _ _ this, of "replicate 528 0" sum_crc 0]
  show ?thesis by (simp del: list.size) blast
qed

text \<open>C15. The bytes \<open>pkt_encode\<close> writes, for any check-sum function: the bit-fields, the sequence
  number, the length most significant byte first, the clock reading in host order, the check-sum
  of these 8 bytes, the payload, and the check-sum of the payload; the announced length counts
  the last check-sum only when there is a payload. The rest of the buffer is left alone.\<close>

theorem encode_wire_format:
  assumes "payload_is p w bs" "16 + length bs \<le> length buf"
  shows "\<exists>h p' w'.
    h = [byte0 p, SEQNUM p] @ be16 (of_nat (length bs)) @ le32 (stamp_of (clock w (nclock w))) \<and>
    pkt_encode crc32 p buf cap w =
      Inr (PKT_OK, 12 + length bs + (if bs = [] then 0 else 4),
           h @ be32 (crc32 (crc32 0 None) (Some h)) @ bs @
             be32 (crc32 (crc32 0 None) (if bs = [] then None else Some bs)) @
             drop (16 + length bs) buf, p', w') \<and>
    keeps w w' \<and> payload_is p' w' bs \<and> byte0 p' = byte0 p \<and> SEQNUM p' = SEQNUM p"
proof -
  let ?h = "header_bytes (p\<lparr>TIMESTAMP := stamp w\<rparr>)"
  have h: "?h = [byte0 p, SEQNUM p] @ be16 (of_nat (length bs)) @ le32 (stamp_of (clock w (nclock w)))"
    using assms(1) by (simp add: header_bytes_def payload_is_def stamp_def)
  have k: "keeps w (snd (gettimeofday w))"
    by (rule keeps_mem_eq) simp
  have p: "payload_is (encoded crc32 p bs w) (snd (gettimeofday w)) bs"
    using payload_is_keeps [OF assms(1) k] by (simp add: encoded_def Let_def)
  have b: "byte0 (encoded crc32 p bs w) = byte0 p" "SEQNUM (encoded crc32 p bs w) = SEQNUM p"
    by (simp_all add: encoded_def Let_def byte0_def)
  from encode_ok [OF assms, of crc32 cap] k p b show ?thesis
    unfolding wire_len_def packet_image_def crc_of_def h [symmetric] append_assoc by blast
qed

theorem encode_wire_format_witness:
  "\<exists>h p' w'. h = [byte0 pkt0, SEQNUM pkt0] @ be16 (of_nat (length [7, 8, 9 :: byte])) @
      le32 (stamp_of (clock world0 (nclock world0))) \<and>
    pkt_encode sum_crc pkt0 (replicate 20 1) 0 world0 =
      Inr (PKT_OK, 12 + length [7, 8, 9 :: byte] + 4,
           h @ be32 (sum_crc (sum_crc 0 None) (Some h)) @ [7, 8, 9] @
             be32 (sum_crc (sum_crc 0 None) (Some [7, 8, 9])) @
             drop (16 + length [7, 8, 9 :: byte]) (replicate 20 1), p', w')"
proof -
  have "16 + length [7, 8, 9 :: byte] \<le> length (replicate 20 (1 :: byte))" by simp
  from encode_wire_format [OF payload_is_pkt0 this, of sum_crc 0] show ?thesis
    by (simp only: list.distinct if_False) blast
qed

text \<open>C19. \<open>pkt_encode\<close> writes 16 bytes and the payload whatever capacity the caller announces: it
  stays within the buffer exactly when the buffer has room for them, it runs past the end
  otherwise, and no call reports \<open>E_NOMEM\<close>. In particular the 528 byte buffers of the program
  are large enough for every packet.\<close>

theorem encode_capacity:
  assumes "payload_is p w bs"
  shows "(pkt_encode crc32 p buf cap w = Inl OutOfBounds \<longleftrightarrow> length buf < 16 + length bs) \<and>
    fst (projr (pkt_encode crc32 p (replicate 528 x) cap w)) = PKT_OK"
proof (intro conjI)
  show "pkt_encode crc32 p buf cap w = Inl OutOfBounds \<longleftrightarrow> length buf < 16 + length bs"
  proof (cases "length buf < 16 + length bs")
    case True
    with encode_overrun [OF assms] show ?thesis by simp
  next
    case False
    with encode_ok [OF assms, of buf crc32 cap] show ?thesis by simp
  qed
  have "length bs \<le> 512"
    using assms by (simp add: payload_is_def MAX_PAYLOAD_SIZE_def)
  then show "fst (projr (pkt_encode crc32 p (replicate 528 x) cap w)) = PKT_OK"
    using encode_ok [OF assms, of "replicate 528 x" crc32 cap] by simp
qed

theorem encode_capacity_witness:
  "pkt_encode sum_crc pkt0 (replicate 18 0) 528 world0 = Inl OutOfBounds \<and>
   pkt_encode sum_crc pkt0 (replicate 19 0) 1 world0 \<noteq> Inl OutOfBounds"
  using encode_capacity [OF payload_is_pkt0, of sum_crc "replicate 18 0" 528]
    encode_capacity [OF payload_is_pkt0, of sum_crc "replicate 19 0" 1]
  by simp

section \<open>Decoding\<close>

text \<open>C17. On the program's 528 byte receive buffer \<open>pkt_decode\<close> never reads out of bounds and never
  touches a dead block, whatever the buffer holds and whatever length is announced, and the
  status it reports is the function \<open>decode_verdict\<close> of the bytes. The packet it fills can be
  decoded into again.\<close>

theorem decode_total:
  assumes "length data = 528" "\<not> oom w (nalloc w)" "live w (PAYLOAD p)" "heap_ok w"
  shows "\<exists>p' w'. pkt_decode crc32 data len p w = Inr (decode_verdict crc32 data len, p', w') \<and>
    live w' (PAYLOAD p') \<and> heap_ok w' \<and> obslog w' = obslog w"
proof -
  let ?r = "decode_result crc32 data len p w"
  have "pkt_decode crc32 data len p w = Inr (fst ?r, fst (snd ?r), snd (snd ?r))"
    using assms by (simp add: decode_eq)
  moreover have "live (snd (snd ?r)) (PAYLOAD (fst (snd ?r)))" "heap_ok (snd (snd ?r))"
    using assms by (simp_all add: decode_live decode_heap_ok)
  ultimately show ?thesis
    by (intro exI [of _ "fst (snd ?r)"] exI [of _ "snd (snd ?r)"]) (simp add: fst_decode_result)
qed

theorem decode_total_witness:
  "\<exists>p' w'. pkt_decode sum_crc (replicate 528 255) 528 pkt0 world0 =
     Inr (decode_verdict sum_crc (replicate 528 255) 528, p', w') \<and> heap_ok w'"
proof -
  have "live world0 (PAYLOAD pkt0)" by (simp add: pkt0_def)
  from decode_total [of "replicate 528 255" world0 pkt0 sum_crc 528, OF _ _ this]
  show ?thesis by auto
qed

text \<open>C16. What \<open>PKT_OK\<close> from \<open>pkt_decode\<close> means: the packet shows exactly the received header, both
  check-sums agree with the received bytes, the length is at most 512, and a payload, if the
  header announces one, lies in a live block that the packet points to.\<close>

theorem decode_ok_sound:
  assumes "length data = 528" "\<not> oom w (nalloc w)" "live w (PAYLOAD p)"
    and "pkt_decode crc32 data len p w = Inr (PKT_OK, p', w')"
  shows "header_bytes p' = take 8 data \<and> unat (wire_length data) \<le> 512 \<and> crc1_matches crc32 data \<and>
    (wire_length data = 0 \<or>
       (wire_tr data \<or> crc2_matches crc32 data) \<and>
       load (PAYLOAD p') 0 (unat (wire_length data)) w' = Inr (wire_payload data))"
proof -
  have r: "decode_result crc32 data len p w = (PKT_OK, p', w')"
    using assms decode_eq [of data w p crc32 len] by simp
  have v: "decode_verdict crc32 data len = PKT_OK"
    using r fst_decode_result [of crc32 data len p w] by simp
  have h: "header_bytes p' = take 8 data"
    using decode_ok_header [of data crc32 len p w] assms(1) v r by simp
  have c: "unat (wire_length data) \<le> 512" "crc1_matches crc32 data"
    "wire_length data = 0 \<or> wire_tr data \<or> crc2_matches crc32 data"
    using v by (auto simp: decode_verdict_def MAX_PAYLOAD_SIZE_def split: if_splits)
  have "load (PAYLOAD p') 0 (unat (wire_length data)) w' = Inr (wire_payload data)"
    if "wire_length data \<noteq> 0"
    using that r assms(1) c
    by (auto simp: decode_result_def payload_stored_def with_payload_def with_crc2_def load_ok
        wire_payload_def split: if_splits)
  with h c show ?thesis by auto
qed

text \<open>A received datagram for the instances: \<open>pkt0\<close> as sent, in a 528 byte buffer.\<close>

definition data0 :: bytes where
  "data0 = packet_image sum_crc (header_bytes pkt0) [7, 8, 9] @ replicate 509 0"

lemma length_data0 [simp]: "length data0 = 528"
  by (simp add: data0_def)

lemma shown_pkt0: "shown pkt0 [7, 8, 9]"
  by (rule payload_is_shown [OF payload_is_pkt0])

lemma decode_data0:
  "pkt_decode sum_crc data0 19 pkt_empty world0 =
     Inr (PKT_OK, received sum_crc pkt0 [7, 8, 9] pkt_empty world0, stored world0 [7, 8, 9])"
  using decode_eq [of data0 world0 pkt_empty sum_crc 19] shown_pkt0
  by (simp add: data0_def decode_image)

theorem decode_ok_sound_witness:
  "header_bytes (received sum_crc pkt0 [7, 8, 9] pkt_empty world0) = take 8 data0 \<and>
   crc1_matches sum_crc data0"
  using decode_ok_sound [OF length_data0 _ _ decode_data0] by simp

text \<open>C21. Beyond the first four bytes the number of received bytes plays no part: a datagram that is
  shorter than its header says decodes as if the bytes left in the buffer by an earlier one
  belonged to it.\<close>

theorem decode_ignores_received_length:
  assumes "4 \<le> n" "4 \<le> m"
  shows "pkt_decode crc32 data n p w = pkt_decode crc32 data m p w"
  using assms by (simp add: pkt_decode_def pkt_decode_header_def)

theorem decode_ignores_received_length_witness:
  "pkt_decode sum_crc data0 4 pkt_empty world0 =
     Inr (PKT_OK, received sum_crc pkt0 [7, 8, 9] pkt_empty world0, stored world0 [7, 8, 9])"
  using decode_ignores_received_length [of 4 19 sum_crc data0 pkt_empty world0] decode_data0 by simp

lemma decode_status_exists:
  assumes "528 \<le> length data" "\<not> oom w (nalloc w)" "live w (PAYLOAD q)"
  shows "\<exists>q' w'. pkt_decode crc32 data len q w = Inr (decode_verdict crc32 data len, q', w')"
  using decode_eq [OF assms, of crc32 len] fst_decode_result [of crc32 data len q w]
  by (metis prod.collapse)

lemma wire_length_append: "4 \<le> length h \<Longrightarrow> wire_length (h @ xs) = wire_length h"
  by (simp add: wire_length_def)

text \<open>C18. Corruption is reported. Take a datagram produced by \<open>pkt_encode\<close>, with or without payload, and
  change one part of it. If the header becomes one with another check-sum, which announces at most 512
  bytes (otherwise the verdict is \<open>E_LENGTH\<close>), or if the header check-sum becomes other bytes, then \<open>pkt_decode\<close>
  returns \<open>E_CRC\<close> whatever follows in the buffer (\<open>body\<close>: the payload, its check-sum and what is left
  from earlier datagrams; for an acknowledgement only the latter). If the payload becomes one of the
  same length with another check-sum, it returns \<open>E_CRC\<close> as well. How many corruptions change the
  check-sum is a matter of zlib's function.\<close>

theorem corruption_detected:
  fixes h bs' c body rest :: bytes
  assumes "shown p bs" "4 \<le> len" "\<not> oom w (nalloc w)" "live w (PAYLOAD q)" "516 \<le> length body" "512 \<le> length rest"
  shows "(length h = 8 \<and> unat (wire_length h) \<le> 512 \<and>
        crc_of crc32 (Some h) \<noteq> crc_of crc32 (Some (header_bytes p)) \<longrightarrow>
      fst (projr (pkt_decode crc32 (h @ be32 (crc_of crc32 (Some (header_bytes p))) @ body) len q w)) = E_CRC) \<and>
    (length c = 4 \<and> c \<noteq> be32 (crc_of crc32 (Some (header_bytes p))) \<longrightarrow>
      fst (projr (pkt_decode crc32 (header_bytes p @ c @ body) len q w)) = E_CRC) \<and>
    (length bs' = length bs \<and> crc_of crc32 (Some bs') \<noteq> crc_of crc32 (Some bs) \<longrightarrow>
      fst (projr (pkt_decode crc32 (header_bytes p @ be32 (crc_of crc32 (Some (header_bytes p))) @ bs' @
           be32 (crc_of crc32 (Some bs)) @ rest) len q w)) = E_CRC)"
proof (intro conjI impI; elim conjE)
  let ?c1 = "be32 (crc_of crc32 (Some (header_bytes p)))" and ?c2 = "be32 (crc_of crc32 (Some bs))"
  have st: "fst (projr (pkt_decode crc32 d len q w)) = decode_verdict crc32 d len"
    if "528 \<le> length d" for d
    using decode_status_exists [OF that assms(3,4), of crc32 len] by auto
  have wl: "wire_length (header_bytes p @ xs) = of_nat (length bs)" "\<not> wire_tr (header_bytes p @ xs)" for xs
    using assms(1) by (simp_all add: wire_header shown_def)
  have le: "length bs \<le> 512" using assms(1) by (simp add: shown_def MAX_PAYLOAD_SIZE_def)
  show "fst (projr (pkt_decode crc32 (h @ ?c1 @ body) len q w)) = E_CRC"
    if "length h = 8" "unat (wire_length h) \<le> 512" "crc_of crc32 (Some h) \<noteq> crc_of crc32 (Some (header_bytes p))"
  proof -
    have "decode_verdict crc32 (h @ ?c1 @ body) len = E_CRC"
      using assms(2) that by (simp add: decode_verdict_def wire_length_append MAX_PAYLOAD_SIZE_def crc1_matches_def)
    then show ?thesis using assms(5) that(1) by (simp add: st)
  qed
  show "fst (projr (pkt_decode crc32 (header_bytes p @ c @ body) len q w)) = E_CRC" if "length c = 4" "c \<noteq> ?c1"
  proof -
    have "decode_verdict crc32 (header_bytes p @ c @ body) len = E_CRC"
      using assms(2) that le by (simp add: decode_verdict_def wl MAX_PAYLOAD_SIZE_def crc1_matches_def)
    then show ?thesis using assms(5) that(1) by (simp add: st)
  qed
  show "fst (projr (pkt_decode crc32 (header_bytes p @ ?c1 @ bs' @ ?c2 @ rest) len q w)) = E_CRC"
    if bs': "length bs' = length bs" "crc_of crc32 (Some bs') \<noteq> crc_of crc32 (Some bs)"
  proof -
    have ne: "bs \<noteq> []" using bs' by auto
    have "\<not> crc2_matches crc32 (header_bytes p @ ?c1 @ bs' @ ?c2 @ rest)"
      using bs' le by (simp add: crc2_matches_def wl Let_def)
    then have "decode_verdict crc32 (header_bytes p @ ?c1 @ bs' @ ?c2 @ rest) len = E_CRC"
      using assms(2) le ne by (simp add: decode_verdict_def wl MAX_PAYLOAD_SIZE_def)
    then show ?thesis using assms(6) bs'(1) by (simp add: st)
  qed
qed

text \<open>The payload of a data packet, and the sequence number of an acknowledgement.\<close>

theorem corruption_detected_witness:
  "fst (projr (pkt_decode sum_crc (header_bytes pkt0 @ be32 (crc_of sum_crc (Some (header_bytes pkt0))) @
     [7, 8, 10] @ be32 (crc_of sum_crc (Some [7, 8, 9])) @ replicate 512 0) 19 pkt_empty world0)) = E_CRC \<and>
   fst (projr (pkt_decode sum_crc (header_bytes (pkt_ack0\<lparr>SEQNUM := 5\<rparr>) @ be32 (crc_of sum_crc (Some (header_bytes pkt_ack0))) @
     replicate 516 0) 12 pkt_empty world0)) = E_CRC"
proof
  have "crc_of sum_crc (Some [7, 8, 10]) \<noteq> crc_of sum_crc (Some [7, 8, 9])"
    by (simp add: crc_of_def sum_crc_def)
  then show "fst (projr (pkt_decode sum_crc (header_bytes pkt0 @ be32 (crc_of sum_crc (Some (header_bytes pkt0))) @
     [7, 8, 10] @ be32 (crc_of sum_crc (Some [7, 8, 9])) @ replicate 512 0) 19 pkt_empty world0)) = E_CRC"
    using corruption_detected [OF shown_pkt0, of 19 world0 pkt_empty "replicate 516 0" "replicate 512 0" _ sum_crc _ "[7, 8, 10]"]
    by simp
  let ?h = "header_bytes (pkt_ack0\<lparr>SEQNUM := 5\<rparr>)"
  have "crc_of sum_crc (Some ?h) \<noteq> crc_of sum_crc (Some (header_bytes pkt_ack0))"
    by (simp add: htons_def crc_of_def sum_crc_def header_bytes_def byte0_def pkt_ack0_def pkt_empty_def pkt0_def le16_def le32_def be16_def)
  moreover have "unat (wire_length ?h) \<le> 512"
    using wire_header(1) [of "pkt_ack0\<lparr>SEQNUM := 5\<rparr>" "[]"] by (simp add: pkt_ack0_def pkt_empty_def pkt0_def)
  moreover have "htons 0 = 0" by code_simp
  then have "shown pkt_ack0 []" by (simp add: shown_def pkt_ack0_def pkt_empty_def pkt0_def MAX_PAYLOAD_SIZE_def)
  ultimately show "fst (projr (pkt_decode sum_crc (?h @ be32 (crc_of sum_crc (Some (header_bytes pkt_ack0))) @
     replicate 516 0) 12 pkt_empty world0)) = E_CRC"
    using corruption_detected [of pkt_ack0 "[]" 12 world0 pkt_empty "replicate 516 0" "replicate 512 0" ?h sum_crc] by simp
qed

section \<open>Truncation\<close>

text \<open>The header check-sum is taken over the truncation bit as received, not with the bit cleared
  as packet_interface.h says. A packet that the network truncates (bit set, payload cut off, the
  rest unchanged) is therefore rejected with \<open>E_CRC\<close> whenever the check-sum tells the two
  headers apart, so it never reaches the code that answers truncation; a packet whose sender set
  the bit itself before encoding is accepted.\<close>

theorem truncation_in_transit:
  assumes "shown p bs" "516 \<le> length rest" "4 \<le> len" "\<not> oom w (nalloc w)" "live w (PAYLOAD q)"
    and "crc_of crc32 (Some (header_bytes (p\<lparr>TR := 1\<rparr>))) \<noteq> crc_of crc32 (Some (header_bytes p))"
  shows "fst (projr (pkt_decode crc32 (header_bytes (p\<lparr>TR := 1\<rparr>) @
           be32 (crc_of crc32 (Some (header_bytes p))) @ rest) len q w)) = E_CRC \<and>
    fst (projr (pkt_decode crc32 (header_bytes (p\<lparr>TR := 1\<rparr>) @
           be32 (crc_of crc32 (Some (header_bytes (p\<lparr>TR := 1\<rparr>)))) @ rest) len q w)) = PKT_OK"
proof -
  have st: "fst (projr (pkt_decode crc32 d len q w)) = decode_verdict crc32 d len"
    if "528 \<le> length d" for d
    using decode_status_exists [OF that assms(4,5), of crc32 len] by auto
  have wl: "wire_length (header_bytes (p\<lparr>TR := 1\<rparr>) @ xs) = of_nat (length bs)"
    "wire_tr (header_bytes (p\<lparr>TR := 1\<rparr>) @ xs)" for xs
    using assms(1) by (simp_all add: wire_header shown_def)
  have le: "length bs \<le> 512"
    using assms(1) by (simp add: shown_def MAX_PAYLOAD_SIZE_def)
  show ?thesis
    using assms le by (simp add: st decode_verdict_def wl MAX_PAYLOAD_SIZE_def crc1_matches_def)
qed

theorem truncation_in_transit_witness:
  "fst (projr (pkt_decode sum_crc (header_bytes (pkt0\<lparr>TR := 1\<rparr>) @
     be32 (crc_of sum_crc (Some (header_bytes pkt0))) @ replicate 516 0) 12 pkt_empty world0)) = E_CRC"
proof -
  have "crc_of sum_crc (Some (header_bytes (pkt0\<lparr>TR := 1\<rparr>))) \<noteq> crc_of sum_crc (Some (header_bytes pkt0))"
    by (simp add: htons_def crc_of_def sum_crc_def header_bytes_def byte0_def pkt0_def le16_def
        le32_def be16_def)
  from truncation_in_transit [OF shown_pkt0 _ _ _ _ this, of "replicate 516 0" 12 world0 pkt_empty]
  show ?thesis by simp
qed

section \<open>Accessors\<close>

text \<open>Each setter accepts exactly the values that fit its field, and reports its own error and
  leaves the packet as it was otherwise: the type must be one of the three packet types, the
  truncation bit can be set on data packets only and must be 0 or 1, the window is at most 31,
  the length at most 512.\<close>

theorem setters_status:
  "pkt_set_type p t = (if t \<in> {PTYPE_DATA, PTYPE_ACK, PTYPE_NACK}
      then (PKT_OK, p\<lparr>TYPE_f := ucast t\<rparr>) else (E_TYPE, p)) \<and>
   fst (pkt_set_tr p tr) = (if pkt_get_type p = PTYPE_DATA \<and> unat tr \<le> 1 then PKT_OK else E_TR) \<and>
   fst (pkt_set_window p win) = (if unat win \<le> 31 then PKT_OK else E_WINDOW) \<and>
   fst (pkt_set_length p l) = (if unat l \<le> 512 then PKT_OK else E_LENGTH) \<and>
   (fst (pkt_set_tr p tr) = PKT_OK \<or> snd (pkt_set_tr p tr) = p) \<and>
   (fst (pkt_set_window p win) = PKT_OK \<or> snd (pkt_set_window p win) = p) \<and>
   (fst (pkt_set_length p l) = PKT_OK \<or> snd (pkt_set_length p l) = p)"
proof -
  have tr: "tr > 1 \<longleftrightarrow> unat tr > 1"
    by (simp add: word_less_nat_alt)
  show ?thesis
    by (auto simp: field_tr.status_cases field_window.status_cases field_length.status_cases
        field_tr.set_rejected field_window.set_rejected field_length.set_rejected
        MAX_WINDOW_SIZE_def MAX_PAYLOAD_SIZE_def pkt_get_type_def pkt_set_type_def tr)
qed

text \<open>After any series of calls of a setter its getter shows the last value that was accepted,
  or the old value when none was: the window field, and the length field of a packet that is
  not truncated.\<close>

theorem last_accepted_write:
  assumes "TR p = 0"
  shows "pkt_get_window (fold (\<lambda>v q. snd (pkt_set_window q v)) vs p) =
      (case filter (\<lambda>v. unat v \<le> 31) vs of [] \<Rightarrow> pkt_get_window p | us \<Rightarrow> last us) \<and>
    pkt_get_length (fold (\<lambda>v q. snd (pkt_set_length q v)) ls p) =
      (case filter (\<lambda>l. unat l \<le> 512) ls of [] \<Rightarrow> pkt_get_length p | us \<Rightarrow> last us)"
  using field_window.get_after_sets [of vs p] field_length.get_after_sets [of p ls] assms
  by (simp add: MAX_WINDOW_SIZE_def MAX_PAYLOAD_SIZE_def)

theorem last_accepted_write_witness:
  "pkt_get_window (fold (\<lambda>v q. snd (pkt_set_window q v)) [5, 40] pkt0) = 5 \<and>
   pkt_get_length (fold (\<lambda>v q. snd (pkt_set_length q v)) [600, 7, 513] pkt0) = 7"
proof -
  have "TR pkt0 = 0" by (simp add: pkt0_def)
  from last_accepted_write [OF this, of "[5, 40]" "[600, 7, 513]"] show ?thesis by simp
qed

section \<open>Payload blocks\<close>

text \<open>Storing a new payload of 1 to 512 bytes in a packet that is not truncated puts the bytes in a
  fresh block and leaves every live block as it is: copies of the packet taken with
  \<open>pkt_copy\<close>, which share the old block, keep their payload (the sender's retransmission buffer
  and the receiver's reordering buffer rely on it).\<close>

theorem set_payload_preserves_copies:
  assumes "TR p = 0" "1 \<le> length bs" "length bs \<le> 512" "\<not> oom w (nalloc w)" "heap_ok w"
    "live w (PAYLOAD p)" "payload_is (pkt_copy p dest) w old"
  shows "\<exists>p' w'. pkt_set_payload p (Some bs) (of_nat (length bs)) w = Inr (PKT_OK, p', w') \<and>
    payload_is p' w' bs \<and> payload_is (pkt_copy p dest) w' old \<and> keeps w w' \<and> heap_ok w' \<and>
    PAYLOAD p' \<noteq> PAYLOAD p"
proof -
  let ?p = "p\<lparr>LENGTH_f := htons (of_nat (length bs)), PAYLOAD := Some (nalloc w)\<rparr>"
  have "pkt_set_payload p (Some bs) (of_nat (length bs)) w = Inr (PKT_OK, ?p, stored w bs)"
    using assms(1-4,6) set_payload_eq [of w "of_nat (length bs)" bs p] by auto
  moreover have "payload_is ?p (stored w bs) bs"
    using assms(1,3) by (simp add: payload_is_def MAX_PAYLOAD_SIZE_def)
  moreover have k: "keeps w (stored w bs)"
    using assms(5) by (rule keeps_stored)
  moreover have "PAYLOAD p \<noteq> Some (nalloc w)"
    using assms(5,6) by (auto simp: heap_ok_nalloc)
  ultimately show ?thesis
    using payload_is_keeps [OF assms(7) k] heap_ok_stored [OF assms(5), of bs] by fastforce
qed

theorem set_payload_preserves_copies_witness:
  "\<exists>p' w'. pkt_set_payload pkt0 (Some [1, 2]) (of_nat (length [1 :: byte, 2])) world0 = Inr (PKT_OK, p', w') \<and>
    payload_is p' w' [1, 2] \<and> payload_is (pkt_copy pkt0 pkt_empty) w' [7, 8, 9]"
proof -
  have "payload_is (pkt_copy pkt0 pkt_empty) world0 [7, 8, 9]"
    by (simp add: pkt_copy_def payload_is_pkt0)
  moreover have "live world0 (PAYLOAD pkt0)" "TR pkt0 = 0"
    by (simp_all add: pkt0_def)
  ultimately show ?thesis
    using set_payload_preserves_copies [of pkt0 "[1, 2]" world0 pkt_empty "[7, 8, 9]"] by fastforce
qed

text \<open>Decoding an accepted truncated packet whose header announces a payload releases the payload of
  the packet decoded before it: a pointer to that payload kept elsewhere dangles, and reading
  through it or releasing it again is undefined behaviour.\<close>

theorem truncated_packet_releases_payload:
  assumes "length data = 528" "\<not> oom w (nalloc w)" "heap_ok w" "PAYLOAD p = Some a" "mem w a = Some blk"
    and "wire_tr data" "wire_length data \<noteq> 0" "pkt_decode crc32 data len p w = Inr (PKT_OK, p', w')"
    and "0 < n"
  shows "load (Some a) 0 n w' = Inl UseAfterFree \<and> free (Some a) w' = Inl DoubleFree"
proof -
  have "decode_result crc32 data len p w = (PKT_OK, p', w')"
    using assms decode_eq [of data w p crc32 len] by simp
  then have "w' = stored (released w (Some a)) (wire_payload data)"
    using assms(4,6,7) by (auto simp: decode_result_def payload_stored_def split: if_splits)
  moreover have "a \<noteq> nalloc w"
    using assms(3,5) heap_ok_nalloc [OF assms(3)] by auto
  ultimately have "mem w' a = None"
    by (simp add: released_def)
  with assms(9) show ?thesis
    by (simp add: load_def free_def)
qed

definition data_tr :: bytes where
  "data_tr = header_bytes (pkt0\<lparr>TR := 1\<rparr>) @ be32 (crc_of sum_crc (Some (header_bytes (pkt0\<lparr>TR := 1\<rparr>)))) @
     replicate 516 0"

lemma data_tr_sel:
  "length data_tr = 528" "wire_tr data_tr" "wire_length data_tr = 3"
  by (simp_all add: data_tr_def wire_header) (simp add: pkt0_def)

theorem truncated_packet_releases_payload_witness:
  "\<exists>p' w'. pkt_decode sum_crc data_tr 12 pkt0 world0 = Inr (PKT_OK, p', w') \<and>
     load (Some 0) 0 3 w' = Inl UseAfterFree"
proof -
  have lv: "live world0 (PAYLOAD pkt0)" "PAYLOAD pkt0 = Some 0" by (simp_all add: pkt0_def)
  have "crc1_matches sum_crc data_tr"
    by (simp add: crc1_matches_def data_tr_def)
  then have "decode_verdict sum_crc data_tr 12 = PKT_OK"
    by (simp add: decode_verdict_def data_tr_sel MAX_PAYLOAD_SIZE_def)
  with decode_status_exists [of data_tr world0 pkt0 sum_crc 12] lv obtain p' w'
    where d: "pkt_decode sum_crc data_tr 12 pkt0 world0 = Inr (PKT_OK, p', w')"
    by (auto simp: data_tr_sel)
  with truncated_packet_releases_payload [OF data_tr_sel(1) _ _ lv(2) _ data_tr_sel(2) _ d, of "[7, 8, 9]" 3]
  show ?thesis by (auto simp: data_tr_sel)
qed

end
