(* ===== verification/Receiver_Props.thy ===== *)
theory Receiver_Props
  imports Receiver_Loop Packet_Props
begin

text \<open>
  The properties of the receiver, each followed by an instance. The instances transfer the one
  byte chunks 65, 66, \<dots> with the byte sum as the check-sum.
\<close>

section \<open>A concrete transfer\<close>

definition chunk :: "nat \<Rightarrow> bytes" where
  "chunk n = [of_nat n + 65]"

definition hdr :: "nat \<Rightarrow> pkt" where
  "hdr n = \<lparr>WINDOW = 3, TR = 0, TYPE_f = 1, SEQNUM = of_nat n, LENGTH_f = htons 1, TIMESTAMP = 0,
     CRC1 = 0, PAYLOAD = None, CRC2 = 0\<rparr>"

definition ev_data :: "nat \<Rightarrow> r_event" where
  "ev_data n = R_ready (RdBytes (packet_image sum_crc (header_bytes (hdr n)) (chunk n)))"

definition ev_end :: r_event where
  "ev_end = R_ready (RdBytes (take 12 (packet_image sum_crc (header_bytes (hdr 9\<lparr>LENGTH_f := 0\<rparr>)) [])))"

definition ev_trunc :: r_event where
  "ev_trunc = R_ready (RdBytes (header_bytes (hdr 5\<lparr>TR := 1\<rparr>) @
     be32 (crc_of sum_crc (Some (header_bytes (hdr 5\<lparr>TR := 1\<rparr>))))))"

definition world_r :: world where
  "world_r = world0\<lparr>mem := (\<lambda>_. None), nalloc := 0\<rparr>"

lemma world_r_sel [simp]: "env_good world_r" "heap_ok world_r" "obslog world_r = []"
  by (simp_all add: world_r_def world0_def env_good_def heap_ok_def)

lemma data_header_hdr: "data_header chunk n (hdr n)"
  by (simp add: data_header_def shown_def hdr_def chunk_def MAX_PAYLOAD_SIZE_def)

lemma data_event_ev: "data_event sum_crc chunk n (ev_data n)"
  using data_header_hdr by (auto simp: data_event_def ev_data_def)

lemma end_event_ev: "end_event sum_crc ev_end"
  unfolding end_event_def ev_end_def
  by (intro exI [of _ "hdr 9\<lparr>LENGTH_f := 0\<rparr>"]) (simp add: shown_def hdr_def)

section \<open>The start\<close>

text \<open>The state in which the loop starts, when nothing fails.\<close>

lemma receive_init_ok:
  assumes "env_good w" "heap_ok w" "obslog w = []" "length pe = 528" "0 < W" "W \<le> 7"
  shows "\<exists>s w1. receive_init pe w = Inr (Some s, w1) \<and> rinv D N W 0 s w1 \<and> \<not> r_end_file s \<and>
    r_index s = 0 \<and> r_buf s = rbuf_init"
proof -
  have "\<not> oom w k" for k using assms(1) by (simp add: env_good_def)
  moreover have "agrees (ring_get W) W P 0 (0, rbuf_init)" for P
    using ring_init(2) [OF assms(5,6)] by (simp add: agrees_def)
  ultimately show ?thesis
    using assms ring_init(1) [OF assms(5,6)] ring_init(2) [OF assms(5,6,5)]
    by (simp add: receive_init_def pkt_new_def Let_def rinv_def env_good_def heap_ok_def)
qed

text \<open>The state after the whole of \<open>receive_data\<close>.\<close>

lemma receive_end_run:
  assumes "rinv D N W e s w"
  shows "\<exists>w' as. receive_end crc32 (int W) s w = Inr w' \<and> length as = 11 \<and>
    (\<forall>a\<in>set as. acks a PTYPE_ACK (int W) (int (e mod 256))) \<and>
    obslog w' = obslog w @ map (\<lambda>a. Sent (ack_bytes crc32 a)) as"
proof -
  note I = rinvD [OF assms]
  have W: "0 \<le> int W" "int W \<le> 31" using I(17) by simp_all
  from final_acks_run [OF I(13,7,11,6) W I(10,12), of 0 crc32] obtain s' w' as where
    f: "final_acks crc32 (int W) 0 s w = Inr (s', w')" "length as = 11"
      "\<forall>a\<in>set as. acks a PTYPE_ACK (int W) (r_seq_exp s)"
      "obslog w' = obslog w @ map (\<lambda>a. Sent (ack_bytes crc32 a)) as" "r_pkt_rcv s' = r_pkt_rcv s"
    and l: "live w' (PAYLOAD (r_pkt_ack s'))" "live w' (PAYLOAD (r_pkt_rcv s))"
      "PAYLOAD (r_pkt_rcv s) = None \<or> PAYLOAD (r_pkt_rcv s) \<noteq> PAYLOAD (r_pkt_ack s')"
    by auto
  let ?w1 = "released w' (PAYLOAD (r_pkt_ack s'))"
  have "live ?w1 (PAYLOAD (r_pkt_rcv s))"
    using l(2,3) by (auto simp: live_def released_def split: option.splits)
  then have "receive_end crc32 (int W) s w = Inr (released ?w1 (PAYLOAD (r_pkt_rcv s)))"
    using l(1) by (simp add: receive_end_def f pkt_del_def free_released)
  with f I(3) show ?thesis by auto
qed

section \<open>Reordering\<close>

text \<open>C20. \<open>add_buffer\<close> puts a packet aside exactly when its sequence number lies less than the window
  ahead of the expected one (modulo 256), at that distance in the circular array, and otherwise
  changes nothing; the one exception is the number 0 when \<open>seq_exp + window - 1\<close> is 256 (the
  code compares with \<open>> 256\<close>), which is dropped although it lies in the window.\<close>

theorem add_buffer_window:
  assumes "ring_inv W (index, b)"
  shows "add_buffer index (uint (r :: u8)) (uint (x :: u8)) rcv (int W) b =
    Inr (if uint (r - x) < int W \<and> \<not> (uint x + int W = 257 \<and> r = 0)
         then snd (ring_put W (unat (r - x)) (uint (pkt_get_length rcv), pkt_get_payload rcv) (index, b))
         else b)"
proof -
  have lt: "uint r < 256" "uint x < 256"
    using unsigned_less [of r] unsigned_less [of x] by simp_all
  then have d: "(uint r - uint x) mod 256 = uint (r - x)"
    by (subst mod_256_cases) (simp_all add: uint_sub_if')
  have e: "uint x + int W - 1 = 256 \<longleftrightarrow> uint x + int W = 257" by auto
  have z: "uint r = 0 \<longleftrightarrow> r = 0" by (simp add: uint_0_iff)
  have n: "nat (uint (r - x)) = unat (r - x)" by simp
  have "0 \<le> uint r" "0 \<le> uint x" by simp_all
  from add_buffer_eq [OF assms this(1) lt(1) this(2) lt(2), of rcv]
  show ?thesis unfolding d e z n .
qed

theorem add_buffer_window_witness:
  "add_buffer 0 (uint (0 :: u8)) (uint (254 :: u8)) (hdr 256) (int 3) rbuf_init = Inr rbuf_init \<and>
   add_buffer 0 (uint (255 :: u8)) (uint (254 :: u8)) (hdr 255) (int 3) rbuf_init =
     Inr (snd (ring_put 3 1 (1, None) (0, rbuf_init)))"
proof -
  have "ring_inv 3 (0, rbuf_init)" by (rule ring_init(1)) simp_all
  note add_buffer_window [OF this, of 0 254 "hdr 256"] add_buffer_window [OF this, of 255 254 "hdr 255"]
  moreover have "pkt_get_length (hdr 255) = 1" "pkt_get_payload (hdr 255) = None"
    by (simp_all add: pkt_get_length_def pkt_get_payload_def hdr_def)
  ultimately show ?thesis by simp
qed

text \<open>C10. The data packets refine the abstract receiver \<open>spec_data\<close>: in any state of the invariant, a data
  packet of the transfer (however old or far ahead, within what 8 bits can tell) is put aside or
  dropped as the specification says, the longest contiguous run of chunks is appended to the
  file in order, one acknowledgement with the number expected next is sent, and the invariant
  holds again. Nothing in the round has undefined behaviour.\<close>

theorem receive_step_refines_spec:
  assumes "rinv D N W e s w" "data_event crc32 D n ev" "n < N" "e \<le> n + (256 - W)" "n < e + 256"
  shows "\<exists>s' w' e' a. receive_step crc32 (int W) ev s w = Inr (Running s', w') \<and> rinv D N W e' s' w' \<and>
    spec_data W (e, held W e (r_index s) (r_buf s)) n = (e', held W e' (r_index s') (r_buf s')) \<and>
    file_of (obslog w') = file_of (obslog w) @ concat (map D [e..<e']) \<and>
    sent_of (obslog w') = sent_of (obslog w) @ [ack_bytes crc32 a] \<and>
    acks a PTYPE_ACK (int W) (int (e' mod 256))"
  using data_step [OF assms] by fastforce

theorem receive_step_refines_spec_witness:
  "\<exists>s w s' w' a. receive_init (replicate 528 0) world_r = Inr (Some s, w) \<and>
     receive_step sum_crc (int 3) (ev_data 0) s w = Inr (Running s', w') \<and>
     spec_data 3 (0, held 3 0 (r_index s) (r_buf s)) 0 = (1, {}) \<and> file_of (obslog w') = [65] \<and>
     acks a PTYPE_ACK (int 3) 1"
proof -
  obtain s w where s: "receive_init (replicate 528 0) world_r = Inr (Some s, w)" "rinv chunk 2 3 0 s w"
    and st: "r_index s = 0" "r_buf s = rbuf_init"
    using receive_init_ok [of world_r "replicate 528 0" 3 chunk 2] by auto
  have fl: "file_of (obslog w) = []" using rinvD(15) [OF s(2)] by simp
  have "ring_get 3 (0, rbuf_init) d = None" if "d < 3" for d
    using ring_init(2) [OF _ _ that] by simp
  then have h: "held 3 0 0 rbuf_init = {}" by (auto simp: held_def)
  have sp: "spec_data 3 (0, {}) 0 = (1, {})"
    by (simp add: spec_data_def takes_def upt_rec)
  from receive_step_refines_spec [OF s(2) data_event_ev [of 0]] obtain s' w' e' a where
    r: "receive_step sum_crc (int 3) (ev_data 0) s w = Inr (Running s', w')"
      "spec_data 3 (0, held 3 0 (r_index s) (r_buf s)) 0 = (e', held 3 e' (r_index s') (r_buf s'))"
      "file_of (obslog w') = file_of (obslog w) @ concat (map chunk [0..<e'])"
      "acks a PTYPE_ACK (int 3) (int (e' mod 256))"
    by auto
  from r(2) have "e' = 1" by (simp add: st h sp)
  with s r have "file_of (obslog w') = [65]" "acks a PTYPE_ACK (int 3) 1"
    by (simp_all add: fl chunk_def)
  with s(1) r(1) show ?thesis using h sp st by metis
qed

section \<open>The whole transfer\<close>

text \<open>C9. Safety of the receive loop: whatever the network does within \<open>arrival\<close> (loss, repetition,
  reordering, corruption that the check-sums reveal, foreign packets, the end packet at any
  moment), for a transfer of any length, the loop never has undefined behaviour and the file is
  always the first chunks of the transfer, in order, each once; \<open>seq_exp\<close> is their number
  modulo 256.\<close>

theorem receiver_prefix:
  assumes "env_good w" "heap_ok w" "obslog w = []" "length pe = 528"
    and "receive_init pe w = Inr (Some s, w1)" "admissible crc32 D N 3 evs s w1"
  shows "\<exists>s' w' e. receive_loop crc32 3 evs s w1 = Inr (Running s', w') \<and> e \<le> N \<and>
    file_of (obslog w') = concat (map D [0..<e]) \<and> r_seq_exp s' = int (e mod 256)"
proof -
  have "rinv D N 3 0 s w1"
    using receive_init_ok [OF assms(1-4), of 3 D N] assms(5) by auto
  from loop_safe [OF this assms(6)] show ?thesis
    using rinvD(1,3,15) by fastforce
qed

text \<open>The packets of the instance: chunk 2 overtakes, chunk 0 comes twice.\<close>

definition run0 :: "r_event list" where
  "run0 = [ev_data 2, ev_data 0, R_idle, ev_data 0, ev_data 1]"

lemma run0_short:
  "ev \<in> set run0 \<Longrightarrow> ev = R_idle \<or> end_event sum_crc ev \<or> (\<exists>n<3. data_event sum_crc chunk n ev)"
  using data_event_ev [of 0] data_event_ev [of 1] data_event_ev [of 2] by (auto simp: run0_def)

theorem receiver_prefix_witness:
  "\<exists>s w1 s' w' e. receive_init (replicate 528 0) world_r = Inr (Some s, w1) \<and>
     receive_loop sum_crc 3 run0 s w1 = Inr (Running s', w') \<and> e \<le> 3 \<and>
     file_of (obslog w') = concat (map chunk [0..<e])"
proof -
  obtain s w where s: "receive_init (replicate 528 0) world_r = Inr (Some s, w)" "rinv chunk 3 3 0 s w"
    using receive_init_ok [of world_r "replicate 528 0" 3 chunk 3] by auto
  have "admissible sum_crc chunk 3 3 run0 s w"
    by (rule admissible_short [OF _ s(2) run0_short]) simp_all
  from receiver_prefix [OF _ _ _ _ s(1) this] s(1) show ?thesis by auto
qed

text \<open>Delivery: if no end packet arrives and the chunks 0, 1, \<dots>, N - 1 arrive in this order,
  with any other admissible events before, between and after them (retransmissions included),
  the file is the whole transfer.\<close>

theorem receiver_complete:
  assumes "env_good w" "heap_ok w" "obslog w = []" "length pe = 528"
    and "receive_init pe w = Inr (Some s, w1)" "admissible crc32 D N 3 evs s w1"
    and "in_order crc32 D 0 N evs" "\<forall>ev\<in>set evs. \<not> end_event crc32 ev"
  shows "\<exists>s' w'. receive_loop crc32 3 evs s w1 = Inr (Running s', w') \<and> \<not> r_end_file s' \<and>
    file_of (obslog w') = concat (map D [0..<N])"
proof -
  have inv: "rinv D N 3 0 s w1" "\<not> r_end_file s"
    using receive_init_ok [OF assms(1-4), of 3 D N] assms(5) by auto
  from loop_complete [OF inv(1) assms(6) inv(2) _ assms(7)] assms(8) show ?thesis
    using rinvD(15) by fastforce
qed

lemma ev_data_no_end: "\<not> end_event crc32 (ev_data n)"
proof
  assume "end_event crc32 (ev_data n)"
  then obtain p where "packet_image sum_crc (header_bytes (hdr n)) (chunk n) =
      take 12 (packet_image crc32 (header_bytes p) [])"
    by (auto simp: end_event_def ev_data_def)
  then have "length (packet_image sum_crc (header_bytes (hdr n)) (chunk n)) =
      length (take 12 (packet_image crc32 (header_bytes p) []))"
    by (rule arg_cong)
  then show False by (simp add: chunk_def)
qed

definition run1 :: "r_event list" where
  "run1 = run0 @ [ev_data 2]"

lemma run1_ok: "in_order sum_crc chunk 0 3 run1" "ev \<in> set run1 \<Longrightarrow> \<not> end_event sum_crc ev"
  "ev \<in> set run1 \<Longrightarrow> ev = R_idle \<or> end_event sum_crc ev \<or> (\<exists>n<3. data_event sum_crc chunk n ev)"
  using data_event_ev [of 0] data_event_ev [of 1] data_event_ev [of 2] ev_data_no_end run0_short [of ev]
  by (auto simp: run1_def run0_def numeral_3_eq_3 numeral_2_eq_2) (auto simp: end_event_def)

theorem receiver_complete_witness:
  "\<exists>s w1 s' w'. receive_init (replicate 528 0) world_r = Inr (Some s, w1) \<and>
     receive_loop sum_crc 3 run1 s w1 = Inr (Running s', w') \<and> file_of (obslog w') = [65, 66, 67]"
proof -
  obtain s w where s: "receive_init (replicate 528 0) world_r = Inr (Some s, w)" "rinv chunk 3 3 0 s w"
    using receive_init_ok [of world_r "replicate 528 0" 3 chunk 3] by auto
  have "admissible sum_crc chunk 3 3 run1 s w"
    by (rule admissible_short [OF _ s(2) run1_ok(3)]) simp_all
  from receiver_complete [OF _ _ _ _ s(1) this run1_ok(1)] run1_ok(2) s(1) show ?thesis
    by (auto simp: chunk_def upt_rec)
qed

text \<open>The whole of \<open>receive_data\<close> on a short transfer.\<close>

lemma receive_data_run:
  assumes "env_good w" "heap_ok w" "obslog w = []" "length pe = 528" "0 \<le> sfd" "0 \<le> wait" "N \<le> 253"
    and "\<forall>ev\<in>set evs. ev = R_idle \<or> (\<exists>n<N. data_event crc32 D n ev) \<and> \<not> end_event crc32 ev"
    and "in_order crc32 D 0 N evs" "end_event crc32 fin"
  shows "\<exists>w' before as. receive_data crc32 True sfd wait pe (evs @ fin # late) w = Inr (Returned, w') \<and>
    file_of (obslog w') = concat (map D [0..<N]) \<and> sent_of (obslog w') = before @ map (ack_bytes crc32) as \<and>
    length as = 11 \<and> (\<forall>a\<in>set as. acks a PTYPE_ACK 3 (int (N mod 256)))"
proof -
  from receive_init_ok [OF assms(1-4), of 3 D N] obtain s w1 where
    s: "receive_init pe w = Inr (Some s, w1)" "rinv D N 3 0 s w1" "\<not> r_end_file s" by auto
  have "N \<le> 256 - 3" using assms(7) by simp
  from admissible_short [OF this s(2), of evs crc32] assms(8)
  have ad: "admissible crc32 D N 3 evs s w1" by blast
  have ne: "\<not> end_event crc32 ev" if "ev \<in> set evs" for ev
    using assms(8) that by (auto simp: end_event_def)
  from loop_complete [OF s(2) ad s(3) ne assms(9)] obtain s2 w2 where
    l: "receive_loop crc32 (int 3) evs s w1 = Inr (Running s2, w2)" "rinv D N 3 N s2 w2" "\<not> r_end_file s2"
    by auto
  from end_step [OF l(2) assms(10)] obtain s3 w3 where
    e: "receive_step crc32 (int 3) fin s2 w2 = Inr (Running s3, w3)" "rinv D N 3 N s3 w3" "r_end_file s3"
    by auto
  have "receive_loop crc32 (int 3) late s3 w3 = Inr (Running s3, w3)"
    using e(3) by (cases late) simp_all
  with l e(1) have lp: "receive_loop crc32 3 (evs @ fin # late) s w1 = Inr (Running s3, w3)"
    by (simp add: receive_loop_append)
  from receive_end_run [OF e(2), of crc32] obtain w4 as where
    f: "receive_end crc32 3 s3 w3 = Inr w4" "length as = 11" "\<forall>a\<in>set as. acks a PTYPE_ACK 3 (int (N mod 256))"
      "obslog w4 = obslog w3 @ map (\<lambda>a. Sent (ack_bytes crc32 a)) as" by auto
  have logs: "file_of (map (\<lambda>a. Sent (ack_bytes crc32 a)) as) = []"
    "sent_of (map (\<lambda>a. Sent (ack_bytes crc32 a)) as) = map (ack_bytes crc32) as"
    by (induction as) simp_all
  have "receive_data crc32 True sfd wait pe (evs @ fin # late) w = Inr (Returned, w4)"
    using assms(5,6) by (simp add: receive_data_def s(1) lp e(3) f(1))
  with f(2-4) rinvD(15) [OF e(2)] logs show ?thesis
    by (intro exI [of _ w4] exI [of _ "sent_of (obslog w3)"] exI [of _ as]) simp
qed

text \<open>C12. The whole of \<open>receive_data\<close> on a transfer of up to 253 chunks: when the three calls that
  set up the socket succeed, the chunks arrive in order among any repetitions and reorderings of
  them, and then an end packet arrives, the function returns, the file is the transfer, and the
  last datagrams sent are exactly 11 acknowledgements of the last chunk (the comment in the code
  says 10). What arrives afterwards is not read.\<close>

theorem receive_data_transfer:
  assumes "env_good w" "heap_ok w" "obslog w = []" "length pe = 528" "0 \<le> sfd" "0 \<le> wait" "N \<le> 253"
    and "\<forall>ev\<in>set evs. ev = R_idle \<or> (\<exists>n<N. data_event crc32 D n ev) \<and> \<not> end_event crc32 ev"
    and "in_order crc32 D 0 N evs" "end_event crc32 fin"
  shows "\<exists>w' before as. receive_data crc32 True sfd wait pe (evs @ fin # late) w = Inr (Returned, w') \<and>
    file_of (obslog w') = concat (map D [0..<N]) \<and> sent_of (obslog w') = before @ map (ack_bytes crc32) as \<and>
    length as = 11 \<and> (\<forall>a\<in>set as. acks a PTYPE_ACK 3 (int (N mod 256)))"
  using assms by (rule receive_data_run)

theorem receive_data_transfer_witness:
  "\<exists>w'. receive_data sum_crc True 3 0 (replicate 528 0) (run1 @ [ev_end]) world_r = Inr (Returned, w') \<and>
     file_of (obslog w') = [65, 66, 67] \<and> 11 \<le> length (sent_of (obslog w'))"
proof -
  have "\<forall>ev\<in>set run1. ev = R_idle \<or> (\<exists>n<3. data_event sum_crc chunk n ev) \<and> \<not> end_event sum_crc ev"
    using run1_ok(2,3) by blast
  from receive_data_transfer [OF _ _ _ _ _ _ _ this run1_ok(1) end_event_ev, of world_r "replicate 528 0" 3 0 "[]"]
  show ?thesis by (auto simp: chunk_def upt_rec)
qed

section \<open>Acknowledgements\<close>

text \<open>\<open>send_ack\<close> on a packet that is not truncated and whose payload is live: it puts exactly one
  datagram of 12 bytes on the socket, with the requested type, the window, \<open>seqnum + 1\<close> modulo
  256 and no payload, and returns 0; when \<open>write\<close> fails it returns -1 and has sent nothing. The
  time stamp on the wire is the receiver's own clock, whatever \<open>time_data\<close> the caller wants
  echoed, because \<open>pkt_encode\<close> overwrites it.\<close>

theorem send_ack_datagram:
  assumes "TR ack0 = 0" "\<not> oom w (nalloc w)" "live w (PAYLOAD ack0)" "0 \<le> window" "window \<le> 31"
    and "ty = PTYPE_ACK \<or> ty = PTYPE_NACK"
  shows "\<exists>a w'. send_ack crc32 ack0 seqnum ty time_data window w =
      Inr (if wfail w (nwrite w) then -1 else 0, a, w') \<and>
    sent_of (obslog w') = sent_of (obslog w) @
      (if wfail w (nwrite w) then [] else [header_bytes a @ be32 (crc32 (crc32 0 None) (Some (header_bytes a)))]) \<and>
    file_of (obslog w') = file_of (obslog w) \<and>
    pkt_get_type a = ty \<and> pkt_get_seqnum a = word_of_int (seqnum + 1) \<and>
    pkt_get_window a = word_of_int window \<and> pkt_get_length a = 0 \<and>
    pkt_get_timestamp a = stamp_of (clock w (nclock w))"
proof -
  from send_ack_eq [OF assms, of seqnum crc32 time_data] obtain a where
    a: "acks a ty window (seqnum + 1)" "pkt_get_timestamp a = stamp w" "TR a = 0"
    and sa: "send_ack crc32 ack0 seqnum ty time_data window w =
      (case do_write Sent (ack_bytes crc32 a)
          (snd (gettimeofday (stored (released w (PAYLOAD ack0)) []))) of
         (r, w3) \<Rightarrow> Inr (if r < 0 then -1 else 0, a, w3))"
    by blast
  have "pkt_get_length a = 0" using a(1,3) by (simp add: acks_def pkt_get_length_def)
  with a show ?thesis
    unfolding sa by (auto simp: do_write_def Let_def acks_def ack_bytes_def crc_of_def stamp_def)
qed

theorem send_ack_datagram_witness:
  "\<exists>a w'. send_ack sum_crc pkt_empty 255 PTYPE_ACK 77 3 world0 = Inr (0, a, w') \<and>
     pkt_get_seqnum a = 0 \<and> pkt_get_timestamp a = 5"
proof -
  have "stamp_of (clock world0 (nclock world0)) = 5" "\<not> wfail world0 (nwrite world0)"
    by (simp_all add: world0_def stamp_of_def)
  with send_ack_datagram [of pkt_empty world0 3 PTYPE_ACK sum_crc 255 77] show ?thesis
    by (auto simp del: word_of_int_numeral)
qed

text \<open>A data packet that \<open>pkt_decode\<close> accepts with the truncation bit set is answered by one NACK
  and changes neither the file nor the reordering buffer; the number in the NACK is the one
  after the truncated packet.\<close>

theorem truncated_packet_nack:
  assumes "rinv D N W e s w" "length (r_packet s) = 528" "wire_tr (r_packet s)"
    and "decode_verdict crc32 (r_packet s) len = PKT_OK"
    and "(ucast (drop_bit 6 (hd (r_packet s))) :: 2 word) = 1"
  shows "\<exists>s' w' a. handle_datagram crc32 (int W) len s w = Inr (s', w') \<and>
    obslog w' = obslog w @ [Sent (ack_bytes crc32 a)] \<and>
    acks a PTYPE_NACK (int W) (uint (hd (drop 1 (r_packet s))) + 1) \<and>
    r_buf s' = r_buf s \<and> r_index s' = r_index s \<and> r_seq_exp s' = r_seq_exp s \<and> r_end_file s' = r_end_file s"
proof -
  note I = rinvD [OF assms(1)]
  let ?r = "decode_result crc32 (r_packet s) len (r_pkt_rcv s) w"
  obtain p' w1 where r: "?r = (PKT_OK, p', w1)"
    using fst_decode_result [of crc32 "r_packet s" len "r_pkt_rcv s" w] assms(4)
    by (metis prod.collapse)
  then have pd: "pkt_decode crc32 (r_packet s) len (r_pkt_rcv s) w = Inr (PKT_OK, p', w1)"
    using decode_eq [of "r_packet s" w "r_pkt_rcv s" crc32 len] assms(2) I(8,10) by simp
  have ty: "pkt_get_type p' = PTYPE_DATA"
    using TYPE_decoded [OF r] assms(5) by (simp add: pkt_get_type_data)
  have p': "TR p' \<noteq> 0" "SEQNUM p' = hd (drop 1 (r_packet s))"
    using r assms(3)
    by (auto simp: decode_result_def with_crc1_def with_payload_def with_crc2_def split: if_splits)
  have tr: "pkt_get_tr p' = 1"
    using p'(1) by (simp add: one_word_cases pkt_get_tr_def)
  have w1: "w1 = w \<or> w1 = stored (released w (PAYLOAD (r_pkt_rcv s))) (wire_payload (r_packet s))"
    using r assms(3) by (auto simp: decode_result_def payload_stored_def split: if_splits)
  have "live (released w (PAYLOAD (r_pkt_rcv s))) (PAYLOAD (r_pkt_ack s))"
    using I(11,12) by (auto simp: live_def released_def split: option.splits)
  then have lv: "live w1 (PAYLOAD (r_pkt_ack s))" and env: "env_good w1" and log: "obslog w1 = obslog w"
    using w1 I(7,11) by (auto simp: live_def split: option.splits)
  have W: "0 \<le> int W" "int W \<le> 31" using I(17) by simp_all
  from send_ack_good [OF I(13) env lv W, of PTYPE_NACK "uint (pkt_get_seqnum p')" crc32 "pkt_get_timestamp p'"]
  obtain a where a: "acks a PTYPE_NACK (int W) (uint (pkt_get_seqnum p') + 1)"
    and sa: "send_ack crc32 (r_pkt_ack s) (uint (pkt_get_seqnum p')) PTYPE_NACK (pkt_get_timestamp p') (int W) w1 =
      Inr (0, a, acked w1 (PAYLOAD (r_pkt_ack s)) (ack_bytes crc32 a))"
    by auto
  have "handle_datagram crc32 (int W) len s w =
      Inr (s\<lparr>r_pkt_rcv := p', r_pkt_ack := a\<rparr>, acked w1 (PAYLOAD (r_pkt_ack s)) (ack_bytes crc32 a))"
    unfolding handle_datagram_def pd andthen_Inr using ty tr sa by simp
  then show ?thesis
    using a env log p'(2)
    by (intro exI [of _ "s\<lparr>r_pkt_rcv := p', r_pkt_ack := a\<rparr>"]
        exI [of _ "acked w1 (PAYLOAD (r_pkt_ack s)) (ack_bytes crc32 a)"] exI [of _ a])
      (simp add: pkt_get_seqnum_def)
qed

theorem truncated_packet_nack_witness:
  "\<exists>s w s' w' a. receive_init data_tr world_r = Inr (Some s, w) \<and>
     handle_datagram sum_crc (int 3) 12 s w = Inr (s', w') \<and>
     obslog w' = [Sent (ack_bytes sum_crc a)] \<and> acks a PTYPE_NACK (int 3) 5"
proof -
  obtain s w where s: "receive_init data_tr world_r = Inr (Some s, w)" "rinv chunk 2 3 0 s w"
    using receive_init_ok [of world_r data_tr 3 chunk 2] data_tr_sel(1) by auto
  have pk: "r_packet s = data_tr" and log: "obslog w = []"
    using s(1) by (auto simp: receive_init_def pkt_new_def Let_def world_r_def world0_def)
  have c: "crc1_matches sum_crc data_tr"
    by (simp add: crc1_matches_def data_tr_def)
  have v: "decode_verdict sum_crc data_tr 12 = PKT_OK"
    using c data_tr_sel by (simp add: decode_verdict_def MAX_PAYLOAD_SIZE_def)
  have t: "(ucast (drop_bit 6 (hd data_tr)) :: 2 word) = 1" "hd (drop 1 data_tr) = 4"
    by (simp_all add: data_tr_def header_bytes_def byte0_def pkt0_def)
  from truncated_packet_nack [OF s(2), of sum_crc 12] s(1) show ?thesis
    unfolding pk log using data_tr_sel v t by auto
qed

section \<open>Limits\<close>

text \<open>An end packet ends the transfer whatever its sequence number is and however many chunks
  are missing: the loop stops after it, and the file stays what it was.\<close>

theorem end_packet_unconditional:
  assumes "rinv D N W e s w" "\<not> r_end_file s" "end_event crc32 ev"
  shows "\<exists>s' w'. receive_loop crc32 (int W) (ev # late) s w = Inr (Running s', w') \<and> r_end_file s' \<and>
    obslog w' = obslog w \<and> file_of (obslog w') = concat (map D [0..<e])"
proof -
  from end_step [OF assms(1,3)] obtain s' w' where
    e: "receive_step crc32 (int W) ev s w = Inr (Running s', w')" "rinv D N W e s' w'" "r_end_file s'"
      "obslog w' = obslog w" by blast
  moreover have "receive_loop crc32 (int W) late s' w' = Inr (Running s', w')"
    using e(3) by (cases late) simp_all
  ultimately show ?thesis
    using assms(2) rinvD(15) [OF e(2)] by (intro exI [of _ s'] exI [of _ w']) simp
qed

theorem end_packet_unconditional_witness:
  "\<exists>s w s' w'. receive_init (replicate 528 0) world_r = Inr (Some s, w) \<and>
     receive_loop sum_crc (int 3) [ev_end, ev_data 0] s w = Inr (Running s', w') \<and> file_of (obslog w') = []"
proof -
  obtain s w where s: "receive_init (replicate 528 0) world_r = Inr (Some s, w)" "rinv chunk 3 3 0 s w"
    "\<not> r_end_file s"
    using receive_init_ok [of world_r "replicate 528 0" 3 chunk 3] by auto
  from end_packet_unconditional [OF s(2,3) end_event_ev, of "[ev_data 0]"] s(1) show ?thesis by auto
qed

text \<open>The receiver reads a released payload: chunk 1 arrives first and is held back, a packet
  truncated by its sender is decoded (its \<open>pkt_set_payload\<close> releases the payload of chunk 1,
  which the reordering buffer still points to), then chunk 0 arrives and both are written.\<close>

theorem truncated_packet_use_after_free:
  "(case receive_data sum_crc True 3 0 (replicate 528 0) [ev_data 1, ev_trunc, ev_data 0] world_r of
      Inl f \<Rightarrow> f = UseAfterFree | Inr _ \<Rightarrow> False)"
  by code_simp

text \<open>\<open>memset\<close> with a byte count of 31 marks only the first 7 of the 31 slots as empty and sets
  the eighth to 16777215: the program's window of 3 starts with empty slots, a window of 8 or
  more would start with slots that count as full of bytes at \<open>NULL\<close>.\<close>

theorem buffer_len_memset:
  "buffer_len_init = replicate 7 (-1) @ [16777215] @ replicate 23 0 \<and>
   map (ring_get 3 (0, rbuf_init)) [0..<3] = replicate 3 None \<and>
   map (ring_get 9 (0, rbuf_init)) [6, 7, 8] = [None, Some (16777215, None), Some (0, None)]"
  by (intro conjI; code_simp)

text \<open>When one of the two packets cannot be allocated, the error path calls \<open>pkt_del\<close> on the null
  pointer and dereferences it; it is the only way the set-up can fail.\<close>

theorem receive_init_fault:
  "(receive_init pe w = Inl NullDeref \<longleftrightarrow> oom w (nalloc w) \<or> oom w (Suc (nalloc w))) \<and>
   (receive_init pe w \<noteq> Inl NullDeref \<longleftrightarrow> (\<exists>s w'. receive_init pe w = Inr (Some s, w')))"
  by (simp add: receive_init_def pkt_new_def pkt_del_def Let_def)

end
