(* ===== verification/Sender_Props.thy ===== *)
theory Sender_Props
  imports Sender_End Receiver_Props
begin

text \<open>
  The properties of the sender, each followed by an instance: the transfer of the one byte
  chunks of Receiver_Props with a window of 3. Arithmetic on \<open>double\<close> is instantiated with
  integer arithmetic.
\<close>

section \<open>A concrete run\<close>

definition int_ops :: "int dbl" where
  "int_ops = \<lparr>d_of = id, d_add = (+), d_sub = (-), d_mul = (*), d_div = (div), to_long = id, to_int = id\<rparr>"

definition ackp :: "nat \<Rightarrow> pkt" where
  "ackp k = \<lparr>WINDOW = 3, TR = 0, TYPE_f = 2, SEQNUM = of_nat k, LENGTH_f = 0, TIMESTAMP = 0,
     CRC1 = 0, PAYLOAD = None, CRC2 = 0\<rparr>"

definition se_chunk :: "nat \<Rightarrow> s_event" where
  "se_chunk n = \<lparr>ev_file = Some (SrBytes (chunk n)), ev_sock = None\<rparr>"

definition se_ack :: "nat \<Rightarrow> s_event" where
  "se_ack k = \<lparr>ev_file = None, ev_sock = Some (SrBytes (ack_bytes sum_crc (ackp k)))\<rparr>"

definition se_idle :: s_event where
  "se_idle = \<lparr>ev_file = None, ev_sock = None\<rparr>"

definition se_eof :: s_event where
  "se_eof = \<lparr>ev_file = Some (SrBytes []), ev_sock = None\<rparr>"

lemma acks_ackp: "acks (ackp k) PTYPE_ACK (int 3) (int (k mod 256))" "TR (ackp k) = 0"
  by (simp_all add: acks_def ackp_def pkt_get_type_def pkt_get_tr_def pkt_get_window_def pkt_get_seqnum_def u8_of_mod)

lemma chunk_ok: "chunk j \<noteq> [] \<and> length (chunk j) \<le> 512"
  by (simp add: chunk_def)

lemma round_chunk:
  "n < N \<Longrightarrow> Suc n < 2 ^ 31 \<Longrightarrow> int n - int a < v \<Longrightarrow> n' = Suc n \<Longrightarrow>
     s_round sum_crc chunk N 3 fg a n v (se_chunk n) a n' v False"
  unfolding se_chunk_def by (simp, rule s_round.round [OF fp_chunk sp_none]) auto

lemma round_ack:
  "a \<le> k \<Longrightarrow> k \<le> n \<Longrightarrow> s_round sum_crc chunk N 3 fg a n v (se_ack k) k n (int 3) False"
  unfolding se_ack_def by (rule s_round.round [OF fp_none sp_ack [OF acks_ackp]]) auto

lemma round_idle:
  "0 < n \<Longrightarrow> a < n \<Longrightarrow> s_round sum_crc chunk N 3 fg a n v se_idle a n v False"
  unfolding se_idle_def by (rule s_round.round [OF fp_none sp_none]) auto

lemma round_eof:
  "int N - int a < v \<Longrightarrow> 0 < N \<Longrightarrow> a < N \<or> 3 \<le> N \<Longrightarrow> s_round sum_crc chunk N 3 fg a N v se_eof a N v True"
  unfolding se_eof_def by (rule s_round.round [OF fp_end sp_none]) auto

definition s_reads :: "s_event list" where
  "s_reads = [se_chunk 0, se_ack 1, se_chunk 1, se_chunk 2, se_idle]"

definition s_run0 :: "s_event list" where
  "s_run0 = s_reads @ [se_eof]"

lemma s_reads_run:
  assumes "s_run sum_crc chunk 3 3 True 1 3 (int 3) evs a n v e"
  shows "s_run sum_crc chunk 3 3 True 0 0 1 (s_reads @ evs) a n v e"
proof -
  note assms
  then have "s_run sum_crc chunk 3 3 True 1 3 (int 3) (se_idle # evs) a n v e"
    by (rule run_step [rotated], intro round_idle) simp_all
  then have "s_run sum_crc chunk 3 3 True 1 2 (int 3) (se_chunk 2 # se_idle # evs) a n v e"
    by (rule run_step [rotated], intro round_chunk) simp_all
  then have "s_run sum_crc chunk 3 3 True 1 1 (int 3) (se_chunk 1 # se_chunk 2 # se_idle # evs) a n v e"
    by (rule run_step [rotated], intro round_chunk) simp_all
  then have "s_run sum_crc chunk 3 3 True 0 1 1 (se_ack 1 # se_chunk 1 # se_chunk 2 # se_idle # evs) a n v e"
    by (rule run_step [rotated], intro round_ack) simp_all
  then have "s_run sum_crc chunk 3 3 True 0 0 1 (se_chunk 0 # se_ack 1 # se_chunk 1 # se_chunk 2 # se_idle # evs) a n v e"
    by (rule run_step [rotated], intro round_chunk) simp_all
  then show ?thesis by (simp add: s_reads_def)
qed

lemma s_run0_ok: "s_run sum_crc chunk 3 3 True 0 0 1 s_run0 1 3 (int 3) True"
  unfolding s_run0_def
  by (rule s_reads_run, rule run_end, rule round_eof) simp_all

lemma s_reads_ok: "s_run sum_crc chunk 3 3 True 0 0 1 s_reads 1 3 (int 3) False"
  using s_reads_run [OF run_nil] by simp

section \<open>The main loop\<close>

text \<open>C11. The sender's main loop over any permitted run of a transfer of any length: it never
  has undefined behaviour, every datagram it sends is a data packet of the transfer as the
  receiver expects it (right number, payload, check-sums), and every chunk it read is sent, the
  first transmissions in the order of the file. It stops at the end of the file and not before.\<close>

theorem sender_run_safe:
  assumes "env_good w" "heap_ok w" "1 \<le> W" "W \<le> 31" "length pe = 528" "length rt = 512"
    and "send_init pe rt w = Inr (Some s, w1)" "s_run crc32 D N W fg 0 0 1 evs a n v ended"
    and "0 \<le> sfd" "0 \<le> fd" "\<forall>j<N. D j \<noteq> [] \<and> length (D j) \<le> 512"
  shows "\<exists>s' left w' js bss. send_loop crc32 ops fg sfd fd evs s w1 = Inr (SRunning s', left, w') \<and>
    obslog w' = obslog w @ map Sent bss \<and>
    list_all2 (\<lambda>j bs. data_event crc32 D j (R_ready (RdBytes bs))) js bss \<and> subseq [0..<n] js \<and> set js \<subseteq> {..<n} \<and>
    (s_endFile s' = 1 \<longleftrightarrow> ended) \<and> (\<not> going s' \<longleftrightarrow> ended)"
proof -
  have i: "sinv D W 0 0 1 s w1" "s_endFile s = 0" "obslog w1 = obslog w"
    using send_init_ok [OF assms(1-6)] assms(7) by auto
  have chunks: "\<And>j. j < N \<Longrightarrow> D j \<noteq> [] \<and> length (D j) \<le> 512" using assms(11) by blast
  from run_ok [OF assms(8) i(1,2) assms(9,10) chunks, of ops] obtain s' left w' js where
    r: "send_loop crc32 ops fg sfd fd evs s w1 = Inr (SRunning s', left, w')"
      "s_endFile s' = (if ended then 1 else 0)" "sends crc32 D js w1 w'" "subseq [0..<n] js" "set js \<subseteq> {..<n}"
    by blast
  obtain bss where "obslog w' = obslog w1 @ map Sent bss" "list_all2 (data_packet crc32 D) js bss"
    using r(3) by (auto simp: sends_def)
  then show ?thesis
    using r(1,2,4,5) i(3) unfolding data_packet_def [abs_def]
    by (intro exI [of _ s'] exI [of _ left] exI [of _ w'] exI [of _ js] exI [of _ bss]) (simp add: going_def)
qed

theorem sender_run_safe_witness:
  "\<exists>s w1 s' left w' js bss. send_init (replicate 528 0) (replicate 512 0) world_r = Inr (Some s, w1) \<and>
    send_loop sum_crc int_ops True 3 4 s_run0 s w1 = Inr (SRunning s', left, w') \<and>
    obslog w' = map Sent bss \<and>
    list_all2 (\<lambda>j bs. data_event sum_crc chunk j (R_ready (RdBytes bs))) js bss \<and> subseq [0..<3] js \<and> set js \<subseteq> {..<3}"
proof -
  obtain s w1 where s: "send_init (replicate 528 0) (replicate 512 0) world_r = Inr (Some s, w1)"
    using send_init_ok [where w = world_r and W = 3 and D = chunk and pe = "replicate 528 0" and rt = "replicate 512 0"]
    by auto
  have "\<forall>j<3. chunk j \<noteq> [] \<and> length (chunk j) \<le> 512" using chunk_ok by blast
  from sender_run_safe [OF _ _ _ _ _ _ s s_run0_ok _ _ this, of 3 4 int_ops] s show ?thesis
    by (simp only: world_r_sel append_Nil) (simp, blast)
qed

section \<open>The end of the transfer\<close>

text \<open>The exchange of the end packet up to a datagram that is accepted.\<close>

lemma send_end_answer:
  assumes "sinv D W a n v s w" "\<forall>ev\<in>set idle. ev_sock ev = None"
    and "ev_sock ev = Some (SrBytes (ack_bytes crc32 x))" "TR x = 0" "LENGTH_f x = 0"
  shows "\<exists>im w'. send_end crc32 (idle @ ev # late) s w = Inr (SReturned, w') \<and>
    obslog w' = obslog w @ replicate (Suc (length idle)) (Sent im) \<and>
    end_event crc32 (R_ready (RdBytes im))"
proof -
  let ?w = "snd (gettimeofday w)"
  from end_start_state [OF assms(1), of crc32] obtain s1 where
    st: "end_start crc32 s w = Inr (12, SRunning s1, ?w)" "end_state crc32 s1 ?w"
    by blast
  let ?im = "take 12 (s_packet s1)"
  have env: "env_good ?w" "12 \<le> length (s_packet s1)" and im: "end_event crc32 (R_ready (RdBytes ?im))"
    using st(2) by (simp_all add: end_state_def)
  have idle: "\<And>ev. ev \<in> set idle \<Longrightarrow> ev_sock ev = None" using assms(2) by blast
  from end_loop_idle [where late = "ev # late" and evs = idle, OF env idle] obtain w2 where
    w2: "end_loop crc32 12 (idle @ ev # late) s1 ?w = end_loop crc32 12 (ev # late) s1 w2"
      "obslog w2 = obslog w @ replicate (length idle) (Sent ?im)" "mem w2 = mem ?w" "env_good w2"
    by auto
  from end_loop_answer [OF end_state_mem_eq [OF st(2) w2(3,4)] assms(3-5), of late] obtain w' where
    "end_loop crc32 12 (ev # late) s1 w2 = Inr (SReturned, w')" "obslog w' = obslog w2 @ [Sent ?im]"
    by blast
  with st(1) w2(1,2) im show ?thesis
    by (intro exI [of _ ?im] exI [of _ w']) (simp add: send_end_def replicate_append_same)
qed

text \<open>The end packet: it is written once per round until a datagram arrives that \<open>pkt_decode\<close>
  accepts, and then the function returns. What it writes is an end packet as the receiver expects
  it. The datagram that ends the loop need not acknowledge anything: its type and number are not
  looked at.\<close>

theorem send_end_until_answer:
  assumes "sinv D W a n v s w" "\<forall>ev\<in>set idle. ev_sock ev = None"
    and "ev_sock ev = Some (SrBytes (ack_bytes crc32 x))" "TR x = 0" "LENGTH_f x = 0"
  shows "\<exists>im w'. send_end crc32 (idle @ ev # late) s w = Inr (SReturned, w') \<and>
    obslog w' = obslog w @ replicate (Suc (length idle)) (Sent im) \<and>
    end_event crc32 (R_ready (RdBytes im))"
  using assms by (rule send_end_answer)

text \<open>The state of the instances: after the run above.\<close>

lemma s_run0_state:
  "\<exists>s w. sinv chunk 3 1 3 (int 3) s w \<and> s_endFile s = 1"
proof -
  obtain s w1 where s: "sinv chunk 3 0 0 1 s w1" "s_endFile s = 0"
    using send_init_ok [where w = world_r and W = 3 and D = chunk and pe = "replicate 528 0" and rt = "replicate 512 0"]
    by auto
  from run_ok [OF s_run0_ok s, of 3 4 int_ops] chunk_ok show ?thesis by fastforce
qed

theorem send_end_until_answer_witness:
  "\<exists>s w im w'. send_end sum_crc [se_idle, se_idle, se_ack 0] s w = Inr (SReturned, w') \<and>
     obslog w' = obslog w @ replicate 3 (Sent im) \<and> end_event sum_crc (R_ready (RdBytes im))"
proof -
  obtain s w where s: "sinv chunk 3 1 3 (int 3) s w" using s_run0_state by blast
  have "\<forall>ev\<in>set [se_idle, se_idle]. ev_sock ev = None" by (simp add: se_idle_def)
  from send_end_until_answer [OF s this, of "se_ack 0" sum_crc "ackp 0" "[]"] show ?thesis
    by (auto simp: se_ack_def ackp_def numeral_3_eq_3)
qed

text \<open>When \<open>read\<close> fails while the end packet is exchanged, the negative length becomes the largest
  \<open>size_t\<close>, the buffer still holds the end packet itself, and \<open>pkt_decode\<close> accepts it: the sender
  takes its own packet for the answer and returns without any.\<close>

theorem send_end_read_error:
  assumes "sinv D W a n v s w" "ev_sock ev = Some SrErr"
  shows "\<exists>im w'. send_end crc32 (ev # late) s w = Inr (SReturned, w') \<and> obslog w' = obslog w @ [Sent im]"
proof -
  note I = sinvD [OF assms(1)]
  let ?w = "snd (gettimeofday w)"
  from send_end_start [OF assms(1)] obtain im p s1 where
    st: "send_end crc32 (ev # late) s w = end_loop crc32 12 (ev # late) s1 ?w"
    and im: "im = packet_image crc32 (header_bytes p) []" "shown p []"
    and s1: "s_packet s1 = im @ drop 16 (s_packet s)" "s_pkt_ack s1 = s_pkt_ack s"
      "PAYLOAD (s_pkt_send s1) = PAYLOAD (s_pkt_send s)"
    by blast
  let ?w3 = "wrote ?w (take 12 (s_packet s1))"
  have len: "length (s_packet s1) = 528" using I(8) im(1) by (simp add: s1(1))
  have "(4 :: nat) \<le> 2 ^ 64 - 1" by simp
  from decode_image [OF im(2) this, of crc32 "drop 16 (s_packet s)" "s_pkt_ack s1" ?w3]
  obtain ack where dr: "decode_result crc32 (put_at 0 [] (s_packet s1)) (2 ^ 64 - 1) (s_pkt_ack s1) ?w3 = (PKT_OK, ack, ?w3)"
    and ack: "PAYLOAD ack = PAYLOAD (s_pkt_ack s)"
    by (simp add: s1 im(1) received_def Let_def)
  have lv: "live ?w (PAYLOAD (s_pkt_ack s1))" "live ?w (PAYLOAD (s_pkt_send s1))"
    using I(14,15) by (simp_all add: s1 live_mem_eq [of ?w w])
  have env: "env_good ?w" using I(17) by simp
  have "end_round crc32 12 ev s1 ?w =
      Inr (True, SRunning (s1\<lparr>s_packet := put_at 0 [] (s_packet s1), s_pkt_ack := ack\<rparr>), ?w3)"
    using end_round_accept [OF env len _ assms(2), of 12 "[]" "2 ^ 64 - 1" crc32 PKT_OK ack ?w3] dr lv(1) by simp
  from end_loop_accept [OF this, of late] lv ack I(21) st show ?thesis
    by (auto simp: s1)
qed

theorem send_end_read_error_witness:
  "\<exists>s w im w'. send_end sum_crc [\<lparr>ev_file = None, ev_sock = Some SrErr\<rparr>] s w = Inr (SReturned, w') \<and>
     obslog w' = obslog w @ [Sent im]"
proof -
  obtain s w where s: "sinv chunk 3 1 3 (int 3) s w" using s_run0_state by blast
  from send_end_read_error [OF s, of "\<lparr>ev_file = None, ev_sock = Some SrErr\<rparr>" sum_crc "[]"] show ?thesis
    by auto
qed

end
