(* ===== verification/Sender_Faults.thy ===== *)
theory Sender_Faults
  imports Sender_Props
begin

text \<open>
  The remaining properties of the sender: that moving the window ends, what the timer sends and
  when it reads a slot that was never filled, that the timeout never changes, and what happens
  after the sequence numbers wrap, on an old acknowledgement, on a negative acknowledgement and
  on a refused datagram while the end packet is exchanged.
\<close>

section \<open>Moving the window\<close>

text \<open>C13. \<open>adapt_buffer\<close> ends for every acknowledged number: it makes the number the oldest one in the
  window and moves the index of the oldest slot by the distance modulo 256. The clock is read
  once, when the window moves. \<open>fail\<close> is left alone.\<close>

theorem adapt_buffer_ends:
  fixes seq :: u8
  assumes "0 \<le> small_seq" "small_seq < 256" "0 < window" "0 \<le> small_ind"
  shows "adapt_buffer ops small_seq (uint seq) small_ind window ts tv n fail w =
    (let d = (uint seq - small_seq) mod 256 in
     Inr (uint seq, if d = 0 then small_ind else (small_ind + d) mod window, fail,
       if d = 0 then w else snd (gettimeofday w)))"
proof -
  have "0 \<le> uint seq" "uint seq < 256" using uint_lt2p [of seq] by simp_all
  then show ?thesis unfolding Let_def by (rule adapt_buffer_run [OF assms(1,2) _ _ assms(3,4)])
qed

theorem adapt_buffer_ends_witness:
  "adapt_buffer int_ops 254 (uint (1 :: u8)) 2 3 0 \<lparr>tv_sec = 0, tv_usec = 100000\<rparr> 0 0 world_r =
    Inr (1, 2, 0, snd (gettimeofday world_r))"
  using adapt_buffer_ends [of 254 3 2 int_ops 1 0 "\<lparr>tv_sec = 0, tv_usec = 100000\<rparr>" 0 0 world_r] by simp

section \<open>The timer\<close>

text \<open>C14. In a round in which nothing was read and nothing arrived, a sender that was given a file name
  sends exactly one datagram. Once a chunk was sent there are two cases: if some chunk is
  unacknowledged, the oldest such chunk is sent again; if all are acknowledged and at least a window's worth
  was sent, it is the acknowledged chunk \<open>n - W\<close>, the oldest one of the slots. (With fewer than \<open>W\<close> chunks
  sent and all acknowledged see \<open>small_file_uninitialised\<close>.) Nothing but the buffered copy and the
  encoding array changes: the window, the file and the slots are as before.\<close>

theorem timer_resends_oldest:
  assumes "sinv D W a n v s w" "a < n \<or> W \<le> n" "0 < n" "0 \<le> sfd" "0 \<le> fd"
    and "ev_file ev = None" "ev_sock ev = None"
  shows "\<exists>bs s' w'. send_step crc32 ops True sfd fd ev s w = Inr (SRunning s', w') \<and>
    obslog w' = obslog w @ [Sent bs] \<and>
    data_event crc32 D (if a < n then a else n - W) (R_ready (RdBytes bs)) \<and>
    sinv D W a n v s' w' \<and> s_endFile s' = s_endFile s"
proof -
  let ?s0 = "s\<lparr>s_sent := 0, s_ack_received := 0\<rparr>"
  have i0: "sinv D W a n v ?s0 w" using assms(1) by (simp add: sinv_def)
  from resend_ok [OF i0 assms(2,3), of crc32] obtain bs s' where
    r: "resend_oldest crc32 ?s0 w = Inr (SRunning s', sent w bs)" "data_packet crc32 D (oldest W a n) bs"
      "sinv D W a n v s' (sent w bs)" "s_endFile s' = s_endFile s"
    by auto
  have "send_step crc32 ops True sfd fd ev s w = Inr (SRunning s', sent w bs)"
    using assms(4-7) r(1) by (simp add: send_step_def timer_part_def Let_def)
  moreover have "obslog (sent w bs) = obslog w @ [Sent bs]" using sinvD(17) [OF assms(1)] by simp
  ultimately show ?thesis
    using r(2-4) unfolding data_packet_def oldest_def by blast
qed

theorem timer_resends_oldest_witness:
  "\<exists>s w bs s' w'. sinv chunk 3 1 3 (int 3) s w \<and> send_step sum_crc int_ops True 3 4 se_idle s w = Inr (SRunning s', w') \<and>
    obslog w' = obslog w @ [Sent bs] \<and> data_event sum_crc chunk 1 (R_ready (RdBytes bs))"
proof -
  obtain s w where s: "sinv chunk 3 1 3 (int 3) s w" using s_run0_state by blast
  have e: "ev_file se_idle = None" "ev_sock se_idle = None" "(1 :: nat) < 3"
    and b: "(1 :: nat) < 3 \<or> 3 \<le> (3 :: nat)" "0 < (3 :: nat)" "0 \<le> (3 :: int)" "0 \<le> (4 :: int)"
    by (simp_all add: se_idle_def)
  from timer_resends_oldest [OF s b e(1,2), of sum_crc int_ops] s show ?thesis
    unfolding if_P [OF e(3)] by blast
qed

text \<open>The timer meets a slot of \<open>buffer\<close> that was never assigned.\<close>

lemma unfilled_slot_round:
  assumes "sinv D W n n v s w" "n < W" "s_endFile s = 0" "0 \<le> sfd" "0 \<le> fd"
    and "ev_file ev = None \<or> ev_file ev = Some (SrBytes [])" "ev_sock ev = None"
  shows "send_step crc32 ops True sfd fd ev s w = Inl Uninitialised"
proof -
  note I = sinvD [OF assms(1)] and A = window_atD [OF sinvD(1) [OF assms(1)]]
  let ?s0 = "s\<lparr>s_sent := 0, s_ack_received := 0\<rparr>"
  have i0: "sinv D W n n v ?s0 w" using assms(1) by (simp add: sinv_def)
  have mr: "may_read s" using may_read_room [OF assms(1,3)] A(7) by (simp add: not_full_def)
  have "c_mod (int n mod v) v = Inr (int n mod v)" using A(7) by simp
  then have i: "c_mod (s_small_ind s) (s_window s) = Inr (int n)"
    by (simp only: I(2,6) A(8)) (use assms(2) in simp)
  have "arr_get (s_buffer s) (int n) = Inr None"
    using I(20) [of n] I(10) A(2) assms(2) by (simp add: arr_get_def)
  then have re: "resend_oldest crc32 s' w = Inl Uninitialised"
    if "s_small_ind s' = s_small_ind s" "s_window s' = s_window s" "s_buffer s' = s_buffer s" for s'
    using that i by (simp add: resend_oldest_def encode_slot_def buffer_slot_def)
  from assms(6) show ?thesis
  proof
    assume "ev_file ev = None"
    with assms(4,5,7) re [of ?s0] show ?thesis by (simp add: send_step_def timer_part_def Let_def)
  next
    assume "ev_file ev = Some (SrBytes [])"
    with assms(4,5,7) mr re [of "?s0\<lparr>s_endFile := 1\<rparr>"] read_end [OF i0, of crc32] show ?thesis
      by (simp add: send_step_def timer_part_def Let_def)
  qed
qed

text \<open>C29. A transfer of fewer chunks than the receiver's window, by a sender that was given a file name (the
  timer is off otherwise): when all sent chunks are acknowledged, a round without datagram from the
  socket in which the end of the file is read (or nothing is) finds the slot of the next chunk not
  filled yet, and the timer encodes an element of \<open>buffer\<close> that was never assigned. An empty file is
  the case \<open>n = 0\<close>.\<close>

theorem small_file_uninitialised:
  assumes "sinv D W n n v s w" "n < W" "s_endFile s = 0" "0 \<le> sfd" "0 \<le> fd"
    and "ev_file ev = None \<or> ev_file ev = Some (SrBytes [])" "ev_sock ev = None"
  shows "send_step crc32 ops True sfd fd ev s w = Inl Uninitialised"
  using assms by (rule unfilled_slot_round)

theorem small_file_uninitialised_witness:
  "\<exists>s w. send_init (replicate 528 0) (replicate 512 0) world_r = Inr (Some s, w) \<and>
    send_step sum_crc int_ops True 3 4 se_eof s w = Inl Uninitialised"
proof -
  obtain s w1 where s: "send_init (replicate 528 0) (replicate 512 0) world_r = Inr (Some s, w1)"
    "sinv chunk 3 0 0 1 s w1" "s_endFile s = 0"
    using send_init_ok [where w = world_r and W = 3 and D = chunk and pe = "replicate 528 0" and rt = "replicate 512 0"]
    by auto
  from small_file_uninitialised [OF s(2) _ s(3), of 3 4 se_eof sum_crc int_ops] s(1) show ?thesis
    by (auto simp: se_eof_def)
qed

section \<open>The timeout\<close>

text \<open>What an outcome says of the next state, when there is one.\<close>

definition then_state :: "(sstate \<Rightarrow> bool) \<Rightarrow> (sstate sctl \<times> world) outcome \<Rightarrow> bool" where
  "then_state P m \<longleftrightarrow> (\<forall>s w. m = Inr (SRunning s, w) \<longrightarrow> P s)"

lemma then_state_simps [simp]:
  "then_state P (Inl e)" "then_state P (Inr (SReturned, w))"
  "then_state P (Inr (SRunning s, w)) \<longleftrightarrow> P s"
  by (simp_all add: then_state_def)

lemma then_state_andthen: "(\<And>x. m = Inr x \<Longrightarrow> then_state P (f x)) \<Longrightarrow> then_state P (andthen m f)"
  by (cases m) simp_all

lemma then_state_ctl_bind:
  "then_state Q m \<Longrightarrow> (\<And>s w. Q s \<Longrightarrow> then_state P (f s w)) \<Longrightarrow> then_state P (ctl_bind m f)"
  unfolding ctl_bind_def
  by (cases m) (auto intro!: then_state_andthen split: sctl.splits)

lemma give_up_state [simp]: "then_state P (give_up s w)"
  by (simp add: give_up_def then_state_def fault_simps)

definition same_tv :: "timeval \<Rightarrow> sstate \<Rightarrow> bool" where
  "same_tv tv s \<longleftrightarrow> s_tv s = tv"

lemma send_packet_tv: "same_tv tv s \<Longrightarrow> then_state (same_tv tv) (send_packet k s w)"
  by (auto simp: send_packet_def intro!: then_state_andthen split: prod.splits)

lemma encode_slot_tv:
  "(\<And>k s w. same_tv tv s \<Longrightarrow> then_state (same_tv tv) (f k s w)) \<Longrightarrow> same_tv tv s \<Longrightarrow>
     then_state (same_tv tv) (encode_slot crc32 i s w f)"
  by (auto simp: encode_slot_def same_tv_def Let_def intro!: then_state_andthen split: prod.splits)

lemma resend_oldest_tv: "same_tv tv s \<Longrightarrow> then_state (same_tv tv) (resend_oldest crc32 s w)"
  unfolding resend_oldest_def
  by (intro then_state_andthen encode_slot_tv send_packet_tv)

lemma read_file_tv: "same_tv tv s \<Longrightarrow> then_state (same_tv tv) (read_file crc32 r s w)"
  unfolding read_file_def Let_def
  by (auto simp: same_tv_def intro!: then_state_andthen then_state_ctl_bind [of "same_tv tv"]
      send_packet_tv split: s_read.splits prod.splits option.splits)

lemma on_ack_tv: "same_tv tv s \<Longrightarrow> then_state (same_tv tv) (on_ack crc32 ops seq s w)"
  unfolding on_ack_def Let_def
  by (auto simp: same_tv_def intro!: then_state_andthen then_state_ctl_bind [of "same_tv tv"]
      resend_oldest_tv split: prod.splits)

lemma on_nack_tv: "same_tv tv s \<Longrightarrow> then_state (same_tv tv) (on_nack crc32 seq s w)"
  unfolding on_nack_def send_raw_def Let_def
  by (auto intro!: then_state_andthen then_state_ctl_bind [of "same_tv tv"] encode_slot_tv
      send_packet_tv split: prod.splits)

lemma process_ack_tv: "same_tv tv s \<Longrightarrow> then_state (same_tv tv) (process_ack crc32 ops s w)"
  unfolding process_ack_def Let_def
  by (auto simp: same_tv_def intro!: on_ack_tv on_nack_tv split: prod.splits)

lemma read_sock_tv: "same_tv tv s \<Longrightarrow> then_state (same_tv tv) (read_sock crc32 ops r s w)"
  unfolding read_sock_def Let_def
  by (auto simp: same_tv_def intro!: then_state_andthen process_ack_tv split: s_read.splits prod.splits)

lemma send_step_tv: "same_tv tv s \<Longrightarrow> then_state (same_tv tv) (send_step crc32 ops fg sfd fd ev s w)"
  unfolding send_step_def timer_part_def Let_def
  by (auto intro!: then_state_ctl_bind [of "same_tv tv"] read_file_tv read_sock_tv resend_oldest_tv
      split: option.splits) (simp_all add: same_tv_def)

text \<open>C30. The round trip time is never taken into account: whatever the files, datagrams and
  acknowledgements of the rounds are, the timeout at the end of the main loop, as in every round,
  is the 100 ms it started with. \<open>adapt_rtt\<close> stores its result in a copy.\<close>

theorem timeout_never_adapted:
  assumes "send_init pe rt w0 = Inr (Some s, w)"
    and "send_loop crc32 ops fg sfd fd evs s w = Inr (SRunning s', left, w')"
  shows "s_tv s' = \<lparr>tv_sec = 0, tv_usec = 100000\<rparr>"
proof -
  have "s_tv s = \<lparr>tv_sec = 0, tv_usec = 100000\<rparr>"
    using assms(1) by (auto simp: send_init_def Let_def fault_simps split: prod.splits option.splits)
  moreover from assms(2) have "s_tv s' = s_tv s"
  proof (induction evs arbitrary: s w)
    case (Cons ev evs)
    show ?case
    proof (cases "going s")
      case True
      from Cons.prems True obtain c w1 where
        c: "send_step crc32 ops fg sfd fd ev s w = Inr (c, w1)"
          "(case c of SReturned \<Rightarrow> Inr (SReturned, evs, w1)
            | SRunning s1 \<Rightarrow> send_loop crc32 ops fg sfd fd evs s1 w1) = Inr (SRunning s', left, w')"
        by (auto simp: andthen_eq_Inr)
      then obtain s1 where s1: "c = SRunning s1" by (cases c) simp_all
      have "then_state (same_tv (s_tv s)) (send_step crc32 ops fg sfd fd ev s w)"
        by (rule send_step_tv) (simp add: same_tv_def)
      with c s1 Cons.IH show ?thesis by (simp add: same_tv_def)
    qed (use Cons.prems in simp)
  qed simp
  ultimately show ?thesis by simp
qed

theorem timeout_never_adapted_witness:
  "\<exists>s w1 s' left w'. send_init (replicate 528 0) (replicate 512 0) world_r = Inr (Some s, w1) \<and>
    send_loop sum_crc int_ops True 3 4 s_run0 s w1 = Inr (SRunning s', left, w') \<and>
    s_tv s' = \<lparr>tv_sec = 0, tv_usec = 100000\<rparr>"
proof -
  obtain s w1 where s: "send_init (replicate 528 0) (replicate 512 0) world_r = Inr (Some s, w1)"
    "sinv chunk 3 0 0 1 s w1" "s_endFile s = 0"
    using send_init_ok [where w = world_r and W = 3 and D = chunk and pe = "replicate 528 0" and rt = "replicate 512 0"]
    by auto
  from run_ok [OF s_run0_ok s(2,3), of 3 4 int_ops] chunk_ok obtain s' left w' where
    l: "send_loop sum_crc int_ops True 3 4 s_run0 s w1 = Inr (SRunning s', left, w')"
    by fastforce
  from timeout_never_adapted [OF s(1) l] s(1) l show ?thesis by blast
qed

section \<open>After the wrap\<close>

text \<open>C27. When the number of the next packet has wrapped to less than the oldest one, the difference
  is negative, so the file is read even with a full window; the new packet then overwrites the
  buffered copy of the oldest unacknowledged one, which can no longer be sent again: the timer
  sends the new packet in its place.\<close>

theorem wrap_overwrites_oldest:
  assumes "s_endFile s = 0" "0 \<le> s_seq_exp s" "s_seq_exp s < s_small_seq s" "s_small_seq s < 256"
    and "0 < s_window s" "0 \<le> s_seq_ind s" "s_seq_ind s mod s_window s = s_small_ind s"
    and "s_small_ind s < int (length (s_buffer s))" "0 \<le> s_small_ind s"
    and "TR (s_pkt_send s) = 0" "TYPE_f (s_pkt_send s) = 1" "live w (PAYLOAD (s_pkt_send s))"
    and "env_good w" "heap_ok w" "length (s_read_tmp s) = 512" "length (s_packet s) = 528"
    and "bs \<noteq> []" "length bs \<le> 512" "0 \<le> sfd" "0 \<le> fd"
  shows "\<exists>s' w' p. send_step crc32 ops fg sfd fd \<lparr>ev_file = Some (SrBytes bs), ev_sock = None\<rparr> s w =
      Inr (SRunning s', w') \<and>
    s_small_seq s' = s_small_seq s \<and> s_small_ind s' = s_small_ind s \<and>
    s_buffer s' ! nat (s_small_ind s') = Some p \<and> uint (SEQNUM p) = s_seq_exp s \<and>
    uint (SEQNUM p) \<noteq> s_small_seq s'"
proof -
  let ?s0 = "s\<lparr>s_sent := 0, s_ack_received := 0\<rparr>"
  have mr: "may_read s" using assms(1,3,5) by (simp add: may_read_def)
  have j: "word_of_int (s_seq_exp ?s0) = (of_nat (nat (s_seq_exp s)) :: u8)" using assms(2) by simp
  from read_file_eq [where D = "\<lambda>_. bs" and j = "nat (s_seq_exp s)" and s = ?s0 and w = w and bs = bs, of crc32]
    assms j obtain im p p' tmp k where
    r: "read_file crc32 (SrBytes bs) ?s0 w =
      Inr (SRunning (?s0\<lparr>s_read_tmp := tmp, s_buffer_empty := k, s_pkt_send := p',
            s_packet := im @ drop (length im) (s_packet s),
            s_buffer := (s_buffer s)[nat (s_small_ind s) := Some p],
            s_seq_exp := (s_seq_exp s + 1) mod 256, s_seq_ind := s_seq_ind s + 1, s_sent := 1\<rparr>),
        sent (stored w bs\<lparr>nalloc := Suc (Suc (nalloc w))\<rparr>) im)"
    and p: "slot_holds (\<lambda>_. bs) (stored w bs) (nat (s_seq_exp s)) (Some p)"
    by auto
  have "SEQNUM p = of_nat (nat (s_seq_exp s))" using p by (simp add: slot_holds_def)
  then have "uint (SEQNUM p) = s_seq_exp s" using assms(2-4) by (simp add: uint_word_of_int)
  with r mr assms(3,8,9,19,20) show ?thesis
    by (simp add: send_step_def timer_part_def Let_def)
qed

definition s_wrap :: sstate where
  "s_wrap = \<lparr>s_pkt_send = ackp 0\<lparr>TYPE_f := 1\<rparr>, s_pkt_ack = ackp 0, s_endFile = 0,
     s_tv = \<lparr>tv_sec = 0, tv_usec = 100000\<rparr>, s_small_seq = 254, s_small_ind = 2, s_seq_ind = 257,
     s_buffer_empty = 1, s_seq_exp = 1, s_window = 3, s_nbre_tv = 0, s_packet = replicate 528 0,
     s_read_tmp = replicate 512 0,
     s_buffer = map (\<lambda>k. Some (ackp k\<lparr>TYPE_f := 1\<rparr>)) [255, 0, 254] @ replicate 28 None,
     s_ack_received = 0, s_sent = 0, s_fail = 0\<rparr>"

theorem wrap_overwrites_oldest_witness:
  "\<exists>s' w' p. send_step sum_crc int_ops True 3 4 \<lparr>ev_file = Some (SrBytes [65]), ev_sock = None\<rparr> s_wrap world_r =
      Inr (SRunning s', w') \<and>
    s_small_seq s' = 254 \<and> s_buffer s' ! 2 = Some p \<and> uint (SEQNUM p) = 1"
proof -
  have e: "s_small_seq s_wrap = 254" "s_small_ind s_wrap = 2" "s_seq_exp s_wrap = 1"
    by (simp_all add: s_wrap_def)
  have "s_endFile s_wrap = 0" "0 \<le> s_seq_exp s_wrap" "s_seq_exp s_wrap < s_small_seq s_wrap" "s_small_seq s_wrap < 256"
    "0 < s_window s_wrap" "0 \<le> s_seq_ind s_wrap" "s_seq_ind s_wrap mod s_window s_wrap = s_small_ind s_wrap"
    "s_small_ind s_wrap < int (length (s_buffer s_wrap))" "0 \<le> s_small_ind s_wrap"
    "TR (s_pkt_send s_wrap) = 0" "TYPE_f (s_pkt_send s_wrap) = 1" "live world_r (PAYLOAD (s_pkt_send s_wrap))"
    "env_good world_r" "heap_ok world_r" "length (s_read_tmp s_wrap) = 512" "length (s_packet s_wrap) = 528"
    "[65 :: byte] \<noteq> []" "length [65 :: byte] \<le> 512" "0 \<le> (3 :: int)" "0 \<le> (4 :: int)"
    by (simp_all add: s_wrap_def ackp_def)
  from wrap_overwrites_oldest [OF this, of sum_crc int_ops True] obtain s' w' p where
    "send_step sum_crc int_ops True 3 4 \<lparr>ev_file = Some (SrBytes [65]), ev_sock = None\<rparr> s_wrap world_r = Inr (SRunning s', w')"
    "s_small_seq s' = 254" "s_small_ind s' = 2" "s_buffer s' ! nat (s_small_ind s') = Some p" "uint (SEQNUM p) = 1"
    unfolding e by blast
  then show ?thesis by (intro exI [of _ s'] exI [of _ w'] exI [of _ p]) simp
qed

text \<open>An acknowledgement older than the window, which a network that delays datagrams delivers,
  moves the window back: its number becomes the oldest one again, but its slot is computed as if
  the window had moved on by almost 256 packets. Unless the window divides 256, the slot is not
  that of the number, so later retransmissions send other chunks than the oldest.\<close>

theorem stale_ack_misaligns:
  assumes "sinv D W a n (int W) s w" "acks x PTYPE_ACK (int W) (int k)" "TR x = 0" "k < a" "n \<le> 255"
  shows "\<exists>s' w'. read_sock crc32 ops (SrBytes (ack_bytes crc32 x)) s w = Inr (SRunning s', w') \<and>
    s_small_seq s' = int k \<and> s_small_ind s' = (int k + 256) mod int W \<and>
    (\<not> int W dvd 256 \<longrightarrow> s_small_ind s' \<noteq> int k mod int W)"
proof -
  have "k mod 256 = k" using assms(4,5) sinvD(1) [OF assms(1)] by (simp add: window_at_def)
  with read_ack_eq [OF assms(1), of x PTYPE_ACK k crc32 ops] assms(2,3) obtain s0 p where
    r: "read_sock crc32 ops (SrBytes (ack_bytes crc32 x)) s w =
      on_ack crc32 ops (of_nat k) (s0\<lparr>s_window := int W, s_pkt_send := p, s_ack_received := 1\<rparr>) w"
    and s0: "sinv D W a n (int W) s0 w"
    by (auto simp: Let_def)
  note I = sinvD [OF s0] and A = window_atD [OF sinvD(1) [OF s0]]
  have a: "a \<le> 255" using A(3) assms(5) by simp
  have seq: "uint (of_nat k :: u8) = int k" using assms(4) a by (simp add: uint_nat unat_of_nat)
  have "(int k - int a) mod 256 = (int k - int a + 256) mod 256" by (rule mod_add_self2 [symmetric])
  also have "\<dots> = int k - int a + 256" using assms(4) a by (intro mod_pos_pos_trivial) auto
  finally have d: "(int k - int a) mod 256 = int k - int a + 256" .
  have am: "a mod 256 = a" using a by simp
  have ind: "(int a mod int W + (int k - int a + 256)) mod int W = (int k + 256) mod int W"
    by (simp add: mod_simps)
  have ab: "adapt_buffer ops (int a) (uint (of_nat k :: u8)) (int a mod int W) (int W) ts tv m 0 w =
      Inr (int k, (int k + 256) mod int W, 0, snd (gettimeofday w))" for ts tv m
    using adapt_buffer_run [of "int a" "int k" "int W" "int a mod int W" ops ts tv m 0 w] A(1) assms(4) a
    by (simp add: seq d ind)
  have "\<exists>s'. on_ack crc32 ops (of_nat k) (s0\<lparr>s_window := int W, s_pkt_send := p, s_ack_received := 1\<rparr>) w =
      Inr (SRunning s', snd (gettimeofday w)) \<and> s_small_seq s' = int k \<and> s_small_ind s' = (int k + 256) mod int W"
    by (simp add: on_ack_def Let_def ab am I(3,6,7))
  moreover have "int W dvd 256" if "(int k + 256) mod int W = int k mod int W"
    using that by (simp add: mod_eq_dvd_iff)
  ultimately show ?thesis unfolding r by metis
qed

theorem stale_ack_misaligns_witness:
  "\<exists>s w s' w'. sinv chunk 3 1 3 (int 3) s w \<and>
    read_sock sum_crc int_ops (SrBytes (ack_bytes sum_crc (ackp 0))) s w = Inr (SRunning s', w') \<and>
    s_small_seq s' = 0 \<and> s_small_ind s' = 1"
proof -
  obtain s w where s: "sinv chunk 3 1 3 (int 3) s w" using s_run0_state by blast
  from stale_ack_misaligns [OF s acks_ackp, of 0 sum_crc int_ops] obtain s' w' where
    "read_sock sum_crc int_ops (SrBytes (ack_bytes sum_crc (ackp 0))) s w = Inr (SRunning s', w')"
    "s_small_seq s' = 0" "s_small_ind s' = 1"
    by auto
  with s show ?thesis by blast
qed

section \<open>A negative acknowledgement\<close>

text \<open>Every slot that was filled holds one of the last \<open>W\<close> chunks.\<close>

lemma slot_chunk:
  assumes "sinv D W a n v s w" "i < W" "i < n"
  shows "\<exists>j<n. slot_holds D w j (s_buffer s ! i)"
proof -
  define j where "j = n - 1 - (n - 1 - i) mod W"
  have W: "0 < W" using assms(2) by simp
  have le: "(n - 1 - i) mod W \<le> n - 1 - i" by (rule mod_less_eq_dividend)
  have j: "j < n" "n \<le> j + W"
    using assms(3) le mod_less_divisor [OF W, of "n - 1 - i"] by (auto simp: j_def)
  have "j = i + W * ((n - 1 - i) div W)"
    unfolding j_def using assms(3) le mult_div_mod_eq [of W "n - 1 - i"] by linarith
  then have "j mod W = i" using assms(2) by simp
  with sinvD(11) [OF assms(1) j] j(1) show ?thesis by auto
qed

lemma encode_slot_then:
  fixes crc32 :: crc_fun
  assumes "slot_holds D w j (s_buffer s ! i)" "i < length (s_buffer s)" "length (s_packet s) = 528"
  shows "\<exists>bs p'. encode_slot crc32 (int i) s w f =
      f (length bs) (s\<lparr>s_packet := bs @ drop (length bs) (s_packet s), s_buffer := (s_buffer s)[i := Some p']\<rparr>)
        (snd (gettimeofday w)) \<and> length bs = 16 + length (D j)"
proof -
  obtain p where p: "s_buffer s ! i = Some p" "payload_is p w (D j)" "D j \<noteq> []" "TYPE_f p = 1"
    "SEQNUM p = of_nat j"
    using assms(1) by (auto simp: slot_holds_def)
  from encode_chunk [where D = D and j = j, OF p(2-5) assms(3), of crc32 528] obtain bs p' where
    e: "pkt_encode crc32 p (s_packet s) 528 w =
      Inr (PKT_OK, length bs, bs @ drop (length bs) (s_packet s), p', snd (gettimeofday w))"
    and d: "data_packet crc32 D j bs"
    by auto
  have "length bs = 16 + length (D j)" using d by (auto simp: data_packet_def data_event_def)
  moreover have "buffer_slot (int i) s = Inr p"
    using p(1) assms(2) by (simp add: buffer_slot_def arr_get_def)
  moreover have "arr_set (s_buffer s) (int i) (Some p') = Inr ((s_buffer s)[i := Some p'])"
    using assms(2) by (simp add: arr_set_def)
  ultimately show ?thesis
    using e by (intro exI [of _ bs] exI [of _ p']) (simp add: encode_slot_def Let_def)
qed

text \<open>What follows a NACK whose index is that of a slot in use: the packet is sent again, then as many
  bytes of the structure of the packet, which is shorter.\<close>

definition nack_resend :: "crc_fun \<Rightarrow> int \<Rightarrow> int \<Rightarrow> sstate \<Rightarrow> world \<Rightarrow> (sstate sctl \<times> world) outcome" where
  "nack_resend crc32 i ind s w = encode_slot crc32 i s w (\<lambda>tmp s1 w1.
      ctl_bind (send_packet tmp s1 w1) (\<lambda>s2 w2. andthen (buffer_slot ind s2) (\<lambda>_. send_raw i tmp s2 w2)))"

lemma nack_slot_overread:
  assumes "sinv D W a n v s0 w" "s = s0\<lparr>s_window := int W, s_pkt_send := p, s_ack_received := 1\<rparr>"
    and "i < W" "i < n" "a mod W < n" "\<forall>j<n. 8 < length (D j)"
  shows "nack_resend crc32 (int i) (int (a mod W)) s w = Inl OutOfBounds"
proof -
  note I = sinvD [OF assms(1)] and A = window_atD [OF sinvD(1) [OF assms(1)]]
  have "i < 31" using assms(3) A(2) by simp
  obtain j where j: "j < n" "slot_holds D w j (s_buffer s ! i)"
    using slot_chunk [OF assms(1,3,4)] assms(2) by auto
  have lt: "i < length (s_buffer s)" "length (s_packet s) = 528" using \<open>i < 31\<close> I(8,10) assms(2) by simp_all
  let ?f = "\<lambda>tmp s1 w1. ctl_bind (send_packet tmp s1 w1) (\<lambda>s2 w2.
    andthen (buffer_slot (int (a mod W)) s2) (\<lambda>_. send_raw (int i) tmp s2 w2))"
  from encode_slot_then [OF j(2) lt, of crc32 ?f] obtain bs p' where
    e: "nack_resend crc32 (int i) (int (a mod W)) s w = ?f (length bs) (s\<lparr>s_packet := bs @ drop (length bs) (s_packet s),
        s_buffer := (s_buffer s)[i := Some p']\<rparr>) (snd (gettimeofday w))"
    and len: "length bs = 16 + length (D j)"
    unfolding nack_resend_def by blast
  let ?s1 = "s\<lparr>s_packet := bs @ drop (length bs) (s_packet s), s_buffer := (s_buffer s)[i := Some p']\<rparr>"
  have sp: "send_packet (length bs) ?s1 (snd (gettimeofday w)) = Inr (SRunning ?s1, sent w bs)"
    by (rule send_packet_ok [OF I(17), where rest = "drop (length bs) (s_packet s)"]) simp
  have aw: "a mod W < W" "a mod W < 31" using A(1,2) mod_less_divisor [of W a] by linarith+
  then obtain q where q: "s_buffer s0 ! (a mod W) = Some q"
    using slot_chunk [OF assms(1) aw(1) assms(5)] by (auto simp: slot_holds_def)
  have "buffer_slot (int (a mod W)) ?s1 = Inr (if a mod W = i then p' else q)"
    using q aw(2) I(10) assms(2) by (simp add: buffer_slot_def arr_get_def)
  moreover have "buffer_slot (int i) ?s1 = Inr p'"
    using lt by (simp add: buffer_slot_def arr_get_def)
  moreover have "arr_read (struct_bytes w' p') 0 (length bs) = Inl OutOfBounds" for w'
    using len assms(6) j(1) by (auto simp: arr_read_def struct_bytes_def le64_def)
  ultimately show ?thesis
    using sp unfolding e by (simp add: send_raw_def)
qed

text \<open>C28. Every negative acknowledgement of a number in the window, the next number included, leads to
  undefined behaviour when the chunks read so far are longer than 8 bytes. The index computed from the number
  counts it twice. Outside the array the access is out of bounds; a slot that was not filled, beyond
  the window or not yet reached, is read uninitialised; and for a slot that holds a chunk of more than 8 bytes the
  packet is encoded, sent, and then sent once more from the packet structure itself, which is read past
  its 24 bytes. (A shorter chunk is sent a second time as raw bytes of the structure.)\<close>

theorem nack_faults:
  assumes "sinv D W a n v s w" "acks x PTYPE_NACK (int W) (int (k mod 256))" "TR x = 0" "a \<le> k" "k \<le> n"
    and "\<forall>j<n. 8 < length (D j)"
  shows "let i = int (a mod W) + int (k mod 256) + (int (k mod 256) - int (a mod 256)) in
    read_sock crc32 ops (SrBytes (ack_bytes crc32 x)) s w =
      Inl (if 0 \<le> i \<and> i < 31 \<and> (int n \<le> i \<or> int W \<le> i) then Uninitialised else OutOfBounds)"
proof -
  from read_ack_eq [OF assms(1-3), of crc32 ops] obtain s0 p where
    r: "read_sock crc32 ops (SrBytes (ack_bytes crc32 x)) s w =
      on_nack crc32 (of_nat k) (s0\<lparr>s_window := int W, s_pkt_send := p, s_ack_received := 1\<rparr>) w"
    and s0: "sinv D W a n v s0 w"
    by (auto simp: Let_def)
  note I = sinvD [OF s0] and A = window_atD [OF sinvD(1) [OF s0]]
  let ?s = "s0\<lparr>s_window := int W, s_pkt_send := p, s_ack_received := 1\<rparr>"
  let ?i = "int (a mod W) + int (k mod 256) + (int (k mod 256) - int (a mod 256))"
  let ?e = "if 0 \<le> ?i \<and> ?i < 31 \<and> (int n \<le> ?i \<or> int W \<le> ?i) then Uninitialised else OutOfBounds"
  have seq: "uint (of_nat k :: u8) = int (k mod 256)" "(256 :: u8) = 0"
    by (simp_all add: uint_nat unat_of_nat)
  have m: "c_mod (s_small_ind ?s) (s_window ?s) = Inr (int (a mod W))"
    using A(1) by (simp add: I(6) A(8))
  have "on_nack crc32 (of_nat k) ?s w = nack_resend crc32 ?i (int (a mod W)) ?s w"
    using m unfolding on_nack_def nack_resend_def Let_def by (simp add: seq I(3))
  also have "\<dots> = Inl ?e"
  proof (cases "0 \<le> ?i \<and> ?i < int W \<and> ?i < int n")
    case True
    then obtain j where j: "?i = int j" "j < W" "j < n" by (metis nonneg_int_cases of_nat_less_iff)
    have "a mod W < n"
    proof (cases "a < n \<or> W \<le> n")
      case True
      then show ?thesis using A(1) by (metis less_le_trans mod_less_divisor mod_less_eq_dividend le_less_trans One_nat_def Suc_le_eq)
    next
      case False
      then have "k = n" "a = n" "n < 31" using assms(4,5) A(2,3) by simp_all
      with True False show ?thesis by simp
    qed
    from nack_slot_overread [OF s0 refl j(2,3) this assms(6)] j show ?thesis by simp
  next
    case False
    then have "?i < 0 \<or> 31 \<le> ?i \<or> 0 \<le> ?i \<and> ?i < 31 \<and> (int n \<le> ?i \<or> int W \<le> ?i)" by linarith
    then show ?thesis
    proof (elim disjE)
      assume out: "0 \<le> ?i \<and> ?i < 31 \<and> (int n \<le> ?i \<or> int W \<le> ?i)"
      then have "s_buffer s0 ! nat ?i = None" using I(20) [of "nat ?i"] by linarith
      then show ?thesis
        unfolding if_P [OF out] using out I(10) by (simp add: nack_resend_def encode_slot_def buffer_slot_def arr_get_def)
    qed (use I(10) in \<open>simp_all add: nack_resend_def encode_slot_def buffer_slot_def arr_get_def\<close>)
  qed
  finally show ?thesis unfolding r Let_def .
qed

theorem nack_faults_witness:
  "\<exists>s w. sinv (\<lambda>_. replicate 9 65) 3 0 1 1 s w \<and>
    read_sock sum_crc int_ops (SrBytes (ack_bytes sum_crc (ackp 0\<lparr>TYPE_f := 3\<rparr>))) s w = Inl OutOfBounds"
proof -
  let ?D = "\<lambda>_ :: nat. replicate 9 (65 :: byte)"
  obtain s w1 where s: "sinv ?D 3 0 0 1 s w1" "s_endFile s = 0"
    using send_init_ok [where w = world_r and W = 3 and D = ?D and pe = "replicate 528 0" and rt = "replicate 512 0"]
    by auto
  from file_step [OF s(1) _ _ _ _ s(2), of sum_crc] obtain s1 w2 where s1: "sinv ?D 3 0 1 1 s1 w2" by auto
  have "acks (ackp 0\<lparr>TYPE_f := 3\<rparr>) PTYPE_NACK (int 3) (int (0 mod 256))"
    by (simp add: acks_def ackp_def pkt_get_type_def pkt_get_tr_def pkt_get_window_def pkt_get_seqnum_def)
  from nack_faults [OF s1 this, of sum_crc int_ops] have
    "read_sock sum_crc int_ops (SrBytes (ack_bytes sum_crc (ackp 0\<lparr>TYPE_f := 3\<rparr>))) s1 w2 = Inl OutOfBounds"
    by (simp add: ackp_def)
  with s1 show ?thesis by blast
qed

section \<open>The end packet\<close>

text \<open>A datagram whose first 12 bytes are an end packet is accepted.\<close>

lemma garbage_not_end:
  assumes "garbage crc32 bs" "12 \<le> length bs"
  shows "\<not> end_event crc32 (R_ready (RdBytes (take 12 bs)))"
proof
  assume "end_event crc32 (R_ready (RdBytes (take 12 bs)))"
  then obtain p where p: "take 12 bs = take 12 (packet_image crc32 (header_bytes p) [])" "shown p []"
    unfolding end_event_def by auto
  have "take 12 bs = header_bytes p @ be32 (crc_of crc32 (Some (header_bytes p)))"
    unfolding p(1) by (simp add: packet_image_def)
  then have bs: "bs = (header_bytes p @ be32 (crc_of crc32 (Some (header_bytes p)))) @ drop 12 bs"
    by (metis append_take_drop_id)
  have "4 \<le> length bs" using assms(2) by simp
  from decode_header_image [OF _ _ this, of p crc32 "drop 12 bs" undefined undefined] p(2)
  have "fst (decode_result crc32 bs (length bs) undefined undefined) = PKT_OK"
    unfolding bs [symmetric] by (simp add: shown_def)
  then have "decode_verdict crc32 (bs @ []) (length bs) = PKT_OK"
    by (simp add: fst_decode_result)
  with assms(1) show False unfolding garbage_def by blast
qed

lemma end_round_garbage:
  assumes "env_good w" "length (s_packet s) = 528" "ev_sock ev = Some (SrBytes bs)" "garbage crc32 bs"
    and "live w (PAYLOAD (s_pkt_ack s))"
  shows "\<exists>ack w2. end_round crc32 12 ev s w =
      Inr (False, SRunning (s\<lparr>s_packet := put_at 0 bs (s_packet s), s_pkt_ack := ack\<rparr>), w2) \<and>
    env_good w2 \<and> obslog w2 = obslog w @ [Sent (take 12 (s_packet s))]"
proof -
  let ?w3 = "wrote w (take 12 (s_packet s))" and ?buf = "put_at 0 bs (s_packet s)"
  have bl: "length bs \<le> 528" "take 528 bs = bs" using assms(4) by (simp_all add: garbage_def)
  obtain stt ack w2 where dr: "decode_result crc32 ?buf (length bs) (s_pkt_ack s) ?w3 = (stt, ack, w2)"
    by (cases "decode_result crc32 ?buf (length bs) (s_pkt_ack s) ?w3")
  have "decode_verdict crc32 ?buf (length bs) \<noteq> PKT_OK"
    using assms(4) by (simp add: garbage_def put_at_0)
  then have ne: "stt \<noteq> PKT_OK"
    using fst_decode_result [of crc32 ?buf "length bs" "s_pkt_ack s" ?w3] dr by simp
  have c: "(12 :: nat) \<le> 528" "bs = (case SrBytes bs of SrErr \<Rightarrow> [] | SrBytes b \<Rightarrow> take 528 b)"
    "length bs = (case SrBytes bs of SrErr \<Rightarrow> 2 ^ 64 - 1 | SrBytes b \<Rightarrow> length bs)"
    by (simp_all only: s_read.case bl)
  from decode_mild [OF dr] ne have "env_good w2" "obslog w2 = obslog ?w3"
    using assms(1) by (auto simp: mild_def)
  with end_round_accept [OF assms(1,2) c(1) assms(3) c(2,3) dr assms(5)] ne show ?thesis
    by (intro exI [of _ ack] exI [of _ w2]) simp
qed

text \<open>A datagram that \<open>pkt_decode\<close> refuses while the end packet is exchanged is read over the
  encoded end packet: from then on every round writes the first 12 bytes of that datagram, which
  are no end packet, so a receiver that missed the end packet is never told again.\<close>

theorem garbage_replaces_end_packet:
  assumes "sinv D W a n v s w" "ev_sock ev = Some (SrBytes bs)" "garbage crc32 bs" "12 \<le> length bs"
    and "\<forall>ev\<in>set idle. ev_sock ev = None"
  shows "\<exists>im s' w'. send_end crc32 (ev # idle) s w = Inr (SRunning s', w') \<and>
    end_event crc32 (R_ready (RdBytes im)) \<and>
    obslog w' = obslog w @ Sent im # replicate (length idle) (Sent (take 12 bs)) \<and>
    \<not> end_event crc32 (R_ready (RdBytes (take 12 bs)))"
proof -
  note I = sinvD [OF assms(1)]
  let ?w = "snd (gettimeofday w)"
  from send_end_start [OF assms(1)] obtain im p s1 where
    st: "send_end crc32 (ev # idle) s w = end_loop crc32 12 (ev # idle) s1 ?w"
    and im: "im = packet_image crc32 (header_bytes p) []" "shown p []" "TYPE_f p = 1"
    and s1: "s_packet s1 = im @ drop 16 (s_packet s)" "s_pkt_ack s1 = s_pkt_ack s"
    by blast
  let ?buf = "put_at 0 bs (s_packet s1)"
  have len: "length (s_packet s1) = 528" "take 12 (s_packet s1) = take 12 im"
    using I(8) im(1) by (simp_all add: s1(1))
  have lv: "live ?w (PAYLOAD (s_pkt_ack s1))"
    using I(15) by (simp add: s1(2) live_mem_eq [of ?w w])
  have env: "env_good ?w" using I(17) by simp
  from end_round_garbage [OF env len(1) assms(2,3) lv] obtain ack w2 where
    e: "end_round crc32 12 ev s1 ?w = Inr (False, SRunning (s1\<lparr>s_packet := ?buf, s_pkt_ack := ack\<rparr>), w2)"
    and w2: "env_good w2" "obslog w2 = obslog ?w @ [Sent (take 12 (s_packet s1))]"
    by blast
  let ?s2 = "s1\<lparr>s_packet := ?buf, s_pkt_ack := ack\<rparr>"
  have st2: "send_end crc32 (ev # idle) s w = end_loop crc32 12 (idle @ []) ?s2 w2" using st e by simp
  have "length bs \<le> 528" using assms(3) by (simp add: garbage_def)
  then have l2: "12 \<le> length (s_packet ?s2)" "take 12 (s_packet ?s2) = take 12 bs"
    using len(1) assms(4) by (simp_all add: put_at_0)
  have "\<And>ev. ev \<in> set idle \<Longrightarrow> ev_sock ev = None" using assms(5) by blast
  from end_loop_idle [OF w2(1) l2(1) this, where evs = idle and late = "[]", of crc32] obtain w' where
    "send_end crc32 (ev # idle) s w = Inr (SRunning ?s2, w')"
    "obslog w' = obslog w2 @ replicate (length idle) (Sent (take 12 bs))"
    unfolding st2 l2(2) by (metis end_loop.simps(1))
  moreover have "end_event crc32 (R_ready (RdBytes (take 12 im)))"
    using im unfolding end_event_def by blast
  ultimately show ?thesis
    using garbage_not_end [OF assms(3,4)] w2(2) len(2) by auto
qed

theorem garbage_replaces_end_packet_witness:
  "\<exists>s w im s' w'. send_end sum_crc [\<lparr>ev_file = None, ev_sock = Some (SrBytes (replicate 12 255))\<rparr>, se_idle, se_idle] s w =
      Inr (SRunning s', w') \<and>
    obslog w' = obslog w @ [Sent im, Sent (replicate 12 255), Sent (replicate 12 255)]"
proof -
  obtain s w where s: "sinv chunk 3 1 3 (int 3) s w" using s_run0_state by blast
  let ?ev = "\<lparr>ev_file = None, ev_sock = Some (SrBytes (replicate 12 255))\<rparr>"
  have "wire_length (replicate 12 255 @ rest) = 65535" for rest
  proof -
    have "take 2 (drop 2 (replicate 12 (255 :: byte) @ rest)) = [255, 255]" by (simp add: numeral_eq_Suc)
    then show ?thesis by (simp only: wire_length_def) code_simp
  qed
  then have g: "garbage sum_crc (replicate 12 255)"
    by (simp add: garbage_def decode_verdict_def MAX_PAYLOAD_SIZE_def)
  have "\<forall>ev\<in>set [se_idle, se_idle]. ev_sock ev = None" by (simp add: se_idle_def)
  from garbage_replaces_end_packet [OF s _ g _ this, of ?ev] obtain im s' w' where
    "send_end sum_crc [?ev, se_idle, se_idle] s w = Inr (SRunning s', w')"
    "obslog w' = obslog w @ [Sent im, Sent (replicate 12 255), Sent (replicate 12 255)]"
    by auto
  then show ?thesis by blast
qed

end
