(* ===== verification/End_To_End.thy ===== *)
theory End_To_End
  imports Sender_Faults
begin

text \<open>
  The sender and the receiver together: every datagram of the sender's main loop is an event of
  the transfer for the receiver, and a network that delivers all of them in order of sending,
  among repetitions, meets the condition under which the receiver's file is complete.
\<close>

section \<open>From datagrams to events\<close>

definition delivered :: "bytes \<Rightarrow> r_event" where
  "delivered bs = R_ready (RdBytes bs)"

lemma data_event_no_end: "data_event crc32 D n ev \<Longrightarrow> \<not> end_event crc32 ev"
proof
  assume "data_event crc32 D n ev" "end_event crc32 ev"
  then obtain p q where "packet_image crc32 (header_bytes p) (D n) = take 12 (packet_image crc32 (header_bytes q) [])"
    by (auto simp: data_event_def end_event_def)
  then have "length (packet_image crc32 (header_bytes p) (D n)) = length (take 12 (packet_image crc32 (header_bytes q) []))"
    by (rule arg_cong)
  then show False by simp
qed

lemma in_order_subseq: "subseq evs evs' \<Longrightarrow> in_order crc32 D m N evs \<Longrightarrow> in_order crc32 D m N evs'"
proof (induction arbitrary: m rule: list_emb.induct)
  case (list_emb_Nil ys)
  then show ?case by (simp add: in_order_done)
next
  case (list_emb_Cons xs ys y)
  then show ?case by simp
next
  case (list_emb_Cons2 x y xs ys)
  then show ?case by auto
qed

lemma in_order_sends:
  "list_all2 (data_packet crc32 D) js bss \<Longrightarrow> subseq [m..<N] js \<Longrightarrow> in_order crc32 D m N (map delivered bss)"
proof (induction arbitrary: m rule: list_all2_induct)
  case Nil
  then have "[m..<N] = []" by (rule list_emb_Nil2)
  then show ?case by auto
next
  case (Cons j js bs bss)
  show ?case
  proof (cases "m < N")
    case True
    then have u: "[m..<N] = m # [Suc m..<N]" by (simp add: upt_conv_Cons)
    show ?thesis
    proof (cases "m = j")
      case True
      then have "subseq [Suc m..<N] js" using Cons.prems u by simp
      with Cons.IH Cons.hyps True show ?thesis by (simp add: delivered_def data_packet_def)
    next
      case False
      then have "subseq [m..<N] js" using Cons.prems u by simp
      with Cons.IH show ?thesis by simp
    qed
  qed (simp add: in_order_done)
qed

text \<open>The sender's main loop, seen from the network.\<close>

lemma sender_datagrams:
  assumes "sinv D W 0 0 1 s w1" "s_endFile s = 0" "obslog w1 = []" "s_run crc32 D N W fg 0 0 1 sevs a n v True"
    and "0 \<le> sfd" "0 \<le> fd" "\<forall>j<N. D j \<noteq> [] \<and> length (D j) \<le> 512"
    and "send_loop crc32 ops fg sfd fd sevs s w1 = Inr (SRunning s', left, w2)"
  shows "\<exists>bss. obslog w2 = map Sent bss \<and> (\<forall>bs\<in>set bss. \<exists>j<n. data_event crc32 D j (delivered bs)) \<and>
    in_order crc32 D 0 n (map delivered bss) \<and> sinv D W a n v s' w2 \<and> \<not> going s'"
proof -
  have chunks: "\<And>j. j < N \<Longrightarrow> D j \<noteq> [] \<and> length (D j) \<le> 512" using assms(7) by blast
  from run_ok [OF assms(4,1,2,5,6) chunks, of ops] assms(8) obtain js where
    r: "sinv D W a n v s' w2" "s_endFile s' = 1" "sends crc32 D js w1 w2" "subseq [0..<n] js" "set js \<subseteq> {..<n}"
    by auto
  then obtain bss where b: "obslog w2 = map Sent bss" "list_all2 (data_packet crc32 D) js bss"
    using assms(3) by (auto simp: sends_def)
  have "\<forall>bs\<in>set bss. \<exists>j<n. data_event crc32 D j (delivered bs)"
    using b(2) r(5) by (force simp: list_all2_conv_all_nth in_set_conv_nth data_packet_def delivered_def)
  with b(1) in_order_sends [OF b(2) r(4)] r(1,2) show ?thesis
    by (intro exI [of _ bss]) (simp add: going_def)
qed

lemma send_loop_append:
  "send_loop crc32 ops fg sfd fd evs s w = Inr (SRunning s1, [], w1) \<Longrightarrow>
     send_loop crc32 ops fg sfd fd (evs @ evs2) s w = send_loop crc32 ops fg sfd fd evs2 s1 w1"
proof (induction evs arbitrary: s w)
  case (Cons ev evs)
  then show ?case
    by (cases "send_step crc32 ops fg sfd fd ev s w") (auto split: if_splits sctl.splits)
qed simp

lemma send_loop_stop: "\<not> going s \<Longrightarrow> send_loop crc32 ops fg sfd fd evs s w = Inr (SRunning s, evs, w)"
  by (cases evs) simp_all

section \<open>The network delivers what was sent\<close>

text \<open>C7. Sender and receiver composed, over a network that loses, repeats, delays and reorders
  datagrams but makes none up: in a transfer of up to 253 chunks, whatever part of the sender's
  data packets (and end packets at any moment) reaches the receiver, the receiver's loop has no
  undefined behaviour and its file is always a prefix of what the sender has read.\<close>

theorem transfer_prefix:
  assumes "env_good ws" "heap_ok ws" "obslog ws = []" "length pe = 528" "length rt = 512"
    and "send_init pe rt ws = Inr (Some s, w1)" "s_run crc32 D N 3 fg 0 0 1 sevs a n v True" "n \<le> 253"
    and "0 \<le> sfd" "0 \<le> fd" "\<forall>j<N. D j \<noteq> [] \<and> length (D j) \<le> 512"
    and "send_loop crc32 ops fg sfd fd sevs s w1 = Inr (SRunning s', left, w2)"
    and "env_good wr" "heap_ok wr" "obslog wr = []" "length pr = 528" "receive_init pr wr = Inr (Some r, wr1)"
    and "\<forall>ev\<in>set revs. ev = R_idle \<or> (\<exists>bs. Sent bs \<in> set (obslog w2) \<and> ev = delivered bs) \<or> end_event crc32 ev"
  shows "\<exists>r' wr' e. receive_loop crc32 3 revs r wr1 = Inr (Running r', wr') \<and> e \<le> n \<and>
    file_of (obslog wr') = concat (map D [0..<e])"
proof -
  have "sinv D 3 0 0 1 s w1" "s_endFile s = 0" "obslog w1 = []"
    using send_init_ok [OF assms(1,2) _ _ assms(4,5), of 3 D] assms(3,6) by auto
  from sender_datagrams [OF this assms(7,9-12)] obtain bss where
    b: "obslog w2 = map Sent bss" "\<forall>bs\<in>set bss. \<exists>j<n. data_event crc32 D j (delivered bs)"
    by blast
  have inv: "rinv D n 3 0 r wr1"
    using receive_init_ok [OF assms(13-16), of 3 D n] assms(17) by auto
  have "ev = R_idle \<or> end_event crc32 ev \<or> (\<exists>j<n. data_event crc32 D j ev)" if "ev \<in> set revs" for ev
    using assms(18) that b by auto
  with assms(8) have "admissible crc32 D n 3 revs r wr1"
    by (intro admissible_short [OF _ inv]) auto
  from loop_safe [OF inv this] show ?thesis
    using rinvD(1,15) by fastforce
qed

theorem transfer_prefix_witness:
  "\<exists>s w1 s' left w2 r wr1 r' wr' e. send_init (replicate 528 0) (replicate 512 0) world_r = Inr (Some s, w1) \<and>
    send_loop sum_crc int_ops True 3 4 s_run0 s w1 = Inr (SRunning s', left, w2) \<and>
    receive_init (replicate 528 0) world_r = Inr (Some r, wr1) \<and>
    receive_loop sum_crc 3 (map delivered (rev (sent_of (obslog w2)))) r wr1 = Inr (Running r', wr') \<and>
    file_of (obslog wr') = concat (map chunk [0..<e])"
proof -
  obtain s w1 where s: "send_init (replicate 528 0) (replicate 512 0) world_r = Inr (Some s, w1)"
    "sinv chunk 3 0 0 1 s w1" "s_endFile s = 0" "obslog w1 = []"
    using send_init_ok [where w = world_r and W = 3 and D = chunk and pe = "replicate 528 0" and rt = "replicate 512 0"]
    by auto
  from run_ok [OF s_run0_ok s(2,3), of 3 4 int_ops] chunk_ok obtain s' left w2 where
    l: "send_loop sum_crc int_ops True 3 4 s_run0 s w1 = Inr (SRunning s', left, w2)"
    by fastforce
  have ch: "\<forall>j<3. chunk j \<noteq> [] \<and> length (chunk j) \<le> 512" using chunk_ok by blast
  from sender_datagrams [OF s(2-4) s_run0_ok _ _ ch l] obtain bss where b: "obslog w2 = map Sent bss" by auto
  have "sent_of (map Sent bss) = bss" by (induction bss) simp_all
  then have ev: "\<forall>ev\<in>set (map delivered (rev (sent_of (obslog w2)))).
      ev = R_idle \<or> (\<exists>bs. Sent bs \<in> set (obslog w2) \<and> ev = delivered bs) \<or> end_event sum_crc ev"
    by (auto simp: b)
  obtain r wr1 where r: "receive_init (replicate 528 0) world_r = Inr (Some r, wr1)"
    using receive_init_ok [of world_r "replicate 528 0" 3 chunk 3] by auto
  from transfer_prefix [OF _ _ _ _ _ s(1) s_run0_ok _ _ _ ch l _ _ _ _ r ev] s(1) l r show ?thesis
    by (simp only: world_r_sel length_replicate) (simp, blast)
qed

text \<open>The whole transfer of up to 253 chunks, both functions from start to end: the sender's run
  reads the file to its end, gets an answer to its end packet and returns. If every datagram it
  sent reaches the receiver in the order of sending (among any repetitions of them), followed by
  its end packet, the receiver returns as well and its file is the sender's file.\<close>

theorem file_transfer:
  assumes "env_good ws" "heap_ok ws" "obslog ws = []" "length pe = 528" "length rt = 512"
    and "send_init pe rt ws = Inr (Some s, w1)" "s_run crc32 D n 3 fg 0 0 1 sevs a n v True" "n \<le> 253"
    and "0 \<le> sfd" "0 \<le> fd" "\<forall>j<n. D j \<noteq> [] \<and> length (D j) \<le> 512"
    and "send_loop crc32 ops fg sfd fd sevs s w1 = Inr (SRunning s', [], w2)"
    and "\<forall>ev\<in>set idle. ev_sock ev = None" "ev_sock ev = Some (SrBytes (ack_bytes crc32 x))" "TR x = 0" "LENGTH_f x = 0"
    and "env_good wr" "heap_ok wr" "obslog wr = []" "length pr = 528" "0 \<le> rfd" "0 \<le> wait"
  shows "\<exists>bss im ws'. send_data crc32 ops True fg sfd fd pe rt (sevs @ idle @ ev # late) ws = Inr (SReturned, ws') \<and>
    obslog ws' = map Sent bss @ replicate (Suc (length idle)) (Sent im) \<and>
    (\<forall>revs rest. subseq (map delivered bss) revs \<and> set revs \<subseteq> insert R_idle (delivered ` set bss) \<longrightarrow>
      (\<exists>wr'. receive_data crc32 True rfd wait pr (revs @ delivered im # rest) wr = Inr (Returned, wr') \<and>
        file_of (obslog wr') = concat (map D [0..<n])))"
proof -
  have i: "sinv D 3 0 0 1 s w1" "s_endFile s = 0" "obslog w1 = []"
    using send_init_ok [OF assms(1,2) _ _ assms(4,5), of 3 D] assms(3,6) by auto
  from sender_datagrams [OF i assms(7,9-12)] obtain bss where
    b: "obslog w2 = map Sent bss" "\<forall>bs\<in>set bss. \<exists>j<n. data_event crc32 D j (delivered bs)"
      "in_order crc32 D 0 n (map delivered bss)"
    and fin: "sinv D 3 a n v s' w2" "\<not> going s'"
    by blast
  from send_end_answer [OF fin(1) assms(13-16), of late, folded delivered_def] obtain im ws' where
    e: "send_end crc32 (idle @ ev # late) s' w2 = Inr (SReturned, ws')"
      "obslog ws' = obslog w2 @ replicate (Suc (length idle)) (Sent im)" "end_event crc32 (delivered im)"
    by (elim exE conjE)
  have sd: "send_data crc32 ops True fg sfd fd pe rt (sevs @ idle @ ev # late) ws = Inr (SReturned, ws')"
    using e(1) fin(2) by (simp add: send_data_def assms(6) send_loop_append [OF assms(12)] send_loop_stop)
  have rd: "\<exists>wr'. receive_data crc32 True rfd wait pr (revs @ delivered im # rest) wr = Inr (Returned, wr') \<and>
      file_of (obslog wr') = concat (map D [0..<n])"
    if sub: "subseq (map delivered bss) revs" and rs: "set revs \<subseteq> insert R_idle (delivered ` set bss)" for revs rest
  proof -
    have "\<forall>ev\<in>set revs. ev = R_idle \<or> (\<exists>j<n. data_event crc32 D j ev) \<and> \<not> end_event crc32 ev"
      using rs b(2) data_event_no_end by blast
    from receive_data_run [OF assms(17-22,8) this in_order_subseq [OF sub b(3)] e(3)] show ?thesis by blast
  qed
  show ?thesis
  proof (rule exI [of _ bss], rule exI [of _ im], rule exI [of _ ws'], intro conjI allI impI; (elim conjE)?)
    show "obslog ws' = map Sent bss @ replicate (Suc (length idle)) (Sent im)"
      unfolding e(2) b(1) by (rule refl)
  qed (rule sd, erule (1) rd)
qed

lemma send_loop_last:
  assumes "send_loop crc32 ops fg sfd fd evs s w = Inr (SRunning s1, [], w1)" "going s1"
    and "send_loop crc32 ops fg sfd fd (evs @ [ev]) s w = Inr (SRunning s', left, w')"
  shows "left = []"
  using assms(2,3) unfolding send_loop_append [OF assms(1)]
  by (cases "send_step crc32 ops fg sfd fd ev s1 w1") (auto split: if_splits sctl.splits)

lemma send_loop_going:
  "send_loop crc32 ops fg sfd fd evs s w = Inr (SRunning s', left, w') \<Longrightarrow> going s' \<Longrightarrow> left = []"
proof (induction evs arbitrary: s w)
  case (Cons ev evs)
  then show ?case
    by (cases "send_step crc32 ops fg sfd fd ev s w") (auto split: if_splits sctl.splits)
qed simp

text \<open>A run of the sender that ends with nothing left over.\<close>

lemma s_run0_loop:
  "\<exists>s w1 s' w3. send_init (replicate 528 0) (replicate 512 0) world_r = Inr (Some s, w1) \<and>
    send_loop sum_crc int_ops True 3 4 s_run0 s w1 = Inr (SRunning s', [], w3)"
proof -
  obtain s w1 where s: "send_init (replicate 528 0) (replicate 512 0) world_r = Inr (Some s, w1)"
    "sinv chunk 3 0 0 1 s w1" "s_endFile s = 0"
    using send_init_ok [where w = world_r and W = 3 and D = chunk and pe = "replicate 528 0" and rt = "replicate 512 0"]
    by auto
  from run_ok [OF s_reads_ok s(2,3), of 3 4 int_ops] chunk_ok obtain s1 left1 w2 where
    l1: "send_loop sum_crc int_ops True 3 4 s_reads s w1 = Inr (SRunning s1, left1, w2)" "going s1"
    by (fastforce simp: going_def)
  with send_loop_going have l1': "send_loop sum_crc int_ops True 3 4 s_reads s w1 = Inr (SRunning s1, [], w2)" by blast
  from run_ok [OF s_run0_ok s(2,3), of 3 4 int_ops] chunk_ok obtain s' left w3 where
    l: "send_loop sum_crc int_ops True 3 4 s_run0 s w1 = Inr (SRunning s', left, w3)"
    by fastforce
  with send_loop_last [OF l1' l1(2)] have "send_loop sum_crc int_ops True 3 4 s_run0 s w1 = Inr (SRunning s', [], w3)"
    unfolding s_run0_def by blast
  with s(1) show ?thesis by blast
qed

end
