(* ===== verification/Programs.thy ===== *)
theory Programs
  imports Sockets Getopt End_To_End
begin

text \<open>
  The programs around the two functions: \<open>main\<close> of sender.c and receiver.c (the options, the exit
  status) and the set-up at the start of \<open>send_data\<close> and \<open>receive_data\<close> (address, socket, first
  datagram, file), which gives the arguments of the models of the rest.
\<close>

section \<open>Command lines\<close>

text \<open>What is said on \<open>stderr\<close> before the exit.\<close>

datatype diag = NeedsArg char | BadOption char | BadChar char | BadArguments

definition option_diag :: "char \<Rightarrow> diag" where
  "option_diag optopt =
     (if optopt = CHR ''c'' then NeedsArg optopt
      else if is_print optopt then BadOption optopt else BadChar optopt)"

text \<open>\<open>getopt(argc, argv, "f:")\<close>.\<close>

definition f_opts :: optstring where
  "f_opts c = (if c = CHR ''f'' then Some True else None)"

datatype stop = Exits int "diag option" | Aborts

fun opt_loop :: "gopt list \<Rightarrow> string option \<Rightarrow> stop + string option" where
  "opt_loop [] fichier = Inr fichier"
| "opt_loop (g # gs) fichier =
     (case g of
        OptArg c optarg \<Rightarrow> if c = CHR ''f'' then opt_loop gs (Some optarg) else Inl Aborts
      | Opt c \<Rightarrow> Inl Aborts
      | Missing c \<Rightarrow> Inl (Exits 1 (Some (option_diag c)))
      | Unknown c \<Rightarrow> Inl (Exits 1 (Some (option_diag c)))
      | BadLong \<Rightarrow> Inl (Exits 1 None))"

text \<open>The file, the host name and the port, or the way the program ends.\<close>

definition arguments :: "string list \<Rightarrow> stop + string option \<times> string \<times> int" where
  "arguments argv =
     (let (gs, operands) = scan f_opts [] argv in
      case opt_loop gs None of
        Inl e \<Rightarrow> Inl e
      | Inr fichier \<Rightarrow>
          (case operands of
             [hostname, port] \<Rightarrow> Inr (fichier, hostname, atoi port)
           | _ \<Rightarrow> Inl (Exits 1 (Some BadArguments))))"

section \<open>Set-up\<close>

text \<open>The sender: whether the address was found, the socket, the file. \<open>zero\<close> is the address
  filled with zeros. Standard input is descriptor 0, standard output 1.\<close>

definition open_sender ::
    "'a os \<Rightarrow> 'a sockaddr_in6 \<Rightarrow> string \<Rightarrow> int \<Rightarrow> string option \<Rightarrow> 'a kernel \<Rightarrow> (bool \<times> int \<times> int) \<times> 'a kernel" where
  "open_sender os zero hostname port file k =
     (case real_address os hostname zero of
        (Some msg, _) \<Rightarrow> ((False, 0, 0), k)
      | (None, real_addr) \<Rightarrow>
          (let (sfd, _, _, k1) = create_socket os None 0 (Some real_addr) port k;
               (fd, k2) = (case file of Some name \<Rightarrow> sys_open os name k1 | None \<Rightarrow> (0, k1)) in
           ((True, sfd, fd), k2)))"

text \<open>The receiver: whether the address was found, the socket, the result of \<open>wait_for_client\<close> and
  the file; \<open>None\<close> while no datagram arrives. The calls after a failure are not made.\<close>

definition open_receiver ::
    "'a os \<Rightarrow> 'a sockaddr_in6 \<Rightarrow> string \<Rightarrow> int \<Rightarrow> string option \<Rightarrow> 'a kernel
      \<Rightarrow> ((bool \<times> int \<times> int \<times> int) \<times> 'a kernel) option" where
  "open_receiver os zero hostname port file k =
     (case real_address os hostname zero of
        (Some msg, _) \<Rightarrow> Some ((False, 0, 0, 0), k)
      | (None, real_addr) \<Rightarrow>
          (let (sfd, _, _, k1) = create_socket os (Some real_addr) port None 0 k in
           if sfd < 0 then Some ((True, sfd, 0, 0), k1)
           else
             (case wait_for_client os zero sfd k1 of
                None \<Rightarrow> None
              | Some (wait, k2) \<Rightarrow>
                  if wait < 0 then Some ((True, sfd, wait, 0), k2)
                  else
                    (let (fd, k3) = (case file of Some name \<Rightarrow> sys_open os name k2 | None \<Rightarrow> (1, k2)) in
                     Some ((True, sfd, wait, fd), k3)))))"

section \<open>The programs\<close>

text \<open>How a program ends, and the world and the system it leaves; \<open>Unfinished\<close> when the input given
  does not bring it to an end. Nothing is closed before the exit.\<close>

datatype ending = Ends stop | Unfinished

definition sender_main ::
    "crc_fun \<Rightarrow> 'd dbl \<Rightarrow> 'a os \<Rightarrow> 'a sockaddr_in6 \<Rightarrow> string list \<Rightarrow> bytes \<Rightarrow> bytes \<Rightarrow> s_event list \<Rightarrow> 'a kernel \<Rightarrow> world
      \<Rightarrow> (ending \<times> 'a kernel \<times> world) outcome" where
  "sender_main crc32 ops os zero argv packet_encoded read_tmp evs k w =
     (case arguments argv of
        Inl e \<Rightarrow> Inr (Ends e, k, w)
      | Inr (fichier, hostname, port) \<Rightarrow>
          (let ((addr_ok, sfd, fd), k1) = open_sender os zero hostname port fichier k in
           andthen (send_data crc32 ops addr_ok (fichier \<noteq> None) sfd fd packet_encoded read_tmp evs w) (\<lambda>(c, w1).
           Inr (case c of SReturned \<Rightarrow> Ends (Exits 0 None) | SRunning _ \<Rightarrow> Unfinished, k1, w1))))"

definition receiver_main ::
    "crc_fun \<Rightarrow> 'a os \<Rightarrow> 'a sockaddr_in6 \<Rightarrow> string list \<Rightarrow> bytes \<Rightarrow> r_event list \<Rightarrow> 'a kernel \<Rightarrow> world
      \<Rightarrow> (ending \<times> 'a kernel \<times> world) outcome" where
  "receiver_main crc32 os zero argv packet_encoded evs k w =
     (case arguments argv of
        Inl e \<Rightarrow> Inr (Ends e, k, w)
      | Inr (fichier, hostname, port) \<Rightarrow>
          (case open_receiver os zero hostname port fichier k of
             None \<Rightarrow> Inr (Unfinished, k, w)
           | Some ((addr_ok, sfd, wait, fd), k1) \<Rightarrow>
               andthen (receive_data crc32 addr_ok sfd wait packet_encoded evs w) (\<lambda>(c, w1).
               Inr (case c of Returned \<Rightarrow> Ends (Exits 0 None) | Running _ \<Rightarrow> Unfinished, k1, w1))))"

section \<open>Laws\<close>

lemma arguments_plain:
  assumes "plain h" "plain p"
  shows "arguments [h, p] = Inr (None, h, atoi p)"
    and "arguments [''-f'', x, h, p] = Inr (Some x, h, atoi p)"
    and "arguments [h, ''-f'', x, p] = Inr (Some x, h, atoi p)"
    and "arguments [h, p, ''-f'', x] = Inr (Some x, h, atoi p)"
proof -
  have f: "f_opts CHR ''f'' = Some True" "CHR ''f'' \<noteq> CHR ''-''" by (simp_all add: f_opts_def)
  note s = scan_plain [OF assms(1)] scan_plain [OF assms(2)] scan_optarg [of f_opts, OF f]
  show "arguments [h, p] = Inr (None, h, atoi p)" "arguments [''-f'', x, h, p] = Inr (Some x, h, atoi p)"
    "arguments [h, ''-f'', x, p] = Inr (Some x, h, atoi p)" "arguments [h, p, ''-f'', x] = Inr (Some x, h, atoi p)"
    by (simp_all add: arguments_def s)
qed

lemma open_sender_ok:
  assumes "os_getaddrinfo os h = (0, a)" "p > 0" "os_socket os (k_calls k) = sfd" "sfd \<noteq> -1"
    and "\<not> os_connect_fails os (Suc (k_calls k)) (a\<lparr>sin6_port := htons (word_of_int p)\<rparr>)"
  shows "\<exists>k1. open_sender os zero h p None k = ((True, sfd, 0), k1)"
    and "\<exists>k1. open_sender os zero h p (Some x) k = ((True, sfd, os_open os (k_calls k + 2) x), k1)"
  using assms by (auto simp: open_sender_def real_address_def create_socket_connect sys_open_def Let_def)

text \<open>The exit status of the sender is 0 also when nothing was sent.\<close>

lemma sender_status_no_address:
  assumes "arguments argv = Inr (f, h, p)" "fst (os_getaddrinfo os h) \<noteq> 0"
  shows "sender_main crc32 ops os zero argv pe rt evs k w = Inr (Ends (Exits 0 None), k, w)"
  using assms by (auto simp: sender_main_def open_sender_def real_address_def send_data_def split: prod.splits)

text \<open>The programs are the functions with the set-up in front.\<close>

lemma sender_main_sends:
  assumes "arguments argv = Inr (f, h, p)" "open_sender os zero h p f k = ((True, sfd, fd), k1)"
    and "send_data crc32 ops True (f \<noteq> None) sfd fd pe rt evs w = Inr (SReturned, w1)"
  shows "sender_main crc32 ops os zero argv pe rt evs k w = Inr (Ends (Exits 0 None), k1, w1)"
  using assms by (simp add: sender_main_def)

lemma receiver_main_receives:
  assumes "arguments argv = Inr (f, h, p)" "open_receiver os zero h p f k = Some ((True, sfd, wait, fd), k1)"
    and "receive_data crc32 True sfd wait pe evs w = Inr (Returned, w1)"
  shows "receiver_main crc32 os zero argv pe evs k w = Inr (Ends (Exits 0 None), k1, w1)"
  using assms by (simp add: receiver_main_def)

section \<open>How the programs end\<close>

text \<open>What the options of a command line say, in the words of getopt's manual: the characters it refuses (an
  unknown option, or one whose argument is missing), in order, and the file names given.\<close>

fun refusals :: "gopt list \<Rightarrow> string" where
  "refusals [] = []"
| "refusals (Missing c # gs) = c # refusals gs"
| "refusals (Unknown c # gs) = c # refusals gs"
| "refusals (_ # gs) = refusals gs"

fun file_names :: "gopt list \<Rightarrow> string list" where
  "file_names [] = []"
| "file_names (OptArg _ a # gs) = a # file_names gs"
| "file_names (_ # gs) = file_names gs"

lemma opt_loop_eq:
  "\<forall>g\<in>set gs. opt_ok f_opts [] g \<Longrightarrow> opt_loop gs f =
     (case refusals gs of
        c # _ \<Rightarrow> Inl (Exits 1 (Some (option_diag c)))
      | [] \<Rightarrow> Inr (if file_names gs = [] then f else Some (last (file_names gs))))"
  by (induction gs arbitrary: f) (auto simp: opt_ok_def f_opts_def split: gopt.splits list.splits if_splits)

lemma arguments_eq:
  assumes "scan f_opts [] argv = (gs, operands)"
  shows "arguments argv =
    (case refusals gs of
       c # _ \<Rightarrow> Inl (Exits 1 (Some (option_diag c)))
     | [] \<Rightarrow>
         if length operands = 2
         then Inr (if file_names gs = [] then None else Some (last (file_names gs)), operands ! 0, atoi (operands ! 1))
         else Inl (Exits 1 (Some BadArguments)))"
proof -
  have "\<forall>g\<in>set gs. opt_ok f_opts [] g" using scan_ok [of _ f_opts "[]" argv] assms by simp
  with opt_loop_eq [of gs None] assms show ?thesis
    by (auto simp: arguments_def split: list.splits)
qed

text \<open>Once its arguments are accepted the sender can only end with status 0.\<close>

lemma sender_main_accepted:
  assumes "arguments argv = Inr (f, h, p)" "sender_main crc32 ops os zero argv pe rt evs k w = Inr (Ends e, k', w')"
  shows "e = Exits 0 None \<and> k' = snd (open_sender os zero h p f k)"
proof -
  obtain ok sfd fd k1 where o: "open_sender os zero h p f k = ((ok, sfd, fd), k1)" by (metis prod.collapse)
  with assms show ?thesis
    by (cases "send_data crc32 ops ok (f \<noteq> None) sfd fd pe rt evs w")
      (auto simp: sender_main_def split: sctl.splits)
qed

text \<open>C37. How the sender ends, for every command line, in terms of what the GNU \<open>getopt\<close> makes of it (\<open>scan\<close>).
  If it refuses an option, the status is 1, the message is on the first character refused (and calls a
  missing file name an unknown option, but asks for an argument of an option \<open>c\<close> that does not
  exist), and nothing was done. If all options are accepted and there are not exactly two operands, the
  status is 1 with a message on the arguments, and nothing was done. Otherwise the host is the first
  operand, the port the second, and the file the last one named; and if the sender ends, it is
  with status 0, whatever became of the transfer.\<close>

theorem sender_main_status:
  assumes "scan f_opts [] argv = (gs, operands)"
  shows "case refusals gs of
      c # _ \<Rightarrow> sender_main crc32 ops os zero argv pe rt evs k w =
        Inr (Ends (Exits 1 (Some (if c = CHR ''c'' then NeedsArg c else if is_print c then BadOption c else BadChar c))), k, w)
    | [] \<Rightarrow>
        if length operands \<noteq> 2
        then sender_main crc32 ops os zero argv pe rt evs k w = Inr (Ends (Exits 1 (Some BadArguments)), k, w)
        else \<forall>e k' w'. sender_main crc32 ops os zero argv pe rt evs k w = Inr (Ends e, k', w') \<longrightarrow>
          e = Exits 0 None \<and>
          k' = snd (open_sender os zero (operands ! 0) (atoi (operands ! 1))
            (if file_names gs = [] then None else Some (last (file_names gs))) k)"
proof (cases "refusals gs")
  case Nil
  show ?thesis
  proof (cases "length operands = 2")
    case True
    with Nil arguments_eq [OF assms] have
      "arguments argv = Inr (if file_names gs = [] then None else Some (last (file_names gs)), operands ! 0, atoi (operands ! 1))"
      by simp
    note ends = sender_main_accepted [OF this]
    have two: "\<not> length operands \<noteq> 2" using True by simp
    show ?thesis unfolding Nil list.case if_not_P [OF two] using ends by blast
  qed (use Nil arguments_eq [OF assms] in \<open>simp add: sender_main_def\<close>)
next
  case (Cons c cs)
  with arguments_eq [OF assms] show ?thesis by (simp add: sender_main_def option_diag_def)
qed

text \<open>A host that is not found: nothing is sent, and the status is 0. An operand too many; a file name that
  is missing.\<close>

theorem sender_main_status_witness:
  "let os = os_good\<lparr>os_getaddrinfo := (\<lambda>_. (-2, any_addr))\<rparr>;
       run = (\<lambda>argv. sender_main sum_crc int_ops os any_addr argv [] [] [] kernel0 world_r) in
   (\<forall>e k' w'. run [''nowhere'', ''8080''] = Inr (Ends e, k', w') \<longrightarrow> e = Exits 0 None) \<and>
   run [''nowhere'', ''8080''] = Inr (Ends (Exits 0 None), kernel0, world_r) \<and>
   run [''nowhere'', ''8080'', ''x''] = Inr (Ends (Exits 1 (Some BadArguments)), kernel0, world_r) \<and>
   run [''nowhere'', ''8080'', ''-f''] = Inr (Ends (Exits 1 (Some (BadOption CHR ''f''))), kernel0, world_r)"
proof -
  let ?os = "os_good\<lparr>os_getaddrinfo := (\<lambda>_. (-2, any_addr))\<rparr>"
  have a: "arguments [''nowhere'', ''8080''] = Inr (None, ''nowhere'', 8080)" by code_simp
  have m: "sender_main sum_crc int_ops ?os any_addr [''nowhere'', ''8080''] [] [] [] kernel0 world_r
      = Inr (Ends (Exits 0 None), kernel0, world_r)"
    by (rule sender_status_no_address [OF a]) simp
  have s: "scan f_opts [] [''nowhere'', ''8080''] = ([], [''nowhere'', ''8080''])"
    "scan f_opts [] [''nowhere'', ''8080'', ''x''] = ([], [''nowhere'', ''8080'', ''x''])"
    "scan f_opts [] [''nowhere'', ''8080'', ''-f''] = ([Missing CHR ''f''], [''nowhere'', ''8080''])" by code_simp+
  have p: "is_print CHR ''f''" by code_simp
  from sender_main_status [OF s(1), of sum_crc int_ops ?os any_addr "[]" "[]" "[]" kernel0 world_r]
    sender_main_status [OF s(2), of sum_crc int_ops ?os any_addr "[]" "[]" "[]" kernel0 world_r]
    sender_main_status [OF s(3), of sum_crc int_ops ?os any_addr "[]" "[]" "[]" kernel0 world_r] m p
  show ?thesis by (simp add: Let_def)
qed

section \<open>From one command line to the other\<close>

text \<open>C1. The two programs, from their command lines to their exit, on a transfer of up to 253 chunks:
  the sender finds its host and connects its socket, reads the file to its end, gets an answer to
  its end packet and exits with status 0. If every datagram it sent reaches the receiver in the
  order of sending (among any repetitions of them), followed by its end packet, the receiver exits
  with status 0 as well, and its file is the sender's file.\<close>

theorem programs_transfer:
  assumes "arguments sargv = Inr (sfile, shost, sport)" "open_sender os zero shost sport sfile k = ((True, sfd, fd), k1)"
    and "arguments rargv = Inr (rfile, rhost, rport)"
    and "open_receiver ros rzero rhost rport rfile kr = Some ((True, rfd, wait, rout), kr1)"
    and "env_good ws" "heap_ok ws" "obslog ws = []" "length pe = 528" "length rt = 512"
    and "send_init pe rt ws = Inr (Some s, w1)" "s_run crc32 D n 3 (sfile \<noteq> None) 0 0 1 sevs a n v True" "n \<le> 253"
    and "0 \<le> sfd" "0 \<le> fd" "\<forall>j<n. D j \<noteq> [] \<and> length (D j) \<le> 512"
    and "send_loop crc32 ops (sfile \<noteq> None) sfd fd sevs s w1 = Inr (SRunning s', [], w2)"
    and "\<forall>ev\<in>set idle. ev_sock ev = None" "ev_sock ev = Some (SrBytes (ack_bytes crc32 x))" "TR x = 0" "LENGTH_f x = 0"
    and "env_good wr" "heap_ok wr" "obslog wr = []" "length pr = 528" "0 \<le> rfd" "0 \<le> wait"
  shows "\<exists>bss im ws'. sender_main crc32 ops os zero sargv pe rt (sevs @ idle @ ev # late) k ws =
      Inr (Ends (Exits 0 None), k1, ws') \<and>
    obslog ws' = map Sent bss @ replicate (Suc (length idle)) (Sent im) \<and>
    (\<forall>revs rest. subseq (map delivered bss) revs \<and> set revs \<subseteq> insert R_idle (delivered ` set bss) \<longrightarrow>
      (\<exists>wr'. receiver_main crc32 ros rzero rargv pr (revs @ delivered im # rest) kr wr =
          Inr (Ends (Exits 0 None), kr1, wr') \<and>
        file_of (obslog wr') = concat (map D [0..<n])))"
proof -
  from file_transfer [OF assms(5-26), of late] obtain bss im ws' where
    t: "send_data crc32 ops True (sfile \<noteq> None) sfd fd pe rt (sevs @ idle @ ev # late) ws = Inr (SReturned, ws')"
      "obslog ws' = map Sent bss @ replicate (Suc (length idle)) (Sent im)"
    and r: "\<forall>revs rest. subseq (map delivered bss) revs \<and> set revs \<subseteq> insert R_idle (delivered ` set bss) \<longrightarrow>
      (\<exists>wr'. receive_data crc32 True rfd wait pr (revs @ delivered im # rest) wr = Inr (Returned, wr') \<and>
        file_of (obslog wr') = concat (map D [0..<n]))"
    by (elim exE conjE)
  from r have "\<forall>revs rest. subseq (map delivered bss) revs \<and> set revs \<subseteq> insert R_idle (delivered ` set bss) \<longrightarrow>
      (\<exists>wr'. receiver_main crc32 ros rzero rargv pr (revs @ delivered im # rest) kr wr =
          Inr (Ends (Exits 0 None), kr1, wr') \<and>
        file_of (obslog wr') = concat (map D [0..<n]))"
    using receiver_main_receives [OF assms(3,4)] by blast
  with sender_main_sends [OF assms(1,2) t(1)] t(2) show ?thesis by blast
qed

lemma sender_args: "arguments [''-f'', ''in'', ''::1'', ''12345''] = Inr (Some ''in'', ''::1'', 12345)"
  by code_simp

lemma receiver_args: "arguments [''::'', ''12345''] = Inr (None, ''::'', 12345)"
  by code_simp

lemma sender_opens:
  "\<exists>k1. open_sender os_good any_addr ''::1'' 12345 (Some ''in'') kernel0 = ((True, 3, 4), k1)"
  by (simp add: open_sender_def real_address_def create_socket_connect sys_open_def Let_def os_good_def)

lemma receiver_opens:
  "\<exists>k1. open_receiver os_good any_addr ''::'' 12345 None kernel0 = Some ((True, 3, 0, 1), k1)"
  by (simp add: open_receiver_def real_address_def create_socket_bind wait_for_client_spec Let_def os_good_def kernel0_def)

theorem programs_transfer_witness:
  "\<exists>bss im k1 ws'. sender_main sum_crc int_ops os_good any_addr [''-f'', ''in'', ''::1'', ''12345'']
      (replicate 528 0) (replicate 512 0) (s_run0 @ [se_idle] @ [se_ack 3]) kernel0 world_r =
        Inr (Ends (Exits 0 None), k1, ws') \<and>
    obslog ws' = map Sent bss @ [Sent im, Sent im] \<and>
    (\<exists>k2 wr'. receiver_main sum_crc os_good any_addr [''::'', ''12345''] (replicate 528 0)
        (map delivered bss @ [delivered im]) kernel0 world_r = Inr (Ends (Exits 0 None), k2, wr') \<and>
      file_of (obslog wr') = [65, 66, 67])"
proof -
  from sender_opens obtain k1 where ks: "open_sender os_good any_addr ''::1'' 12345 (Some ''in'') kernel0 = ((True, 3, 4), k1)"
    by blast
  from receiver_opens obtain k2 where kr: "open_receiver os_good any_addr ''::'' 12345 None kernel0 = Some ((True, 3, 0, 1), k2)"
    by blast
  from s_run0_loop obtain s w1 s' w3 where
    s: "send_init (replicate 528 0) (replicate 512 0) world_r = Inr (Some s, w1)"
    and l: "send_loop sum_crc int_ops (Some ''in'' \<noteq> None) 3 4 s_run0 s w1 = Inr (SRunning s', [], w3)"
    by auto
  have run: "s_run sum_crc chunk 3 3 (Some ''in'' \<noteq> None) 0 0 1 s_run0 1 3 (int 3) True"
    using s_run0_ok by simp
  have ch: "\<forall>j<3. chunk j \<noteq> [] \<and> length (chunk j) \<le> 512" using chunk_ok by blast
  have idle: "\<forall>ev\<in>set [se_idle]. ev_sock ev = None" "ev_sock (se_ack 3) = Some (SrBytes (ack_bytes sum_crc (ackp 3)))"
    "TR (ackp 3) = 0" "LENGTH_f (ackp 3) = 0"
    by (simp_all add: se_idle_def se_ack_def ackp_def)
  have f: "concat (map chunk [0..<3]) = [65, 66, 67]" by (simp add: chunk_def upt_rec)
  have sub: "subseq (map delivered bss) (map delivered bss) \<and> set (map delivered bss) \<subseteq> insert R_idle (delivered ` set bss)"
    for bss by auto
  from programs_transfer [OF sender_args ks receiver_args kr _ _ _ _ _ s run _ _ _ ch l idle, of world_r "replicate 528 0" "[]"]
  obtain bss im ws' where
    t: "sender_main sum_crc int_ops os_good any_addr [''-f'', ''in'', ''::1'', ''12345'']
        (replicate 528 0) (replicate 512 0) (s_run0 @ [se_idle] @ [se_ack 3]) kernel0 world_r =
          Inr (Ends (Exits 0 None), k1, ws')"
      "obslog ws' = map Sent bss @ replicate (Suc (length [se_idle])) (Sent im)"
    and r: "\<And>revs rest. subseq (map delivered bss) revs \<and> set revs \<subseteq> insert R_idle (delivered ` set bss) \<Longrightarrow>
      \<exists>wr'. receiver_main sum_crc os_good any_addr [''::'', ''12345''] (replicate 528 0)
          (revs @ delivered im # rest) kernel0 world_r = Inr (Ends (Exits 0 None), k2, wr') \<and>
        file_of (obslog wr') = concat (map chunk [0..<3])"
    by auto
  from r [OF sub, of "[]"] t show ?thesis
    unfolding f by (intro exI [of _ bss] exI [of _ im] exI [of _ k1] exI [of _ ws']) (simp, blast)
qed

end
