(* ===== verification/Reachability.thy ===== *)
theory Reachability
  imports Main
begin

text \<open>
  Transition systems: the states reachable from an initial one, and the rule of invariants as an
  interface. A system promises that its initial states satisfy the invariant and that its steps
  preserve it; what follows of the invariant holds in every reachable state.
\<close>

inductive reachable :: "('c \<Rightarrow> bool) \<Rightarrow> ('c \<Rightarrow> 'c \<Rightarrow> bool) \<Rightarrow> 'c \<Rightarrow> bool" for init step where
  reach_init: "init c \<Longrightarrow> reachable init step c"
| reach_step: "reachable init step c \<Longrightarrow> step c c' \<Longrightarrow> reachable init step c'"

locale invariant_system =
  fixes init :: "'c \<Rightarrow> bool"
    and step :: "'c \<Rightarrow> 'c \<Rightarrow> bool"
    and inv :: "'c \<Rightarrow> bool"
  assumes inv_init: "init c \<Longrightarrow> inv c"
    and inv_step: "inv c \<Longrightarrow> step c c' \<Longrightarrow> inv c'"
begin

lemma reachable_inv: "reachable init step c \<Longrightarrow> inv c"
  by (induction rule: reachable.induct) (auto intro: inv_init inv_step)

lemma reachable_imp:
  "reachable init step c \<Longrightarrow> (\<And>c. inv c \<Longrightarrow> P c) \<Longrightarrow> P c"
  using reachable_inv by blast

end

text \<open>A run of a deterministic system: a list of actions, each possible where it is taken.\<close>

fun run_actions :: "('a \<Rightarrow> 'c \<Rightarrow> 'c option) \<Rightarrow> 'a list \<Rightarrow> 'c \<Rightarrow> 'c option" where
  "run_actions act [] c = Some c"
| "run_actions act (x # xs) c = (case act x c of None \<Rightarrow> None | Some c' \<Rightarrow> run_actions act xs c')"

lemma run_append:
  "run_actions act (xs @ ys) c = (case run_actions act xs c of None \<Rightarrow> None | Some c' \<Rightarrow> run_actions act ys c')"
  by (induction xs arbitrary: c) (auto split: option.splits)

lemma run_reachable:
  assumes "\<And>x c c'. act x c = Some c' \<Longrightarrow> step c c'"
    and "reachable init step c" "run_actions act xs c = Some c'"
  shows "reachable init step c'"
  using assms(2,3)
proof (induction xs arbitrary: c)
  case (Cons x xs)
  then obtain c1 where c1: "act x c = Some c1" "run_actions act xs c1 = Some c'"
    by (auto split: option.splits)
  from reach_step [OF Cons.prems(1) assms(1) [OF c1(1)]] c1(2) show ?case by (rule Cons.IH)
qed simp

text \<open>If every state of an invariant, unless it is final, has a run of at least the measure's descent,
  then a final state can be reached from it.\<close>

lemma run_to_final:
  assumes "wf R"
    and step: "\<And>c. I c \<Longrightarrow> \<not> final c \<Longrightarrow>
      \<exists>xs c'. run_actions act xs c = Some c' \<and> I c' \<and> (m c', m c) \<in> R"
  shows "I c \<Longrightarrow> \<exists>xs c'. run_actions act xs c = Some c' \<and> I c' \<and> final c'"
proof (induction c rule: wf_induct_rule [OF wf_inv_image [OF assms(1), of m]])
  case (1 c)
  show ?case
  proof (cases "final c")
    case True
    with 1(2) show ?thesis by (intro exI [of _ "[]"]) simp
  next
    case False
    from step [OF 1(2) this] obtain xs c1 where
      r: "run_actions act xs c = Some c1" "I c1" "(m c1, m c) \<in> R" by blast
    have "(c1, c) \<in> inv_image R m" using r(3) by simp
    from 1(1) [OF this r(2)] obtain ys c2 where
      "run_actions act ys c1 = Some c2" "I c2" "final c2" by blast
    with r(1) show ?thesis by (intro exI [of _ "xs @ ys"] exI [of _ c2]) (simp add: run_append)
  qed
qed

end
