(* ===== verification/Network.thy ===== *)
theory Network
  imports End_To_End Reachability
begin

text \<open>
  The sender and the receiver as one system, joined by two channels: the datagrams on their way
  to the receiver and the ones on their way back, oldest first. A step of the system is an action:
  a round of one of the loops of client.c or server.c, as their models execute it, or a channel
  that loses or repeats a datagram. Datagrams do not overtake each other.
\<close>

section \<open>Configurations\<close>

text \<open>Where each program is: the sender in its main loop, in the exchange of the end packet (with the
  length it writes), or returned; the receiver in its loop or returned.\<close>

datatype s_phase = Sending sstate | Ending nat sstate | S_left
datatype r_phase = Receiving rstate | R_left

record config =
  c_send :: s_phase
  c_sw :: world
  c_recv :: r_phase
  c_rw :: world
  c_pos :: nat             \<comment> \<open>the chunks of the file that were read\<close>
  c_data :: "bytes list"
  c_acks :: "bytes list"

text \<open>What does not change: the checksum, the arithmetic, the file (\<open>f_size\<close> chunks), the window of the
  receiver, whether the sender got a file name, its descriptors.\<close>

record 'd setting =
  crc :: crc_fun
  dops :: "'d dbl"
  chunks :: "nat \<Rightarrow> bytes"
  f_size :: nat
  r_win :: nat
  named :: bool
  sock_fd :: int
  file_fd :: int

section \<open>Actions\<close>

text \<open>The booleans say whether the file and the socket are ready in the round; numbers are positions in
  a channel.\<close>

datatype action =
    Send_round bool bool | Start_end | End_round bool
  | Deliver | Finish
  | Lose_data nat | Lose_ack nat | Repeat_data nat | Repeat_ack nat

definition newly_sent :: "world \<Rightarrow> world \<Rightarrow> bytes list" where
  "newly_sent w w' = sent_of (drop (length (obslog w)) (obslog w'))"

definition round_event :: "'d setting \<Rightarrow> bool \<Rightarrow> bool \<Rightarrow> config \<Rightarrow> s_event" where
  "round_event g f k c =
     \<lparr>ev_file = (if f then Some (SrBytes (if c_pos c < f_size g then chunks g (c_pos c) else [])) else None),
      ev_sock = (if k then Some (SrBytes (hd (c_acks c))) else None)\<rparr>"

definition pos_after :: "'d setting \<Rightarrow> bool \<Rightarrow> sstate \<Rightarrow> config \<Rightarrow> nat" where
  "pos_after g f s c = (if f \<and> may_read s \<and> c_pos c < f_size g then Suc (c_pos c) else c_pos c)"

definition lose :: "nat \<Rightarrow> 'a list \<Rightarrow> 'a list" where
  "lose i xs = take i xs @ drop (Suc i) xs"

definition repeat_at :: "nat \<Rightarrow> 'a list \<Rightarrow> 'a list" where
  "repeat_at i xs = take (Suc i) xs @ drop i xs"

text \<open>What the sender does in a round, and the configuration it leaves: the datagrams written join the
  channel, the acknowledgement read leaves it.\<close>

definition after_sender :: "bool \<Rightarrow> (sstate \<Rightarrow> s_phase) \<Rightarrow> config \<Rightarrow> sstate sctl \<times> world \<Rightarrow> config" where
  "after_sender k ph c r =
     (case r of (ctl, w') \<Rightarrow>
        c\<lparr>c_send := (case ctl of SRunning s' \<Rightarrow> ph s' | SReturned \<Rightarrow> S_left), c_sw := w',
          c_data := c_data c @ newly_sent (c_sw c) w',
          c_acks := (if k then tl (c_acks c) else c_acks c)\<rparr>)"

definition after_receiver :: "config \<Rightarrow> r_phase \<Rightarrow> world \<Rightarrow> config" where
  "after_receiver c ph w' =
     c\<lparr>c_recv := ph, c_rw := w', c_acks := c_acks c @ newly_sent (c_rw c) w'\<rparr>"

text \<open>An action, where it is possible: its outcome may be undefined behaviour.\<close>

fun act :: "'d setting \<Rightarrow> action \<Rightarrow> config \<Rightarrow> config outcome option" where
  "act g (Send_round f k) c =
     (case c_send c of
        Sending s \<Rightarrow>
          if going s \<and> (k \<longrightarrow> c_acks c \<noteq> []) then
            Some (andthen (send_step (crc g) (dops g) (named g) (sock_fd g) (file_fd g) (round_event g f k c) s (c_sw c))
              (\<lambda>r. Inr ((after_sender k Sending c r)
                     \<lparr>c_pos := pos_after g f s c\<rparr>)))
          else None
      | _ \<Rightarrow> None)"
| "act g Start_end c =
     (case c_send c of
        Sending s \<Rightarrow>
          if going s then None
          else Some (andthen (end_start (crc g) s (c_sw c)) (\<lambda>(tmp, r).
                 Inr (after_sender False (Ending tmp) c r)))
      | _ \<Rightarrow> None)"
| "act g (End_round k) c =
     (case c_send c of
        Ending tmp s \<Rightarrow>
          if k \<longrightarrow> c_acks c \<noteq> [] then
            Some (andthen (end_loop (crc g) tmp [round_event g False k c] s (c_sw c)) (\<lambda>r.
              Inr (after_sender k (Ending tmp) c r)))
          else None
      | _ \<Rightarrow> None)"
| "act g Deliver c =
     (case c_recv c of
        Receiving r \<Rightarrow>
          if r_end_file r \<or> c_data c = [] then None
          else Some (andthen (receive_step (crc g) (int (r_win g)) (delivered (hd (c_data c))) r (c_rw c)) (\<lambda>(ctl, w').
                 Inr ((after_receiver c (case ctl of Running r' \<Rightarrow> Receiving r' | Returned \<Rightarrow> R_left) w')
                        \<lparr>c_data := tl (c_data c)\<rparr>)))
      | R_left \<Rightarrow> None)"
| "act g Finish c =
     (case c_recv c of
        Receiving r \<Rightarrow>
          if r_end_file r then
            Some (andthen (receive_end (crc g) (int (r_win g)) r (c_rw c)) (\<lambda>w'. Inr (after_receiver c R_left w')))
          else None
      | R_left \<Rightarrow> None)"
| "act g (Lose_data i) c = (if i < length (c_data c) then Some (Inr (c\<lparr>c_data := lose i (c_data c)\<rparr>)) else None)"
| "act g (Lose_ack i) c = (if i < length (c_acks c) then Some (Inr (c\<lparr>c_acks := lose i (c_acks c)\<rparr>)) else None)"
| "act g (Repeat_data i) c = (if i < length (c_data c) then Some (Inr (c\<lparr>c_data := repeat_at i (c_data c)\<rparr>)) else None)"
| "act g (Repeat_ack i) c = (if i < length (c_acks c) then Some (Inr (c\<lparr>c_acks := repeat_at i (c_acks c)\<rparr>)) else None)"

section \<open>What is asked of the environment\<close>

text \<open>Two things. The file is not ready while the window is full: the code's own test is wrong once the
  numbers wrap. And the timer does not run out while the slot it would send again was never
  filled: the code reads an uninitialised pointer then.\<close>

definition window_room :: "sstate \<Rightarrow> bool" where
  "window_room s \<longleftrightarrow> (s_seq_exp s - s_small_seq s) mod 256 < s_window s"

definition slot_filled :: "sstate \<Rightarrow> bool" where
  "slot_filled s \<longleftrightarrow> s_buffer s ! nat (c_rem (s_small_ind s) (s_window s)) \<noteq> None"

definition fair :: "'d setting \<Rightarrow> action \<Rightarrow> config \<Rightarrow> bool" where
  "fair g a c =
     (case (a, c_send c) of
        (Send_round f k, Sending s) \<Rightarrow>
          (f \<and> may_read s \<longrightarrow> window_room s) \<and>
          (named g \<and> \<not> (f \<and> may_read s \<and> c_pos c < f_size g) \<and> \<not> k \<longrightarrow> slot_filled s)
      | _ \<Rightarrow> True)"

definition loses :: "action \<Rightarrow> bool" where
  "loses a \<longleftrightarrow> (case a of Lose_data _ \<Rightarrow> True | Lose_ack _ \<Rightarrow> True | _ \<Rightarrow> False)"

text \<open>A step of the system; \<open>lossy\<close> says whether the channels may lose datagrams.\<close>

definition net_act :: "'d setting \<Rightarrow> bool \<Rightarrow> action \<Rightarrow> config \<Rightarrow> config option" where
  "net_act g lossy a c =
     (if fair g a c \<and> (loses a \<longrightarrow> lossy)
      then (case act g a c of Some (Inr c') \<Rightarrow> Some c' | _ \<Rightarrow> None) else None)"

definition net_step :: "'d setting \<Rightarrow> bool \<Rightarrow> config \<Rightarrow> config \<Rightarrow> bool" where
  "net_step g lossy c c' \<longleftrightarrow> (\<exists>a. net_act g lossy a c = Some c')"

text \<open>Nothing of the second: where the slot was never filled the round of the timer has no next
  configuration, since it is undefined behaviour (lemma \<open>loop_act_fair\<close> of Network_Props). And the first
  matters only once 256 chunks were read. So the configurations that can be reached are the same
  under the one condition \<open>keeps_window\<close>, and \<open>loop_act\<close> has none.\<close>

definition loop_act :: "'d setting \<Rightarrow> bool \<Rightarrow> action \<Rightarrow> config \<Rightarrow> config option" where
  "loop_act g lossy a c =
     (if loses a \<longrightarrow> lossy then (case act g a c of Some (Inr c') \<Rightarrow> Some c' | _ \<Rightarrow> None) else None)"

definition keeps_window :: "action \<Rightarrow> config \<Rightarrow> bool" where
  "keeps_window a c =
     (case (a, c_send c) of
        (Send_round f k, Sending s) \<Rightarrow> 256 \<le> c_pos c \<and> f \<and> may_read s \<longrightarrow> window_room s
      | _ \<Rightarrow> True)"

definition loop_step :: "'d setting \<Rightarrow> bool \<Rightarrow> config \<Rightarrow> config \<Rightarrow> bool" where
  "loop_step g lossy c c' \<longleftrightarrow> (\<exists>a. keeps_window a c \<and> loop_act g lossy a c = Some c')"

text \<open>The start: both programs after their initialisation, in worlds where no allocation and no write
  fails; a file of non-empty chunks of at most 512 bytes, as \<open>read\<close> gives them.\<close>

definition good_setting :: "'d setting \<Rightarrow> bool" where
  "good_setting g \<longleftrightarrow> 1 \<le> r_win g \<and> r_win g \<le> 7 \<and> 0 \<le> sock_fd g \<and> 0 \<le> file_fd g \<and> f_size g < 2 ^ 31 \<and>
     (\<forall>j<f_size g. chunks g j \<noteq> [] \<and> length (chunks g j) \<le> 512)"

definition net_init :: "'d setting \<Rightarrow> config \<Rightarrow> bool" where
  "net_init g c \<longleftrightarrow> good_setting g \<and> c_pos c = 0 \<and> c_data c = [] \<and> c_acks c = [] \<and>
     (\<exists>pe rt ws s. env_good ws \<and> heap_ok ws \<and> length pe = 528 \<and> length rt = 512 \<and>
        send_init pe rt ws = Inr (Some s, c_sw c) \<and> c_send c = Sending s) \<and>
     (\<exists>pr wr r. env_good wr \<and> heap_ok wr \<and> obslog wr = [] \<and> length pr = 528 \<and>
        receive_init pr wr = Inr (Some r, c_rw c) \<and> c_recv c = Receiving r)"

end
