(* ===== verification/Network_Laws.thy ===== *)
theory Network_Laws
  imports Network
begin

text \<open>
  The invariant of the two programs and their channels, over ghost values: how many chunks were
  sent, delivered and acknowledged, and what each datagram on its way carries.
\<close>

section \<open>Channels\<close>

lemma list_all2_lose: "list_all2 P xs ys \<Longrightarrow> list_all2 P (lose i xs) (lose i ys)"
  by (simp add: lose_def list_all2_appendI list_all2_takeI list_all2_dropI)

lemma list_all2_repeat: "list_all2 P xs ys \<Longrightarrow> list_all2 P (repeat_at i xs) (repeat_at i ys)"
  by (simp add: repeat_at_def list_all2_appendI list_all2_takeI list_all2_dropI)

lemma set_lose: "set (lose i xs) \<subseteq> set xs"
  by (auto simp: lose_def dest: in_set_takeD in_set_dropD)

lemma set_repeat: "set (repeat_at i xs) = set xs"
proof -
  have "set xs \<subseteq> set (take i xs) \<union> set (drop i xs)"
    by (metis append_take_drop_id set_append subset_refl)
  moreover have "set (take i xs) \<subseteq> set (take (Suc i) xs)" by (rule set_take_subset_set_take) simp
  ultimately show ?thesis
    by (auto simp: repeat_at_def dest: in_set_takeD in_set_dropD)
qed

lemma map_lose: "map f (lose i xs) = lose i (map f xs)"
  by (simp add: lose_def take_map drop_map)

lemma map_repeat: "map f (repeat_at i xs) = repeat_at i (map f xs)"
  by (simp add: repeat_at_def take_map drop_map)

lemma sorted_lose: "sorted xs \<Longrightarrow> sorted (lose i xs)" for xs :: "nat list"
proof (induction i arbitrary: xs)
  case 0
  then show ?case by (simp add: lose_def sorted_wrt_drop)
next
  case (Suc i)
  then show ?case using set_lose by (cases xs) (fastforce simp: lose_def)+
qed

lemma sorted_repeat: "sorted xs \<Longrightarrow> sorted (repeat_at i xs)" for xs :: "nat list"
proof (induction i arbitrary: xs)
  case 0
  then show ?case by (cases xs) (auto simp: repeat_at_def)
next
  case (Suc i)
  then show ?case
  proof (cases xs)
    case (Cons x ys)
    then have "repeat_at (Suc i) xs = x # repeat_at i ys" by (simp add: repeat_at_def)
    with Cons Suc show ?thesis using set_repeat [of i ys] by simp
  qed (simp add: repeat_at_def)
qed

lemma subseq_repeat: "subseq xs (repeat_at i xs)"
proof -
  have "prefix (take i xs) (take (Suc i) xs)"
    using take_is_prefix [of i "take (Suc i) xs"] by (simp add: min_def)
  then have "subseq (take i xs @ drop i xs) (take (Suc i) xs @ drop i xs)"
    by (intro list_emb_append_mono prefix_imp_subseq) simp_all
  then show ?thesis by (simp add: repeat_at_def)
qed

section \<open>What is on its way\<close>

text \<open>A datagram on its way to the receiver: chunk \<open>j\<close>, written when \<open>m\<close> chunks had been sent, or the
  end packet. Its tag grows along the channel.\<close>

datatype flight = Chunk nat nat | Fin

fun tag :: "nat \<Rightarrow> flight \<Rightarrow> nat" where
  "tag N (Chunk j m) = m"
| "tag N Fin = Suc N"

fun carries :: "crc_fun \<Rightarrow> (nat \<Rightarrow> bytes) \<Rightarrow> flight \<Rightarrow> bytes \<Rightarrow> bool" where
  "carries crc32 D (Chunk j m) bs = data_packet crc32 D j bs"
| "carries crc32 D Fin bs = end_event crc32 (delivered bs)"

text \<open>When it was written the chunk was one of the last \<open>W\<close> sent.\<close>

fun flight_ok :: "nat \<Rightarrow> nat \<Rightarrow> flight \<Rightarrow> bool" where
  "flight_ok W n (Chunk j m) \<longleftrightarrow> j < m \<and> m \<le> j + W \<and> m \<le> n"
| "flight_ok W n Fin \<longleftrightarrow> True"

fun nums :: "flight list \<Rightarrow> nat list" where
  "nums [] = []"
| "nums (Chunk j m # fl) = j # nums fl"
| "nums (Fin # fl) = nums fl"

lemma nums_append [simp]: "nums (xs @ ys) = nums xs @ nums ys"
  by (induction xs rule: nums.induct) simp_all

lemma nums_Chunks [simp]: "nums (map (\<lambda>j. Chunk j m) js) = js"
  by (induction js) simp_all

lemma flight_ok_mono: "flight_ok W n x \<Longrightarrow> n \<le> n' \<Longrightarrow> flight_ok W n' x"
  by (cases x) auto

text \<open>Of the chunks on their way, none was written before \<open>h\<close> chunks had been sent.\<close>

definition data_way :: "'d setting \<Rightarrow> nat \<Rightarrow> nat \<Rightarrow> flight list \<Rightarrow> bytes list \<Rightarrow> bool" where
  "data_way g n h fl bss \<longleftrightarrow>
     list_all2 (carries (crc g) (chunks g)) fl bss \<and> sorted (map (tag (f_size g)) fl) \<and>
     (\<forall>x\<in>set fl. h \<le> tag (f_size g) x \<and> flight_ok (r_win g) n x)"

text \<open>The acknowledgements on their way ask for the chunks \<open>ks\<close>.\<close>

definition ack_for :: "'d setting \<Rightarrow> nat \<Rightarrow> bytes \<Rightarrow> bool" where
  "ack_for g k bs \<longleftrightarrow>
     (\<exists>x. acks x PTYPE_ACK (int (r_win g)) (int (k mod 256)) \<and> bs = ack_bytes (crc g) x)"

definition ack_way :: "'d setting \<Rightarrow> nat \<Rightarrow> nat \<Rightarrow> nat list \<Rightarrow> bytes list \<Rightarrow> bool" where
  "ack_way g a e ks bss \<longleftrightarrow> list_all2 (ack_for g) ks bss \<and> sorted ks \<and> (\<forall>k\<in>set ks. a \<le> k \<and> k \<le> e)"

lemma acks_TR: "acks x ty W k \<Longrightarrow> TR x = 0 \<and> LENGTH_f x = 0"
proof -
  have "ucast (t :: 1 word) = (0 :: u8) \<Longrightarrow> t = 0" for t
    by transfer (simp only: take_bit_take_bit, simp)
  then show "acks x ty W k \<Longrightarrow> TR x = 0 \<and> LENGTH_f x = 0"
    by (simp add: acks_def pkt_get_tr_def)
qed

lemma data_way_append:
  assumes "data_way g n h fl bss" "n \<le> n'" "list_all2 (carries (crc g) (chunks g)) xs cs"
    and "\<forall>x\<in>set xs. tag (f_size g) x = m \<and> flight_ok (r_win g) n' x" "h \<le> m"
    and "\<forall>x\<in>set fl. tag (f_size g) x \<le> m"
  shows "data_way g n' h (fl @ xs) (bss @ cs)"
proof -
  have "map (tag (f_size g)) xs = replicate (length xs) m"
    using assms(4) by (metis map_eq_conv map_replicate_const)
  with assms show ?thesis
    by (auto simp: data_way_def sorted_append intro: list_all2_appendI flight_ok_mono)
qed

lemma data_way_tl: "data_way g n h (x # fl) (bs # bss) \<Longrightarrow> data_way g n (max h (tag (f_size g) x)) fl bss"
  by (auto simp: data_way_def)

lemma data_way_lose: "data_way g n h fl bss \<Longrightarrow> data_way g n h (lose i fl) (lose i bss)"
  using set_lose [of i fl] by (auto simp: data_way_def map_lose intro: list_all2_lose sorted_lose)

lemma data_way_repeat: "data_way g n h fl bss \<Longrightarrow> data_way g n h (repeat_at i fl) (repeat_at i bss)"
  by (auto simp: data_way_def map_repeat set_repeat intro: list_all2_repeat sorted_repeat)

lemma ack_way_append:
  assumes "ack_way g a e ks bss" "e \<le> e'" "a \<le> e'" "\<forall>bs\<in>set cs. ack_for g e' bs"
  shows "ack_way g a e' (ks @ replicate (length cs) e') (bss @ cs)"
proof -
  have "list_all2 (ack_for g) (replicate (length cs) e') cs"
    using assms(4) by (simp add: list_all2_conv_all_nth)
  with assms show ?thesis
    by (fastforce simp: ack_way_def sorted_append intro: list_all2_appendI)
qed

lemma ack_way_tl: "ack_way g a e (k # ks) (bs # bss) \<Longrightarrow> a \<le> k \<and> k \<le> e \<and> ack_for g k bs \<and> ack_way g k e ks bss"
  by (auto simp: ack_way_def)

lemma ack_way_lose: "ack_way g a e ks bss \<Longrightarrow> ack_way g a e (lose i ks) (lose i bss)"
  using set_lose [of i ks] by (auto simp: ack_way_def intro: list_all2_lose sorted_lose)

lemma ack_way_repeat: "ack_way g a e ks bss \<Longrightarrow> ack_way g a e (repeat_at i ks) (repeat_at i bss)"
  by (auto simp: ack_way_def set_repeat intro: list_all2_repeat sorted_repeat)

section \<open>The invariant\<close>

definition send_side :: "'d setting \<Rightarrow> nat \<Rightarrow> nat \<Rightarrow> int \<Rightarrow> s_phase \<Rightarrow> world \<Rightarrow> bool" where
  "send_side g a n v ph w \<longleftrightarrow> (case ph of
     Sending s \<Rightarrow> sinv (chunks g) (r_win g) a n v s w \<and> (s_endFile s = 1 \<longrightarrow> n = f_size g)
   | Ending tmp s \<Rightarrow> tmp = 12 \<and> n = f_size g \<and> end_state (crc g) s w
   | S_left \<Rightarrow> n = f_size g)"

definition recv_side :: "'d setting \<Rightarrow> nat \<Rightarrow> nat \<Rightarrow> r_phase \<Rightarrow> world \<Rightarrow> bool" where
  "recv_side g h e ph w \<longleftrightarrow> (case ph of
     Receiving r \<Rightarrow> rinv (chunks g) h (r_win g) e r w
   | R_left \<Rightarrow> file_of (obslog w) = concat (map (chunks g) [0..<e]))"

definition read_all :: "s_phase \<Rightarrow> bool" where
  "read_all ph \<longleftrightarrow> (case ph of Sending _ \<Rightarrow> False | _ \<Rightarrow> True)"

definition ended :: "r_phase \<Rightarrow> bool" where
  "ended ph \<longleftrightarrow> (case ph of Receiving r \<Rightarrow> r_end_file r | R_left \<Rightarrow> True)"

definition core ::
    "'d setting \<Rightarrow> config \<Rightarrow> nat \<Rightarrow> int \<Rightarrow> nat \<Rightarrow> nat \<Rightarrow> flight list \<Rightarrow> nat list \<Rightarrow> bool" where
  "core g c a v h e fl ks \<longleftrightarrow> good_setting g \<and> (let n = c_pos c in
     n \<le> f_size g \<and> a \<le> e \<and> e \<le> h \<and> h \<le> n \<and> n \<le> a + r_win g \<and>
     send_side g a n v (c_send c) (c_sw c) \<and> recv_side g h e (c_recv c) (c_rw c) \<and>
     data_way g n h fl (c_data c) \<and> ack_way g a e ks (c_acks c) \<and>
     (Fin \<in> set fl \<or> ended (c_recv c) \<longrightarrow> read_all (c_send c)))"

text \<open>If nothing is lost: the chunks not yet delivered are on their way, in order; the sender is told
  of everything delivered; the end packet arrives after all chunks.\<close>

definition intact :: "'d setting \<Rightarrow> config \<Rightarrow> nat \<Rightarrow> nat \<Rightarrow> flight list \<Rightarrow> nat list \<Rightarrow> bool" where
  "intact g c a e fl ks \<longleftrightarrow>
     subseq [e..<c_pos c] (nums fl) \<and> last (a # ks) = e \<and> (ended (c_recv c) \<longrightarrow> e = f_size g) \<and>
     (c_send c = S_left \<and> \<not> ended (c_recv c) \<longrightarrow> Fin \<in> set fl) \<and>
     (c_recv c = R_left \<and> c_send c \<noteq> S_left \<longrightarrow> ks \<noteq> [])"

definition net_inv :: "'d setting \<Rightarrow> bool \<Rightarrow> config \<Rightarrow> bool" where
  "net_inv g lossy c \<longleftrightarrow>
     (\<exists>a v h e fl ks. core g c a v h e fl ks \<and> (\<not> lossy \<longrightarrow> intact g c a e fl ks))"

end
