(* ===== verification/Network_Inv.thy ===== *)
theory Network_Inv
  imports Network_Laws
begin

text \<open>
  Every action keeps the invariant of the two programs and their channels, and none leads to
  undefined behaviour.
\<close>

lemma newly_sent_append: "obslog w' = obslog w @ xs \<Longrightarrow> newly_sent w w' = sent_of xs"
  by (simp add: newly_sent_def)

lemma sent_of_Sent [simp]: "sent_of (map Sent bss) = bss"
  by (induction bss) simp_all

lemma sent_of_Sent_map [simp]: "sent_of (map (\<lambda>a. Sent (f a)) xs) = map f xs"
  by (induction xs) simp_all

lemma coreD:
  assumes "core g c a v h e fl ks"
  shows "good_setting g" "c_pos c \<le> f_size g" "a \<le> e" "e \<le> h" "h \<le> c_pos c" "c_pos c \<le> a + r_win g"
    "send_side g a (c_pos c) v (c_send c) (c_sw c)" "recv_side g h e (c_recv c) (c_rw c)"
    "data_way g (c_pos c) h fl (c_data c)" "ack_way g a e ks (c_acks c)"
    "Fin \<in> set fl \<Longrightarrow> read_all (c_send c)" "ended (c_recv c) \<Longrightarrow> read_all (c_send c)"
  using assms by (simp_all add: core_def Let_def)

lemma good_settingD:
  assumes "good_setting g"
  shows "1 \<le> r_win g" "r_win g \<le> 7" "0 \<le> sock_fd g" "0 \<le> file_fd g" "f_size g < 2 ^ 31"
    "j < f_size g \<Longrightarrow> chunks g j \<noteq> [] \<and> length (chunks g j) \<le> 512"
  using assms by (simp_all add: good_setting_def)

section \<open>A round of the sender\<close>

lemma window_room_iff:
  assumes "sinv D W a n v s w"
  shows "window_room s \<longleftrightarrow> int n - int a < v"
proof -
  note I = sinvD [OF assms] and A = window_atD [OF sinvD(1) [OF assms]]
  have "(int (n mod 256) - int (a mod 256)) mod 256 = (int n - int a) mod 256"
    by (simp add: zmod_int mod_simps)
  also have "\<dots> = int n - int a"
    using I(1) by (intro mod_pos_pos_trivial) (auto simp: window_at_def)
  finally show ?thesis by (simp add: window_room_def I(2-4))
qed

lemma slot_filled_iff:
  assumes inv: "sinv D W a n v s w"
  shows "slot_filled s \<longleftrightarrow> 0 < n \<and> (a < n \<or> W \<le> n)"
proof -
  note I = sinvD [OF inv]
  have w: "1 \<le> W" "a \<le> n" "v = 1 \<and> a = 0 \<or> v = int W" "int n - int a \<le> v"
    using I(1) by (auto simp: window_at_def)
  have idx: "nat (c_rem (s_small_ind s) (s_window s)) = (if v = 1 then 0 else a mod W)"
    using w(1,3) by (auto simp: I(2,6) c_rem_def zmod_int [symmetric])
  have hold: "s_buffer s ! (j mod W) \<noteq> None" if "j < n" "n \<le> j + W" for j
    using I(11) [OF that] by (auto simp: slot_holds_def)
  show ?thesis
  proof (cases "n < W \<and> a = n")
    case True
    then have "(if v = 1 then 0 else a mod W) = n" using w(1,3) by auto
    with idx True I(20) [of n] window_atD(2) [OF I(1)] show ?thesis by (simp add: slot_filled_def)
  next
    case False
    then have "0 < n" "a < n \<or> W \<le> n" using w(1,2) by auto
    moreover have "a mod W = n mod W \<or> a < n" "\<not> a < n \<Longrightarrow> (n - W) mod W = a mod W" "v = 1 \<Longrightarrow> a mod W = 0"
      using w False by (auto simp: le_mod_geq)
    ultimately show ?thesis
      using hold [of a] hold [of "n - W"] w by (cases "a < n") (auto simp: slot_filled_def idx)
  qed
qed

text \<open>A fair round is one of those the invariant of the sender speaks of.\<close>

lemma fair_round:
  fixes g :: "'d setting"
  assumes "core g c a v h e fl ks" "c_send c = Sending s" "s_endFile s = 0" "fair g (Send_round f k) c"
    and "k \<longrightarrow> c_acks c \<noteq> []"
  defines "rd \<equiv> f \<and> may_read s" and "n \<equiv> c_pos c"
  defines "n' \<equiv> if rd \<and> n < f_size g then Suc n else n"
  shows "\<exists>a' v' ks'. s_round (crc g) (chunks g) (f_size g) (r_win g) (named g) a n v
      (round_event g f k c) a' n' v' (rd \<and> n = f_size g) \<and> a \<le> a' \<and> a' \<le> e \<and>
    ack_way g a' e ks' (if k then tl (c_acks c) else c_acks c) \<and>
    (if k then ks = a' # ks' \<and> v' = int (r_win g) else ks' = ks \<and> a' = a \<and> v' = v)"
proof -
  note C = coreD [OF assms(1)]
  have inv: "sinv (chunks g) (r_win g) a n v s (c_sw c)"
    using C(7) by (simp add: send_side_def assms(2) n_def)
  have fair: "rd \<longrightarrow> int n - int a < v" "named g \<and> \<not> (rd \<and> n < f_size g) \<and> \<not> k \<longrightarrow> slot_filled s"
    using assms(4) window_room_iff [OF inv] by (simp_all add: fair_def assms(2) rd_def n_def)
  have fpart: "file_part (chunks g) (f_size g) a n v (ev_file (round_event g f k c)) n' (rd \<and> n < f_size g)
      (rd \<and> n = f_size g)"
  proof (cases rd)
    case True
    then have "f" "int n - int a < v" using fair(1) by (simp_all add: rd_def)
    moreover have "n < f_size g \<Longrightarrow> Suc n < 2 ^ 31" "n \<le> f_size g"
      using good_settingD(5) [OF C(1)] C(2) by (simp_all add: n_def)
    ultimately show ?thesis
      using True by (auto simp: round_event_def n'_def n_def [symmetric] intro: file_part.intros)
  next
    case False
    then have "f \<longrightarrow> \<not> not_full a n v"
      using may_read_room [OF inv assms(3)] by (simp add: rd_def)
    with False show ?thesis
      by (cases f) (auto simp: round_event_def n'_def intro: file_part.intros)
  qed
  obtain a' v' ks' where
    sock: "sock_part (crc g) (r_win g) a n' v (ev_sock (round_event g f k c)) a' v' k"
    and a': "a \<le> a'" "a' \<le> e" "ack_way g a' e ks' (if k then tl (c_acks c) else c_acks c)"
      "if k then ks = a' # ks' \<and> v' = int (r_win g) else ks' = ks \<and> a' = a \<and> v' = v"
  proof (cases k)
    case False
    show thesis by (rule that [of a v ks]) (use False C(3,10) in \<open>auto simp: round_event_def intro: sock_part.intros\<close>)
  next
    case True
    then obtain bs bss where cs: "c_acks c = bs # bss" using assms(5) by (cases "c_acks c") auto
    with C(10) obtain k1 ks1 where ks: "ks = k1 # ks1"
      by (cases ks) (auto simp: ack_way_def)
    from ack_way_tl [of g a e k1 ks1 bs bss] C(10) obtain x where
      k1: "a \<le> k1" "k1 \<le> e" "ack_way g k1 e ks1 bss" and
      x: "acks x PTYPE_ACK (int (r_win g)) (int (k1 mod 256))" "bs = ack_bytes (crc g) x"
      by (auto simp: cs ks ack_for_def)
    have "k1 \<le> n'" using k1(2) C(4,5) by (auto simp: n'_def n_def)
    with k1(1) x acks_TR [OF x(1)]
    have "sock_part (crc g) (r_win g) a n' v (ev_sock (round_event g f k c)) k1 (int (r_win g)) k"
      using True by (auto simp: round_event_def cs intro: sock_part.intros)
    then show thesis
      by (rule that [of k1 "int (r_win g)" ks1]) (use k1 True in \<open>simp_all add: cs ks\<close>)
  qed
  have "named g \<and> \<not> (rd \<and> n < f_size g) \<and> \<not> k \<Longrightarrow> 0 < n' \<and> (a' < n' \<or> r_win g \<le> n')"
    using slot_filled_iff [OF inv] fair(2) a'(4) by (auto simp: n'_def split: if_splits)
  from round [OF fpart sock this]
  have "s_round (crc g) (chunks g) (f_size g) (r_win g) (named g) a n v (round_event g f k c) a' n' v'
      (rd \<and> n = f_size g)"
    by (simp add: round_event_def)
  with a' show ?thesis by blast
qed

lemma core_tags:
  assumes "core g c a v h e fl ks" "Fin \<notin> set fl" "x \<in> set fl"
  shows "tag (f_size g) x \<le> c_pos c"
proof -
  have "flight_ok (r_win g) (c_pos c) x" using coreD(9) [OF assms(1)] assms(3) by (simp add: data_way_def)
  with assms(2,3) show ?thesis by (cases x) auto
qed

lemma send_round_act:
  fixes g :: "'d setting"
  assumes "core g c a v h e fl ks" "c_send c = Sending s" "going s" "fair g (Send_round f k) c"
    and "k \<longrightarrow> c_acks c \<noteq> []"
  shows "\<exists>s' w' a' v' ks' fl' bss. act g (Send_round f k) c =
      Some (Inr (c\<lparr>c_send := Sending s', c_sw := w', c_data := c_data c @ bss,
        c_acks := (if k then tl (c_acks c) else c_acks c),
        c_pos := pos_after g f s c\<rparr>)) \<and>
    core g (c\<lparr>c_send := Sending s', c_sw := w', c_data := c_data c @ bss,
        c_acks := (if k then tl (c_acks c) else c_acks c),
        c_pos := pos_after g f s c\<rparr>) a' v' h e fl' ks' \<and>
    (s_endFile s' = 1 \<longleftrightarrow> f \<and> may_read s \<and> c_pos c = f_size g) \<and>
    (if k then ks = a' # ks' \<and> v' = int (r_win g) else ks' = ks \<and> a' = a \<and> v' = v) \<and>
    (subseq [e..<c_pos c] (nums fl) \<longrightarrow>
      subseq [e..<pos_after g f s c] (nums fl'))"
proof -
  note C = coreD [OF assms(1)]
  let ?n = "c_pos c" let ?rd = "f \<and> may_read s"
  let ?n' = "pos_after g f s c"
  have inv: "sinv (chunks g) (r_win g) a ?n v s (c_sw c)"
    using C(7) by (simp add: send_side_def assms(2))
  then have "s_endFile s \<in> {0, 1}" by (simp add: sinv_def)
  with assms(3) have 0: "s_endFile s = 0" by (auto simp: going_def)
  from fair_round [OF assms(1,2) 0 assms(4,5)] obtain a' v' ks' where
    rd: "s_round (crc g) (chunks g) (f_size g) (r_win g) (named g) a ?n v (round_event g f k c) a' ?n' v'
        (?rd \<and> ?n = f_size g)"
    and a': "a \<le> a'" "a' \<le> e" "ack_way g a' e ks' (if k then tl (c_acks c) else c_acks c)"
      "if k then ks = a' # ks' \<and> v' = int (r_win g) else ks' = ks \<and> a' = a \<and> v' = v"
    by (auto simp: pos_after_def)
  note G = good_settingD [OF C(1)]
  from round_ok [OF inv 0 rd G(3,4) G(6), of "dops g"] obtain s' w' js where
    st: "send_step (crc g) (dops g) (named g) (sock_fd g) (file_fd g) (round_event g f k c) s (c_sw c) =
      Inr (SRunning s', w')" "sinv (chunks g) (r_win g) a' ?n' v' s' w'"
      "s_endFile s' = (if ?rd \<and> ?n = f_size g then 1 else 0)" "sends (crc g) (chunks g) js (c_sw c) w'"
      "subseq [?n..<?n'] js" "set js \<subseteq> {..<?n'}" "\<forall>j\<in>set js. ?n' \<le> j + r_win g"
    by auto
  obtain bss where bss: "obslog w' = obslog (c_sw c) @ map Sent bss" "list_all2 (data_packet (crc g) (chunks g)) js bss"
    using st(4) by (auto simp: sends_def)
  let ?c = "c\<lparr>c_send := Sending s', c_sw := w', c_data := c_data c @ bss,
        c_acks := (if k then tl (c_acks c) else c_acks c), c_pos := ?n'\<rparr>"
  let ?fl = "fl @ map (\<lambda>j. Chunk j ?n') js"
  have act: "act g (Send_round f k) c = Some (Inr ?c)"
    using assms(2,3,5) st(1) newly_sent_append [OF bss(1)] by (simp add: after_sender_def)
  have fin: "Fin \<notin> set fl" "\<not> ended (c_recv c)"
    using C(11,12) assms(2) by (auto simp: read_all_def)
  have n': "?n \<le> ?n'" "?n' \<le> f_size g" using C(2) by (auto simp: pos_after_def)
  have "list_all2 (carries (crc g) (chunks g)) (map (\<lambda>j. Chunk j ?n') js) bss"
    using bss(2) by (simp add: list_all2_map1)
  then have way: "data_way g ?n' h ?fl (c_data c @ bss)"
    by (rule data_way_append [OF C(9) n'(1), of _ _ ?n'])
      (use core_tags [OF assms(1) fin(1)] n'(1) C(5) st(6,7) in fastforce)+
  have "core g ?c a' v' h e ?fl ks'"
    using C(1,4,5,8) a'(1-3) n' way st(2,3) fin window_atD(6) [OF sinvD(1) [OF st(2)]]
    by (auto simp: core_def Let_def send_side_def pos_after_def)
  moreover have "subseq [e..<?n] (nums fl) \<longrightarrow> subseq [e..<?n'] (nums ?fl)"
  proof
    assume "subseq [e..<?n] (nums fl)"
    then have "subseq ([e..<?n] @ [?n..<?n']) (nums fl @ js)" using st(5) by (rule list_emb_append_mono)
    moreover have "[e..<?n] @ [?n..<?n'] = [e..<?n']"
      using C(4,5) n'(1) by (metis le_add_diff_inverse le_trans upt_add_eq_append)
    ultimately show "subseq [e..<?n'] (nums ?fl)" by simp
  qed
  ultimately show ?thesis
    using act a'(4) st(3)
    by (intro exI [of _ s'] exI [of _ w'] exI [of _ a'] exI [of _ v'] exI [of _ ks'] exI [of _ ?fl] exI [of _ bss]) simp
qed

section \<open>The end packet\<close>

lemma end_event_delivered: "end_event crc32 (R_ready (RdBytes bs)) = end_event crc32 (delivered bs)"
  by (simp add: delivered_def)

lemma start_end_act:
  fixes g :: "'d setting"
  assumes "core g c a v h e fl ks" "c_send c = Sending s" "\<not> going s"
  shows "\<exists>s' w'. act g Start_end c = Some (Inr (c\<lparr>c_send := Ending 12 s', c_sw := w'\<rparr>)) \<and>
    core g (c\<lparr>c_send := Ending 12 s', c_sw := w'\<rparr>) a v h e fl ks"
proof -
  note C = coreD [OF assms(1)]
  have inv: "sinv (chunks g) (r_win g) a (c_pos c) v s (c_sw c)" "s_endFile s = 1 \<longrightarrow> c_pos c = f_size g"
    using C(7) by (simp_all add: send_side_def assms(2))
  have "s_endFile s \<in> {0, 1}" using inv(1) by (simp add: sinv_def)
  with assms(3) inv(2) have n: "c_pos c = f_size g" by (auto simp: going_def)
  let ?w = "snd (gettimeofday (c_sw c))"
  from end_start_state [OF inv(1), of "crc g"] obtain s1 where
    st: "end_start (crc g) s (c_sw c) = Inr (12, SRunning s1, ?w)" "end_state (crc g) s1 ?w"
    by blast
  have "newly_sent (c_sw c) ?w = []" by (simp add: newly_sent_def)
  then have "act g Start_end c = Some (Inr (c\<lparr>c_send := Ending 12 s1, c_sw := ?w\<rparr>))"
    using assms(2,3) st(1) by (simp add: after_sender_def)
  moreover have "core g (c\<lparr>c_send := Ending 12 s1, c_sw := ?w\<rparr>) a v h e fl ks"
    using assms(1) st(2) n by (simp add: core_def Let_def send_side_def read_all_def)
  ultimately show ?thesis by blast
qed

text \<open>The end packet joins the channel.\<close>

lemma data_way_Fin:
  assumes "core g c a v h e fl ks" "end_event (crc g) (delivered bs)"
  shows "data_way g (c_pos c) h (fl @ [Fin]) (c_data c @ [bs])"
proof -
  note C = coreD [OF assms(1)]
  have "tag (f_size g) x \<le> Suc (f_size g)" if "x \<in> set fl" for x
    using C(2,9) that by (cases x) (auto simp: data_way_def)
  then show ?thesis
    using C(2,4,5) assms(2) by (intro data_way_append [OF C(9), of _ _ _ "Suc (f_size g)"]) auto
qed

lemma end_round_act:
  fixes g :: "'d setting"
  assumes "core g c a v h e fl ks" "c_send c = Ending tmp s"
  shows "\<exists>w' bs. act g (End_round False) c =
      Some (Inr (c\<lparr>c_send := Ending tmp s, c_sw := w', c_data := c_data c @ [bs]\<rparr>)) \<and>
    core g (c\<lparr>c_send := Ending tmp s, c_sw := w', c_data := c_data c @ [bs]\<rparr>) a v h e (fl @ [Fin]) ks"
proof -
  note C = coreD [OF assms(1)]
  have tmp: "tmp = 12" and n: "c_pos c = f_size g" and E: "end_state (crc g) s (c_sw c)"
    using C(7) by (simp_all add: send_side_def assms(2))
  let ?im = "take 12 (s_packet s)" let ?w = "wrote (c_sw c) ?im"
  have env: "env_good (c_sw c)" "12 \<le> length (s_packet s)" and im: "end_event (crc g) (delivered ?im)"
    using E by (simp_all add: end_state_def delivered_def)
  have "ev_sock (round_event g False False c) = None" by (simp add: round_event_def)
  from end_round_idle [OF env this, of "crc g"]
  have "end_loop (crc g) 12 [round_event g False False c] s (c_sw c) = Inr (SRunning s, ?w)" by simp
  moreover have "newly_sent (c_sw c) ?w = [?im]" by (simp add: newly_sent_def)
  ultimately have "act g (End_round False) c =
      Some (Inr (c\<lparr>c_send := Ending tmp s, c_sw := ?w, c_data := c_data c @ [?im]\<rparr>))"
    using assms(2) by (simp add: after_sender_def tmp)
  moreover have "end_state (crc g) s ?w"
    using end_state_mem_eq [OF E, of ?w] env(1) by simp
  then have "core g (c\<lparr>c_send := Ending tmp s, c_sw := ?w, c_data := c_data c @ [?im]\<rparr>) a v h e (fl @ [Fin]) ks"
    using assms(1) data_way_Fin [OF assms(1) im] n by (simp add: core_def Let_def send_side_def read_all_def tmp)
  ultimately show ?thesis by blast
qed

lemma end_answer_act:
  fixes g :: "'d setting"
  assumes "core g c a v h e fl (k1 # ks)" "c_send c = Ending tmp s"
  shows "\<exists>w' bs. act g (End_round True) c =
      Some (Inr (c\<lparr>c_send := S_left, c_sw := w', c_data := c_data c @ [bs], c_acks := tl (c_acks c)\<rparr>)) \<and>
    core g (c\<lparr>c_send := S_left, c_sw := w', c_data := c_data c @ [bs], c_acks := tl (c_acks c)\<rparr>)
      k1 v h e (fl @ [Fin]) ks"
proof -
  note C = coreD [OF assms(1)]
  have tmp: "tmp = 12" and n: "c_pos c = f_size g" and E: "end_state (crc g) s (c_sw c)"
    using C(7) by (simp_all add: send_side_def assms(2))
  let ?im = "take 12 (s_packet s)"
  obtain bs bss where cs: "c_acks c = bs # bss" using C(10) by (cases "c_acks c") (auto simp: ack_way_def)
  with ack_way_tl [of g a e k1 ks bs bss] C(10) obtain x where
    k1: "a \<le> k1" "k1 \<le> e" "ack_way g k1 e ks bss" and
    x: "acks x PTYPE_ACK (int (r_win g)) (int (k1 mod 256))" "bs = ack_bytes (crc g) x"
    by (auto simp: ack_for_def)
  have "ev_sock (round_event g False True c) = Some (SrBytes (ack_bytes (crc g) x))"
    using cs x(2) by (simp add: round_event_def)
  from end_loop_answer [OF E this] acks_TR [OF x(1)] obtain w' where
    w': "end_loop (crc g) 12 [round_event g False True c] s (c_sw c) = Inr (SReturned, w')"
      "obslog w' = obslog (c_sw c) @ [Sent ?im]" by blast
  have "newly_sent (c_sw c) w' = [?im]" using newly_sent_append [OF w'(2)] by simp
  with w'(1) have "act g (End_round True) c =
      Some (Inr (c\<lparr>c_send := S_left, c_sw := w', c_data := c_data c @ [?im], c_acks := tl (c_acks c)\<rparr>))"
    using assms(2) cs by (simp add: after_sender_def tmp)
  moreover have "end_event (crc g) (delivered ?im)" using E by (simp add: end_state_def delivered_def)
  from data_way_Fin [OF assms(1) this] have
    "core g (c\<lparr>c_send := S_left, c_sw := w', c_data := c_data c @ [?im], c_acks := tl (c_acks c)\<rparr>)
      k1 v h e (fl @ [Fin]) ks"
    using assms(1) n k1 by (auto simp: core_def Let_def send_side_def read_all_def cs)
  ultimately show ?thesis by blast
qed

section \<open>The receiver\<close>

lemma rinv_more:
  assumes "rinv D N W e s w" "N \<le> N'"
  shows "rinv D N' W e s w"
proof -
  have "agrees (ring_get W) W (slot_in D N' w (PAYLOAD (r_pkt_ack s))) e (r_index s, r_buf s)"
    using rinvD(4) [OF assms(1)] by (rule agrees_mono) (use assms(2) in \<open>auto simp: slot_in_def\<close>)
  with assms show ?thesis by (auto simp: rinv_def)
qed

lemma deliver_act:
  fixes g :: "'d setting"
  assumes "core g c a v h e (Chunk j m # fl) ks" "c_recv c = Receiving r" "\<not> r_end_file r"
  shows "\<exists>r' w' e' bs. act g Deliver c = Some (Inr
      (c\<lparr>c_recv := Receiving r', c_rw := w', c_data := tl (c_data c), c_acks := c_acks c @ [bs]\<rparr>)) \<and>
    core g (c\<lparr>c_recv := Receiving r', c_rw := w', c_data := tl (c_data c), c_acks := c_acks c @ [bs]\<rparr>)
      a v m e' fl (ks @ [e']) \<and> \<not> r_end_file r' \<and> e \<le> e' \<and> (j = e \<longrightarrow> e < e')"
proof -
  note C = coreD [OF assms(1)]
  obtain bs bss where cs: "c_data c = bs # bss" using C(9) by (cases "c_data c") (auto simp: data_way_def)
  have j: "h \<le> m" "j < m" "m \<le> j + r_win g" "m \<le> c_pos c" and d: "data_event (crc g) (chunks g) j (delivered bs)"
    using C(9) by (simp_all add: data_way_def cs data_packet_def delivered_def)
  have inv: "rinv (chunks g) m (r_win g) e r (c_rw c)"
    using C(8) rinv_more [OF _ j(1)] by (simp add: recv_side_def assms(2))
  have le: "e \<le> j + (256 - r_win g)" "j < e + 256"
    using C(3,4,6) j good_settingD(2) [OF C(1)] by auto
  from data_step [OF inv d j(2) le] obtain r' w' e' x where
    st: "receive_step (crc g) (int (r_win g)) (delivered bs) r (c_rw c) = Inr (Running r', w')"
      "rinv (chunks g) m (r_win g) e' r' w'" "e \<le> e'" "r_end_file r' = r_end_file r"
      "acks x PTYPE_ACK (int (r_win g)) (int (e' mod 256))"
      "obslog w' = obslog (c_rw c) @ map Wrote (map (chunks g) [e..<e']) @ [Sent (ack_bytes (crc g) x)]"
    by blast
  have lt: "e < e'" if "j = e"
  proof -
    from expected_step [OF inv] d j(2) that obtain s1 w1 e1 where
      "receive_step (crc g) (int (r_win g)) (delivered bs) r (c_rw c) = Inr (Running s1, w1)"
      "rinv (chunks g) m (r_win g) e1 s1 w1" "e < e1" by blast
    with st(1) rinvD(16) [OF st(2)] rinvD(16) [of _ _ _ e1] show ?thesis by fastforce
  qed
  let ?bs = "ack_bytes (crc g) x"
  let ?c = "c\<lparr>c_recv := Receiving r', c_rw := w', c_data := tl (c_data c), c_acks := c_acks c @ [?bs]\<rparr>"
  have "newly_sent (c_rw c) w' = [?bs]"
    using newly_sent_append [OF st(6)] by (simp del: map_map)
  then have act: "act g Deliver c = Some (Inr ?c)"
    using assms(2,3) st(1) by (simp add: after_receiver_def cs)
  have way: "ack_way g a e' (ks @ [e']) (c_acks c @ [?bs])"
    using ack_way_append [OF C(10) st(3), of "[?bs]"] C(3) st(3,5) by (auto simp: ack_for_def)
  have "core g ?c a v m e' fl (ks @ [e'])"
    using C(1,2,3,5,6,7,11) j way st(2,3,4) assms(3) rinvD(1) [OF st(2)] data_way_tl [of g "c_pos c" h "Chunk j m" fl bs bss] C(9)
    by (simp add: core_def Let_def recv_side_def cs ended_def max_absorb2)
  with act lt st(3,4) assms(3) show ?thesis by blast
qed

lemma deliver_end_act:
  fixes g :: "'d setting"
  assumes "core g c a v h e (Fin # fl) ks" "c_recv c = Receiving r" "\<not> r_end_file r"
  shows "\<exists>r' w'. act g Deliver c = Some (Inr (c\<lparr>c_recv := Receiving r', c_rw := w', c_data := tl (c_data c)\<rparr>)) \<and>
    core g (c\<lparr>c_recv := Receiving r', c_rw := w', c_data := tl (c_data c)\<rparr>) a v h e fl ks \<and> r_end_file r'"
proof -
  note C = coreD [OF assms(1)]
  obtain bs bss where cs: "c_data c = bs # bss" using C(9) by (cases "c_data c") (auto simp: data_way_def)
  have d: "end_event (crc g) (delivered bs)" using C(9) by (simp add: data_way_def cs)
  have inv: "rinv (chunks g) h (r_win g) e r (c_rw c)" using C(8) by (simp add: recv_side_def assms(2))
  from end_step [OF inv d] obtain r' w' where
    st: "receive_step (crc g) (int (r_win g)) (delivered bs) r (c_rw c) = Inr (Running r', w')"
      "rinv (chunks g) h (r_win g) e r' w'" "r_end_file r'" "obslog w' = obslog (c_rw c)" by blast
  have "newly_sent (c_rw c) w' = []" using st(4) by (simp add: newly_sent_def)
  then have "act g Deliver c = Some (Inr (c\<lparr>c_recv := Receiving r', c_rw := w', c_data := tl (c_data c)\<rparr>))"
    using assms(2,3) st(1) by (simp add: after_receiver_def cs)
  moreover have "core g (c\<lparr>c_recv := Receiving r', c_rw := w', c_data := tl (c_data c)\<rparr>) a v h e fl ks"
    using assms(1) st(2) by (simp add: core_def Let_def recv_side_def cs data_way_def)
  ultimately show ?thesis using st(3) by blast
qed

lemma finish_act:
  fixes g :: "'d setting"
  assumes "core g c a v h e fl ks" "c_recv c = Receiving r" "r_end_file r"
  shows "\<exists>w' bss. act g Finish c = Some (Inr (c\<lparr>c_recv := R_left, c_rw := w', c_acks := c_acks c @ bss\<rparr>)) \<and>
    core g (c\<lparr>c_recv := R_left, c_rw := w', c_acks := c_acks c @ bss\<rparr>) a v h e fl (ks @ replicate 11 e)"
proof -
  note C = coreD [OF assms(1)]
  have inv: "rinv (chunks g) h (r_win g) e r (c_rw c)" using C(8) by (simp add: recv_side_def assms(2))
  from receive_end_run [OF inv, of "crc g"] obtain w' as where
    st: "receive_end (crc g) (int (r_win g)) r (c_rw c) = Inr w'" "length as = 11"
      "\<forall>x\<in>set as. acks x PTYPE_ACK (int (r_win g)) (int (e mod 256))"
      "obslog w' = obslog (c_rw c) @ map (\<lambda>x. Sent (ack_bytes (crc g) x)) as" by blast
  let ?bss = "map (ack_bytes (crc g)) as"
  have "newly_sent (c_rw c) w' = ?bss" using newly_sent_append [OF st(4)] by simp
  then have act: "act g Finish c = Some (Inr (c\<lparr>c_recv := R_left, c_rw := w', c_acks := c_acks c @ ?bss\<rparr>))"
    using assms(2,3) st(1) by (simp add: after_receiver_def)
  have "file_of (map (\<lambda>x. Sent (ack_bytes (crc g) x)) as) = []" by (induction as) simp_all
  then have out: "file_of (obslog w') = concat (map (chunks g) [0..<e])"
    using rinvD(15) [OF inv] by (simp add: st(4))
  have "\<forall>bs\<in>set ?bss. ack_for g e bs" using st(3) by (auto simp: ack_for_def)
  from ack_way_append [OF C(10) order_refl C(3) this] st(2)
  have way: "ack_way g a e (ks @ replicate 11 e) (c_acks c @ ?bss)" by simp
  have "core g (c\<lparr>c_recv := R_left, c_rw := w', c_acks := c_acks c @ ?bss\<rparr>) a v h e fl (ks @ replicate 11 e)"
    using C out way assms(2,3) by (simp add: core_def Let_def recv_side_def ended_def)
  with act show ?thesis by blast
qed

section \<open>The channels\<close>

lemma nums_mono: "subseq xs ys \<Longrightarrow> subseq (nums xs) (nums ys)"
proof (induction rule: list_emb.induct)
  case (list_emb_Cons xs ys y)
  then show ?case by (cases y) auto
next
  case (list_emb_Cons2 x y xs ys)
  then show ?case by (cases y) auto
qed simp

lemma subseq_upt_drop:
  assumes "subseq [e..<n] (j # xs)" "e \<le> e'" "j = e \<longrightarrow> e < e'"
  shows "subseq [e'..<n] xs"
proof (cases "e < n")
  case True
  then have "subseq [if j = e then Suc e else e..<n] xs"
    using assms(1) by (simp add: upt_conv_Cons split: if_splits)
  moreover have "subseq [e'..<n] [d..<n]" if "d \<le> e'" for d
    using that by (metis drop_upt le_add_diff_inverse suffix_drop suffix_imp_subseq)
  ultimately show ?thesis
    using assms(2,3) by (metis (full_types) Suc_leI subseq_order.trans)
next
  case False
  with assms(2) show ?thesis by simp
qed

lemma nums_after_Fin:
  assumes "core g c a v h e (Fin # fl) ks"
  shows "nums fl = []"
proof -
  have "\<forall>x\<in>set fl. Suc (f_size g) \<le> tag (f_size g) x \<and> flight_ok (r_win g) (c_pos c) x"
    using coreD(9) [OF assms] by (auto simp: data_way_def)
  then show ?thesis using coreD(2) [OF assms] by (induction fl rule: nums.induct) auto
qed

lemma read_all_pos: "core g c a v h e fl ks \<Longrightarrow> read_all (c_send c) \<Longrightarrow> c_pos c = f_size g"
  using coreD(7) [of g c a v h e fl ks] by (auto simp: send_side_def read_all_def split: s_phase.splits)

lemma last_repeat: "i < length xs \<Longrightarrow> last (a # repeat_at i xs) = last (a # xs)"
  by (cases xs) (auto simp: repeat_at_def)

lemma channel_core:
  assumes "core g c a v h e fl ks"
  shows "core g (c\<lparr>c_data := lose i (c_data c)\<rparr>) a v h e (lose i fl) ks"
    "core g (c\<lparr>c_acks := lose i (c_acks c)\<rparr>) a v h e fl (lose i ks)"
    "core g (c\<lparr>c_data := repeat_at i (c_data c)\<rparr>) a v h e (repeat_at i fl) ks"
    "core g (c\<lparr>c_acks := repeat_at i (c_acks c)\<rparr>) a v h e fl (repeat_at i ks)"
  using assms set_lose [of i fl]
  by (auto simp: core_def Let_def set_repeat
      intro: data_way_lose data_way_repeat ack_way_lose ack_way_repeat)

section \<open>All actions\<close>

lemma net_invI:
  "core g c a v h e fl ks \<Longrightarrow> (\<not> lossy \<Longrightarrow> intact g c a e fl ks) \<Longrightarrow> net_inv g lossy c"
  unfolding net_inv_def by blast

lemma intact_deliver:
  assumes "intact g c a e (Chunk j m # fl) ks" "e \<le> e'" "j = e \<longrightarrow> e < e'" "\<not> r_end_file r'"
    and "c_recv c = Receiving r" "\<not> r_end_file r"
  shows "intact g (c\<lparr>c_recv := Receiving r', c_rw := w', c_data := tl (c_data c), c_acks := bss\<rparr>) a e' fl (ks @ [e'])"
  using assms(1,4-6) subseq_upt_drop [OF _ assms(2,3), of "c_pos c" "nums fl"]
  by (simp add: intact_def ended_def)

lemma intact_deliver_end:
  assumes "core g c a v h e (Fin # fl) ks" "intact g c a e (Fin # fl) ks" "r_end_file r'"
  shows "intact g (c\<lparr>c_recv := Receiving r', c_rw := w', c_data := bss\<rparr>) a e fl ks"
proof -
  have "c_pos c = f_size g" using read_all_pos [OF assms(1)] coreD(11) [OF assms(1)] by simp
  moreover have "subseq [e..<c_pos c] []"
    using assms(2) nums_after_Fin [OF assms(1)] by (simp add: intact_def)
  then have "[e..<c_pos c] = []" by (rule list_emb_Nil2)
  then have "c_pos c \<le> e" by (cases "e < c_pos c") (simp_all add: upt_conv_Cons)
  ultimately show ?thesis
    using assms(2,3) coreD(4,5) [OF assms(1)] nums_after_Fin [OF assms(1)] by (simp add: intact_def ended_def)
qed

lemma act_inv1:
  assumes "act g x c = Some res" "act g x c = Some (Inr c1)" "core g c1 a v h e fl ks"
    and "\<not> lossy \<Longrightarrow> intact g c1 a e fl ks"
  shows "\<exists>c'. res = Inr c' \<and> net_inv g lossy c'"
  using assms(1,2) net_invI [of g c1 a v h e fl ks lossy] assms(3,4) by auto

text \<open>No action leads to undefined behaviour, and the invariant is kept.\<close>

lemma act_inv:
  fixes g :: "'d setting"
  assumes "net_inv g lossy c" "fair g x c" "loses x \<longrightarrow> lossy" "act g x c = Some res"
  shows "\<exists>c'. res = Inr c' \<and> net_inv g lossy c'"
proof -
  obtain a v h e fl ks where core: "core g c a v h e fl ks" and intact: "\<not> lossy \<longrightarrow> intact g c a e fl ks"
    using assms(1) by (auto simp: net_inv_def)
  note C = coreD [OF core]
  have la: "length ks = length (c_acks c)" and ld: "length fl = length (c_data c)"
    using C(9,10) by (auto simp: ack_way_def data_way_def dest: list_all2_lengthD)
  show ?thesis
  proof (cases x)
    case (Send_round f k)
    with assms(4) obtain s where s: "c_send c = Sending s" "going s" "k \<longrightarrow> c_acks c \<noteq> []"
      by (auto split: s_phase.splits if_splits)
    have left: "c_recv c \<noteq> R_left" using C(12) s(1) by (auto simp: read_all_def ended_def)
    have fair: "fair g (Send_round f k) c" using assms(2) by (simp only: Send_round)
    from send_round_act [OF core s(1,2) fair s(3)] left intact show ?thesis
      by (elim exE conjE)
        (erule (1) act_inv1 [OF assms(4) [unfolded Send_round]], auto simp: intact_def split: if_splits)
  next
    case Start_end
    with assms(4) obtain s where s: "c_send c = Sending s" "\<not> going s"
      by (auto split: s_phase.splits if_splits)
    have "c_recv c \<noteq> R_left" using C(12) s(1) by (auto simp: read_all_def ended_def)
    with start_end_act [OF core s] intact show ?thesis
      by (elim exE conjE) (erule (1) act_inv1 [OF assms(4) [unfolded Start_end]], simp add: intact_def)
  next
    case (End_round k)
    with assms(4) obtain tmp s where s: "c_send c = Ending tmp s" "k \<longrightarrow> c_acks c \<noteq> []"
      by (auto split: s_phase.splits if_splits)
    show ?thesis
    proof (cases k)
      case False
      note A = assms(4) [unfolded End_round Eq_FalseI [OF False]]
      from end_round_act [OF core s(1)] intact s(1) show ?thesis
        by (elim exE conjE) (erule (1) act_inv1 [OF A], simp add: intact_def)
    next
      case True
      note A = assms(4) [unfolded End_round Eq_TrueI [OF True]]
      from True s(2) la obtain k1 ks1 where ks: "ks = k1 # ks1" by (cases ks) auto
      from end_answer_act [OF core [unfolded ks] s(1)] intact show ?thesis
        by (elim exE conjE) (erule (1) act_inv1 [OF A], simp add: intact_def ks)
    qed
  next
    case Deliver
    with assms(4) obtain r where r: "c_recv c = Receiving r" "\<not> r_end_file r" "c_data c \<noteq> []"
      by (auto split: r_phase.splits if_splits)
    note A = assms(4) [unfolded Deliver]
    from r(3) ld obtain y fl1 where fl: "fl = y # fl1" by (cases fl) auto
    show ?thesis
    proof (cases y)
      case (Chunk j m)
      from deliver_act [OF core [unfolded fl Chunk] r(1,2)] intact r show ?thesis
        unfolding fl Chunk
        by (elim exE conjE) (erule (1) act_inv1 [OF A], rule intact_deliver, simp_all)
    next
      case Fin
      from deliver_end_act [OF core [unfolded fl Fin] r(1,2)] intact show ?thesis
        unfolding fl Fin
        by (elim exE conjE)
          (erule (1) act_inv1 [OF A], rule intact_deliver_end [OF core [unfolded fl Fin]], simp_all)
    qed
  next
    case Finish
    with assms(4) obtain r where r: "c_recv c = Receiving r" "r_end_file r"
      by (auto split: r_phase.splits if_splits)
    from finish_act [OF core r] intact r show ?thesis
      by (elim exE conjE) (erule (1) act_inv1 [OF assms(4) [unfolded Finish]], auto simp: intact_def ended_def)
  next
    case (Lose_data i)
    with assms(3,4) channel_core(1) [OF core] show ?thesis
      by (auto simp: loses_def split: if_splits intro: net_invI)
  next
    case (Lose_ack i)
    with assms(3,4) channel_core(2) [OF core] show ?thesis
      by (auto simp: loses_def split: if_splits intro: net_invI)
  next
    case (Repeat_data i)
    have "intact g c a e fl ks \<Longrightarrow> intact g (c\<lparr>c_data := repeat_at i (c_data c)\<rparr>) a e (repeat_at i fl) ks"
      using nums_mono [OF subseq_repeat, of fl i]
      by (auto simp: intact_def set_repeat intro: subseq_order.trans)
    with Repeat_data assms(4) channel_core(3) [OF core] intact show ?thesis
      by (auto split: if_splits intro: net_invI)
  next
    case (Repeat_ack i)
    have "intact g c a e fl ks \<Longrightarrow> i < length ks \<Longrightarrow>
        intact g (c\<lparr>c_acks := repeat_at i (c_acks c)\<rparr>) a e fl (repeat_at i ks)"
      using last_repeat [of i ks a] set_repeat [of i ks] by (fastforce simp: intact_def)
    with Repeat_ack assms(4) channel_core(4) [OF core] intact la show ?thesis
      by (auto split: if_splits intro: net_invI)
  qed
qed

end
