(* ===== verification/Network_Progress.thy ===== *)
theory Network_Progress
  imports Network_Inv
begin

text \<open>
  The invariant holds in every reachable configuration of the two programs and their channels; and
  when nothing is lost, unless both programs have returned, something can be done that leaves less
  to do.
\<close>

section \<open>The invariant holds\<close>

lemma net_init_core:
  assumes "net_init g c"
  shows "core g c 0 1 0 0 [] [] \<and> intact g c 0 0 [] [] \<and> (\<exists>s. c_send c = Sending s \<and> going s)"
proof -
  from assms have G: "good_setting g" and c: "c_pos c = 0" "c_data c = []" "c_acks c = []"
    by (simp_all add: net_init_def)
  note W = good_settingD(1,2) [OF G]
  from assms obtain pe rt ws s where s: "env_good ws" "heap_ok ws" "length pe = 528" "length rt = 512"
    "send_init pe rt ws = Inr (Some s, c_sw c)" "c_send c = Sending s"
    by (auto simp: net_init_def)
  from assms obtain pr wr r where r: "env_good wr" "heap_ok wr" "obslog wr = []" "length pr = 528"
    "receive_init pr wr = Inr (Some r, c_rw c)" "c_recv c = Receiving r"
    by (auto simp: net_init_def)
  have "sinv (chunks g) (r_win g) 0 0 1 s (c_sw c)" "s_endFile s = 0"
    using send_init_ok [OF s(1,2) _ _ s(3,4), of "r_win g" "chunks g"] s(5) W by auto
  moreover have "rinv (chunks g) 0 (r_win g) 0 r (c_rw c)" "\<not> r_end_file r"
    using receive_init_ok [OF r(1-4), of "r_win g" "chunks g" 0] r(5) W by auto
  ultimately have "core g c 0 1 0 0 [] []"
    using G c s(6) r(6) by (simp add: core_def Let_def send_side_def recv_side_def data_way_def ack_way_def ended_def)
  moreover have "intact g c 0 0 [] []"
    using c s(6) r(6) \<open>\<not> r_end_file r\<close> by (simp add: intact_def ended_def)
  ultimately show ?thesis
    using s(6) \<open>s_endFile s = 0\<close> by (simp add: going_def)
qed

lemma net_init_inv: "net_init g c \<Longrightarrow> net_inv g lossy c"
  using net_init_core by (blast intro: net_invI)

lemma net_act_inv: "net_inv g lossy c \<Longrightarrow> net_act g lossy x c = Some c' \<Longrightarrow> net_inv g lossy c'"
  using act_inv [of g lossy c x] by (fastforce simp: net_act_def split: if_splits option.splits sum.splits)

interpretation net: invariant_system "net_init g" "net_step g lossy" "net_inv g lossy" for g lossy
  by unfold_locales (auto simp: net_step_def intro: net_init_inv net_act_inv)

lemma net_inv_file:
  assumes "net_inv g lossy c"
  shows "\<exists>e\<le>c_pos c. file_of (obslog (c_rw c)) = concat (map (chunks g) [0..<e]) \<and>
    (\<not> lossy \<and> ended (c_recv c) \<longrightarrow> e = f_size g)"
proof -
  obtain a v h e fl ks where core: "core g c a v h e fl ks" and intact: "\<not> lossy \<longrightarrow> intact g c a e fl ks"
    using assms by (auto simp: net_inv_def)
  note C = coreD [OF core]
  have "file_of (obslog (c_rw c)) = concat (map (chunks g) [0..<e])"
    using C(8) by (auto simp: recv_side_def dest: rinvD(15) split: r_phase.splits)
  moreover have "e \<le> c_pos c" using C(4,5) by simp
  ultimately show ?thesis using intact by (auto simp: intact_def)
qed

section \<open>Progress\<close>

definition s_rank :: "s_phase \<Rightarrow> nat" where
  "s_rank ph = (case ph of Sending s \<Rightarrow> if s_endFile s = 1 then 2 else 3 | Ending _ _ \<Rightarrow> 1 | S_left \<Rightarrow> 0)"

definition r_rank :: "r_phase \<Rightarrow> nat" where
  "r_rank ph = (case ph of Receiving r \<Rightarrow> if r_end_file r then 1 else 2 | R_left \<Rightarrow> 0)"

text \<open>What is left to do: the phases, the chunks to read, the datagrams to take.\<close>

definition to_do :: "'d setting \<Rightarrow> config \<Rightarrow> nat \<times> nat \<times> nat \<times> nat \<times> nat" where
  "to_do g c = (s_rank (c_send c), f_size g - c_pos c, r_rank (c_recv c), length (c_data c), length (c_acks c))"

definition less_to_do :: "((nat \<times> nat \<times> nat \<times> nat \<times> nat) \<times> (nat \<times> nat \<times> nat \<times> nat \<times> nat)) set" where
  "less_to_do = less_than <*lex*> less_than <*lex*> less_than <*lex*> less_than <*lex*> less_than"

lemma wf_less_to_do: "wf less_to_do"
  by (simp add: less_to_do_def wf_lex_prod)

definition both_left :: "config \<Rightarrow> bool" where
  "both_left c \<longleftrightarrow> c_send c = S_left \<and> c_recv c = R_left"

lemma net_act_two:
  "fair g x c \<Longrightarrow> \<not> loses x \<Longrightarrow> act g x c = Some (Inr c1) \<Longrightarrow> fair g y c1 \<Longrightarrow> \<not> loses y \<Longrightarrow>
     act g y c1 = Some (Inr c') \<Longrightarrow> run_actions (net_act g False) [x, y] c = Some c'"
  by (simp add: net_act_def)

lemma fair_other: "(\<And>f k. x \<noteq> Send_round f k) \<Longrightarrow> fair g x c"
  by (cases x) (auto simp: fair_def)

text \<open>A round that only takes an acknowledgement writes nothing.\<close>

lemma ack_round_act:
  fixes g :: "'d setting"
  assumes "core g c a v h e fl (k1 # ks)" "c_send c = Sending s" "going s"
  shows "\<exists>s' w'. act g (Send_round False True) c = Some (Inr (c\<lparr>c_send := Sending s', c_sw := w',
      c_acks := tl (c_acks c)\<rparr>)) \<and> s_endFile s' = s_endFile s \<and> c_acks c \<noteq> []"
proof -
  note C = coreD [OF assms(1)]
  have inv: "sinv (chunks g) (r_win g) a (c_pos c) v s (c_sw c)"
    using C(7) by (simp add: send_side_def assms(2))
  obtain bs bss where cs: "c_acks c = bs # bss" using C(10) by (cases "c_acks c") (auto simp: ack_way_def)
  with ack_way_tl [of g a e k1 ks bs bss] C(10) obtain x where
    k1: "a \<le> k1" "k1 \<le> e" and
    x: "acks x PTYPE_ACK (int (r_win g)) (int (k1 mod 256))" "bs = ack_bytes (crc g) x"
    by (auto simp: ack_for_def)
  let ?ev = "round_event g False True c" let ?s = "s\<lparr>s_sent := 0, s_ack_received := 0\<rparr>"
  have ev: "ev_file ?ev = None" "ev_sock ?ev = Some (SrBytes bs)"
    by (simp_all add: round_event_def cs)
  have i0: "sinv (chunks g) (r_win g) a (c_pos c) v ?s (c_sw c)" using inv by (simp add: sinv_def)
  have "k1 \<le> c_pos c" using k1 C(4,5) by simp
  with x k1 acks_TR [OF x(1)] have
    "sock_part (crc g) (r_win g) a (c_pos c) v (ev_sock ?ev) k1 (int (r_win g)) True"
    unfolding ev x(2) by (intro sp_ack) simp_all
  from sock_action_ok [OF i0 _ this, of "dops g"] obtain s' w' where
    st: "sock_action (crc g) (dops g) ?ev ?s (c_sw c) = Inr (SRunning s', w')" "s_ack_received s' = 1"
      "s_endFile s' = s_endFile s" "obslog w' = obslog (c_sw c)" by auto
  have "send_step (crc g) (dops g) (named g) (sock_fd g) (file_fd g) ?ev s (c_sw c) = Inr (SRunning s', w')"
    using good_settingD(3,4) [OF C(1)] st
    by (simp add: send_step_parts file_action_def ev timer_part_def)
  moreover have "newly_sent (c_sw c) w' = []" using st(4) by (simp add: newly_sent_def)
  moreover have "c\<lparr>c_send := p, c_sw := w', c_acks := q, c_pos := c_pos c\<rparr> = c\<lparr>c_send := p, c_sw := w', c_acks := q\<rparr>"
    for p q by simp
  ultimately show ?thesis
    using assms(2,3) st(3) cs by (intro exI [of _ s'] exI [of _ w']) (simp add: after_sender_def pos_after_def)
qed

text \<open>When the sender waits for nothing it reads the file.\<close>

lemma read_act:
  fixes g :: "'d setting"
  assumes "core g c a v h e fl ks" "c_send c = Sending s" "going s" "a = c_pos c"
    and "named g \<longrightarrow> r_win g \<le> f_size g"
  shows "\<exists>c'. act g (Send_round True False) c = Some (Inr c') \<and> fair g (Send_round True False) c \<and>
    (to_do g c', to_do g c) \<in> less_to_do"
proof -
  note C = coreD [OF assms(1)]
  have inv: "sinv (chunks g) (r_win g) a (c_pos c) v s (c_sw c)"
    using C(7) by (simp add: send_side_def assms(2))
  note I = sinvD [OF inv]
  have "s_endFile s \<in> {0, 1}" using inv by (simp add: sinv_def)
  with assms(3) have 0: "s_endFile s = 0" by (auto simp: going_def)
  have room: "int (c_pos c) - int a < v" using window_atD(7) [OF I(1)] assms(4) by simp
  then have mr: "may_read s" using may_read_room [OF inv 0] room_not_full assms(4) by blast
  have fill: "slot_filled s" if "named g" "c_pos c = f_size g"
    using that assms(5) good_settingD(1) [OF C(1)] by (auto simp: slot_filled_iff [OF inv])
  have fair: "fair g (Send_round True False) c"
    using window_room_iff [OF inv] room fill C(2) mr by (auto simp: fair_def assms(2))
  from send_round_act [OF assms(1-3) fair] obtain s' w' bss where
    "act g (Send_round True False) c = Some (Inr (c\<lparr>c_send := Sending s', c_sw := w', c_data := c_data c @ bss,
      c_acks := c_acks c, c_pos := pos_after g True s c\<rparr>))" "s_endFile s' = 1 \<longleftrightarrow> c_pos c = f_size g"
    using mr by auto
  moreover have "(to_do g (c\<lparr>c_send := Sending s', c_sw := w', c_data := c_data c @ bss,
      c_acks := c_acks c, c_pos := pos_after g True s c\<rparr>), to_do g c) \<in> less_to_do"
    using calculation(2) mr C(2) 0 by (auto simp: to_do_def less_to_do_def s_rank_def assms(2) pos_after_def)
  ultimately show ?thesis using fair by blast
qed

lemma progress_one:
  "act g x c = Some (Inr c') \<Longrightarrow> fair g x c \<Longrightarrow> \<not> loses x \<Longrightarrow> (to_do g c', to_do g c) \<in> less_to_do \<Longrightarrow>
    \<exists>xs c'. run_actions (net_act g False) xs c = Some c' \<and> (to_do g c', to_do g c) \<in> less_to_do"
  by (rule exI [of _ "[x]"]) (simp add: net_act_def)

text \<open>Unless both programs have returned, something can be done that leaves less to do.\<close>

lemma progress:
  fixes g :: "'d setting"
  assumes "net_inv g False c" "\<not> both_left c" "named g \<longrightarrow> r_win g \<le> f_size g"
  shows "\<exists>xs c'. run_actions (net_act g False) xs c = Some c' \<and> (to_do g c', to_do g c) \<in> less_to_do"
proof -
  obtain a v h e fl ks where core: "core g c a v h e fl ks" and intact: "intact g c a e fl ks"
    using assms(1) by (auto simp: net_inv_def)
  note C = coreD [OF core]
  have ld: "length fl = length (c_data c)" using C(9) by (auto simp: data_way_def dest: list_all2_lengthD)
  note D = to_do_def less_to_do_def s_rank_def r_rank_def
  show ?thesis
  proof (cases "c_recv c")
    case R_left
    with assms(2) C(12) obtain tmp s where s: "c_send c = Ending tmp s"
      by (auto simp: both_left_def ended_def read_all_def split: s_phase.splits)
    with intact R_left obtain k1 ks1 where ks: "ks = k1 # ks1" by (cases ks) (auto simp: intact_def)
    from end_answer_act [OF core [unfolded ks] s] show ?thesis
      by (elim exE conjE) (erule progress_one, simp_all add: fair_other loses_def D s)
  next
    case (Receiving r)
    show ?thesis
    proof (cases "r_end_file r")
      case True
      from finish_act [OF core Receiving True] show ?thesis
        by (elim exE conjE) (erule progress_one, simp_all add: fair_other loses_def D Receiving True)
    next
      case False
      show ?thesis
      proof (cases fl)
        case (Cons y fl1)
        then have "c_data c \<noteq> []" using ld by auto
        show ?thesis
        proof (cases y)
          case (Chunk j m)
          from deliver_act [OF core [unfolded Cons Chunk] Receiving False] show ?thesis
            by (elim exE conjE) (erule progress_one,
              simp_all add: fair_other loses_def D Receiving False \<open>c_data c \<noteq> []\<close>)
        next
          case Fin
          from deliver_end_act [OF core [unfolded Cons Fin] Receiving False] show ?thesis
            by (elim exE conjE) (erule progress_one, simp_all add: fair_other loses_def D Receiving False)
        qed
      next
        case Nil
        then have "subseq [e..<c_pos c] []" using intact by (simp add: intact_def)
        then have "[e..<c_pos c] = []" by (rule list_emb_Nil2)
        then have e: "e = c_pos c" using C(4,5) by (cases "e < c_pos c") (simp_all add: upt_conv_Cons)
        show ?thesis
        proof (cases "c_send c")
          case S_left
          with intact Nil Receiving False show ?thesis by (simp add: intact_def ended_def)
        next
          case (Ending tmp s)
          from end_round_act [OF core Ending] obtain w1 bs c1 where
            1: "act g (End_round False) c = Some (Inr c1)" "core g c1 a v h e [Fin] ks"
              "c1 = c\<lparr>c_send := Ending tmp s, c_sw := w1, c_data := c_data c @ [bs]\<rparr>"
            using Nil by auto
          have r: "c_recv c1 = Receiving r" by (simp add: 1(3) Receiving)
          from deliver_end_act [OF 1(2) r False] obtain r' w2 where
            2: "act g Deliver c1 = Some (Inr (c1\<lparr>c_recv := Receiving r', c_rw := w2, c_data := tl (c_data c1)\<rparr>))"
              "r_end_file r'" by blast
          have "run_actions (net_act g False) [End_round False, Deliver] c =
              Some (c1\<lparr>c_recv := Receiving r', c_rw := w2, c_data := tl (c_data c1)\<rparr>)"
            by (rule net_act_two [OF _ _ 1(1) _ _ 2(1)]) (simp_all add: fair_other loses_def)
          then show ?thesis
            by (intro exI conjI, assumption) (simp add: 1(3) 2(2) D Ending Receiving False)
        next
          case (Sending s)
          show ?thesis
          proof (cases "going s")
            case False
            then have "s_endFile s = 1"
              using C(7) by (auto simp: send_side_def Sending sinv_def going_def)
            with start_end_act [OF core Sending False] show ?thesis
              by (elim exE conjE) (erule progress_one, simp_all add: fair_other loses_def D Sending)
          next
            case True
            show ?thesis
            proof (cases ks)
              case (Cons k1 ks1)
              have "fair g (Send_round False True) c" by (simp add: fair_def Sending)
              with ack_round_act [OF core [unfolded Cons] Sending True] show ?thesis
                by (elim exE conjE) (erule progress_one,
                  simp_all add: loses_def D Sending)
            next
              case Nil
              then have "a = c_pos c" using intact e by (simp add: intact_def)
              from read_act [OF core Sending True this assms(3)] show ?thesis
                by (elim exE conjE) (erule progress_one, simp_all add: loses_def)
            qed
          qed
        qed
      qed
    qed
  qed
qed

lemma run_inv: "net_inv g lossy c \<Longrightarrow> run_actions (net_act g lossy) xs c = Some c' \<Longrightarrow> net_inv g lossy c'"
  by (induction xs arbitrary: c) (auto split: option.splits dest: net_act_inv)

lemma can_complete:
  assumes "net_inv g False c" "named g \<longrightarrow> r_win g \<le> f_size g"
  shows "\<exists>xs c'. run_actions (net_act g False) xs c = Some c' \<and> net_inv g False c' \<and> both_left c'"
proof (rule run_to_final [OF wf_less_to_do, where m = "to_do g" and I = "net_inv g False"])
  show "\<exists>xs c'. run_actions (net_act g False) xs c = Some c' \<and> net_inv g False c' \<and> (to_do g c', to_do g c) \<in> less_to_do"
    if "net_inv g False c" "\<not> both_left c" for c
    using progress [OF that assms(2)] run_inv [OF that(1)] by blast
qed (rule assms(1))

end
