(* ===== verification/Network_Props.thy ===== *)
theory Network_Props
  imports Network_Progress
begin

text \<open>
  What the invariant of the two programs and their channels gives: safety for transfers of any
  length, the complete file when nothing is lost, that the transfer can always be completed, and
  what becomes of it when the end packet is lost.
\<close>

section \<open>The environment's part\<close>

text \<open>Once a window's worth of chunks was read, and until the numbers wrap, nothing is asked of the
  environment: every action is fair.\<close>

lemma fair_mid:
  assumes "reachable (net_init g) (net_step g lossy) c" "r_win g \<le> c_pos c" "c_pos c < 256"
  shows "fair g x c"
proof -
  obtain a v h e fl ks where core: "core g c a v h e fl ks"
    using net.reachable_inv [OF assms(1)] by (auto simp: net_inv_def)
  note C = coreD [OF core]
  have "window_room s \<or> \<not> may_read s" "slot_filled s" if "c_send c = Sending s" for s
  proof -
    have inv: "sinv (chunks g) (r_win g) a (c_pos c) v s (c_sw c)"
      using C(7) by (simp add: send_side_def that)
    have "may_read s \<Longrightarrow> s_endFile s = 0" by (simp add: may_read_def Let_def)
    then show "window_room s \<or> \<not> may_read s"
      using may_read_room [OF inv] window_room_iff [OF inv] not_full_short [OF assms(3)]
        window_atD(3) [OF sinvD(1) [OF inv]] by auto
    show "slot_filled s"
      using assms(2) good_settingD(1) [OF C(1)] by (simp add: slot_filled_iff [OF inv])
  qed
  then show ?thesis by (auto simp: fair_def split: action.splits s_phase.splits)
qed

text \<open>Whether the code sees that the window is full, before the numbers wrap.\<close>

lemma sinv_may_read:
  assumes "sinv D W a n v s w" "s_endFile s = 0" "n < 256"
  shows "may_read s \<longleftrightarrow> window_room s"
  using may_read_room [OF assms(1,2)] window_room_iff [OF assms(1)] not_full_short [OF assms(3)]
    window_atD(3) [OF sinvD(1) [OF assms(1)]] by simp

text \<open>A round that would send a slot that was never filled has no next configuration.\<close>

lemma unfilled_no_round:
  assumes core: "core g c a v h e fl ks" and s: "c_send c = Sending s" "\<not> slot_filled s"
    and x: "named g" "\<not> (f \<and> may_read s \<and> c_pos c < f_size g)" "\<not> k"
  shows "act g (Send_round f k) c \<noteq> Some (Inr c')"
proof (cases "going s")
  case True
  note C = coreD [OF core] and G = good_settingD [OF coreD(1) [OF core]]
  let ?n = "c_pos c"
  have inv: "sinv (chunks g) (r_win g) a ?n v s (c_sw c)" using C(7) by (simp add: send_side_def s(1))
  have "s_endFile s \<in> {0, 1}" using inv by (simp add: sinv_def)
  with True have 0: "s_endFile s = 0" by (auto simp: going_def)
  have n: "a = ?n" "?n < r_win g"
    using s(2) slot_filled_iff [OF inv] C(3-5) G(1) by auto
  have "not_full a ?n v" using window_atD(7) [OF sinvD(1) [OF inv]] n(1) by (simp add: not_full_def)
  then have "may_read s" using may_read_room [OF inv 0] by simp
  with x(2) C(2) have "\<not> f \<or> ?n = f_size g" by auto
  then have "ev_file (round_event g f k c) = None \<or> ev_file (round_event g f k c) = Some (SrBytes [])"
    by (auto simp: round_event_def)
  moreover have "ev_sock (round_event g f k c) = None" using x(3) by (simp add: round_event_def)
  ultimately have "send_step (crc g) (dops g) True (sock_fd g) (file_fd g) (round_event g f k c) s (c_sw c) = Inl Uninitialised"
    by (intro unfilled_slot_round [OF inv [unfolded n(1)] n(2) 0 G(3,4)])
  with x(1) s(1) show ?thesis by simp
qed (use s(1) in simp)

text \<open>So what is possible under \<open>keeps_window\<close> is fair.\<close>

lemma loop_act_fair:
  assumes "net_inv g lossy c" "keeps_window x c" "act g x c = Some (Inr c')"
  shows "fair g x c"
proof (cases "\<exists>f k s. x = Send_round f k \<and> c_send c = Sending s")
  case True
  then obtain f k s where x: "x = Send_round f k" and s: "c_send c = Sending s" by blast
  obtain a v h e fl ks where core: "core g c a v h e fl ks" using assms(1) by (auto simp: net_inv_def)
  have inv: "sinv (chunks g) (r_win g) a (c_pos c) v s (c_sw c)"
    using coreD(7) [OF core] by (simp add: send_side_def s)
  have "may_read s \<Longrightarrow> s_endFile s = 0" by (simp add: may_read_def Let_def)
  then have "f \<and> may_read s \<longrightarrow> window_room s"
    using assms(2) sinv_may_read [OF inv] by (cases "c_pos c < 256") (auto simp: keeps_window_def x s)
  moreover have "slot_filled s" if "named g" "\<not> (f \<and> may_read s \<and> c_pos c < f_size g)" "\<not> k"
    using unfilled_no_round [OF core s _ that] assms(3) by (auto simp: x)
  ultimately show ?thesis by (simp add: fair_def x s)
qed (auto simp: fair_def split: action.splits s_phase.splits)

lemma fair_keeps_window: "fair g x c \<Longrightarrow> keeps_window x c"
  by (auto simp: fair_def keeps_window_def split: action.splits s_phase.splits)

lemma loop_act_iff: "loop_act g lossy x c = Some c' \<longleftrightarrow> (loses x \<longrightarrow> lossy) \<and> act g x c = Some (Inr c')"
  unfolding loop_act_def by (cases "act g x c") (auto simp del: act.simps split: sum.splits)

lemma net_act_iff: "net_act g lossy x c = Some c' \<longleftrightarrow> fair g x c \<and> loop_act g lossy x c = Some c'"
  by (simp add: net_act_def loop_act_def)

lemma net_step_loop: "net_step g lossy c c' \<Longrightarrow> loop_step g lossy c c'"
  unfolding net_step_def loop_step_def using net_act_iff fair_keeps_window by blast

lemma loop_step_net: "net_inv g lossy c \<Longrightarrow> loop_step g lossy c c' \<Longrightarrow> net_step g lossy c c'"
  unfolding net_step_def loop_step_def using net_act_iff loop_act_iff loop_act_fair by blast

lemma reachable_net_loop: "reachable (net_init g) (net_step g lossy) c \<Longrightarrow> reachable (net_init g) (loop_step g lossy) c"
  by (induction rule: reachable.induct) (auto intro: reachable.intros net_step_loop)

interpretation loop: invariant_system "net_init g" "loop_step g lossy" "net_inv g lossy" for g lossy
  using net.inv_init net.inv_step loop_step_net by unfold_locales blast+

lemma reachable_loop_net: "reachable (net_init g) (loop_step g lossy) c \<Longrightarrow> reachable (net_init g) (net_step g lossy) c"
proof (induction rule: reachable.induct)
  case (reach_step c c')
  from loop_step_net [OF loop.reachable_inv [OF reach_step(1)] reach_step(2)] reach_step(3) show ?case
    by (blast intro: reachable.reach_step)
qed (rule reach_init)

section \<open>Properties of the system\<close>

text \<open>The instances: a file of 1000 chunks of one byte, so that the numbers wrap three times.\<close>

definition net_ex :: "int setting" where
  "net_ex = \<lparr>crc = sum_crc, dops = int_ops, chunks = (\<lambda>j. [of_nat j]), f_size = 1000, r_win = 3,
     named = True, sock_fd = 3, file_fd = 4\<rparr>"

lemma net_ex_init: "\<exists>c. net_init net_ex c"
proof -
  obtain s w1 where s: "send_init (replicate 528 0) (replicate 512 0) world_r = Inr (Some s, w1)"
    using send_init_ok [where w = world_r and W = 3 and D = chunk and pe = "replicate 528 0" and rt = "replicate 512 0"]
    by auto
  obtain r w2 where r: "receive_init (replicate 528 0) world_r = Inr (Some r, w2)"
    using receive_init_ok [of world_r "replicate 528 0" 3 chunk 3] by auto
  have "good_setting net_ex" by (simp add: good_setting_def net_ex_def)
  with s r have "net_init net_ex \<lparr>c_send = Sending s, c_sw = w1, c_recv = Receiving r, c_rw = w2, c_pos = 0,
      c_data = [], c_acks = []\<rparr>"
    unfolding net_init_def
    by (intro conjI exI [of _ "replicate 528 0"] exI [of _ "replicate 512 0"] exI [of _ world_r] exI [of _ s]
      exI [of _ r]) simp_all
  then show ?thesis ..
qed

lemma net_ex_sel: "chunks net_ex = (\<lambda>j. [of_nat j])" "f_size net_ex = 1000" "r_win net_ex = 3"
  by (simp_all add: net_ex_def)

lemma reachable_lossy: "reachable (net_init g) (net_step g False) c \<Longrightarrow> reachable (net_init g) (net_step g True) c"
proof (induction rule: reachable.induct)
  case (reach_step c c')
  have "net_act g False x c = Some c' \<Longrightarrow> net_act g True x c = Some c'" for x
    by (simp add: net_act_def split: if_splits)
  with reach_step(2) have "net_step g True c c'" by (auto simp: net_step_def)
  with reach_step(3) show ?case by (rule reachable.reach_step)
qed (rule reach_init)

lemma net_ex_done:
  "\<exists>c. reachable (net_init net_ex) (net_step net_ex False) c \<and> both_left c \<and> c_pos c = 1000"
proof -
  obtain c where c: "net_init net_ex c" using net_ex_init by blast
  have "named net_ex \<longrightarrow> r_win net_ex \<le> f_size net_ex" by (simp add: net_ex_sel)
  from can_complete [OF net_init_inv [OF c] this] obtain xs c' where
    r: "run_actions (net_act net_ex False) xs c = Some c'" "net_inv net_ex False c'" "both_left c'" by blast
  have "reachable (net_init net_ex) (net_step net_ex False) c'"
    by (rule run_reachable [OF _ reach_init [of "net_init net_ex", OF c] r(1)]) (auto simp: net_step_def)
  moreover have "c_pos c' = 1000"
    using r(2,3) read_all_pos by (fastforce simp: net_inv_def both_left_def read_all_def net_ex_sel)
  ultimately show ?thesis using r(3) by blast
qed

text \<open>C3. The two programs in a closed loop, for files of any length up to \<open>2 ^ 31\<close> chunks, so that the
  sequence numbers wrap again and again: the channels lose and repeat any datagrams but keep their
  order. In every reachable configuration no fair action of either program leads to undefined
  behaviour, and the receiver's file is a prefix of what the sender has read.\<close>

theorem closed_loop_safe:
  assumes "reachable (net_init g) (net_step g True) c"
  shows "(\<forall>x err. fair g x c \<longrightarrow> act g x c \<noteq> Some (Inl err)) \<and>
    (\<exists>e\<le>c_pos c. file_of (obslog (c_rw c)) = concat (map (chunks g) [0..<e]))"
proof -
  have inv: "net_inv g True c" using assms by (rule net.reachable_inv)
  then have "act g x c \<noteq> Some (Inl err)" if "fair g x c" for x err
    using act_inv [OF inv that] by auto
  with net_inv_file [OF inv] show ?thesis by auto
qed

theorem closed_loop_safe_witness:
  "\<exists>c e. reachable (net_init net_ex) (net_step net_ex True) c \<and> c_pos c = 1000 \<and> e \<le> 1000 \<and>
    (\<forall>x err. fair net_ex x c \<longrightarrow> act net_ex x c \<noteq> Some (Inl err)) \<and>
    file_of (obslog (c_rw c)) = concat (map (\<lambda>j. [of_nat j]) [0..<e])"
proof -
  obtain c where c: "reachable (net_init net_ex) (net_step net_ex True) c" "c_pos c = 1000"
    using net_ex_done reachable_lossy by blast
  from closed_loop_safe [OF c(1)] c show ?thesis by (auto simp: net_ex_sel)
qed

text \<open>C6. When nothing is lost, also with repetitions and with numbers that wrap: a receiver that has
  taken the end packet has written the whole file.\<close>

theorem closed_loop_exact:
  assumes "reachable (net_init g) (net_step g False) c" "ended (c_recv c)"
  shows "c_pos c = f_size g \<and> file_of (obslog (c_rw c)) = concat (map (chunks g) [0..<f_size g])"
proof -
  have inv: "net_inv g False c" using assms(1) by (rule net.reachable_inv)
  then obtain a v h e fl ks where "core g c a v h e fl ks" by (auto simp: net_inv_def)
  from read_all_pos [OF this] coreD(12) [OF this assms(2)] net_inv_file [OF inv] assms(2) show ?thesis
    by auto
qed

theorem closed_loop_exact_witness:
  "\<exists>c. reachable (net_init net_ex) (net_step net_ex False) c \<and> ended (c_recv c) \<and>
    file_of (obslog (c_rw c)) = concat (map (\<lambda>j. [of_nat j]) [0..<1000])"
proof -
  obtain c where c: "reachable (net_init net_ex) (net_step net_ex False) c" "both_left c"
    using net_ex_done by blast
  then have "ended (c_recv c)" by (simp add: both_left_def ended_def)
  with closed_loop_exact [OF c(1) this] c(1) show ?thesis by (auto simp: net_ex_sel)
qed

text \<open>C2. From every reachable configuration of the loss-free system the transfer can be completed: there
  is a continuation in which both functions return and the file is the sender's file. For a sender
  that was given a file name, the file has at least a window's worth of chunks: with fewer its timer
  reads an uninitialised slot. Of the environment only \<open>keeps_window\<close> is asked: once 256 chunks were
  read, the file is not read while the window is full.\<close>

theorem closed_loop_completes:
  assumes "reachable (net_init g) (loop_step g False) c" "named g \<longrightarrow> r_win g \<le> f_size g"
  shows "\<exists>xs c'. run_actions (net_act g False) xs c = Some c' \<and> c_send c' = S_left \<and> c_recv c' = R_left \<and>
    file_of (obslog (c_rw c')) = concat (map (chunks g) [0..<f_size g])"
proof -
  from can_complete [OF loop.reachable_inv [OF assms(1)] assms(2)] obtain xs c' where
    r: "run_actions (net_act g False) xs c = Some c'" "net_inv g False c'" "both_left c'" by blast
  from net_inv_file [OF r(2)] r(1,3) show ?thesis
    by (auto simp: both_left_def ended_def)
qed

theorem closed_loop_completes_witness:
  "\<exists>c xs c'. net_init net_ex c \<and> run_actions (net_act net_ex False) xs c = Some c' \<and> c_send c' = S_left \<and>
    c_recv c' = R_left \<and> file_of (obslog (c_rw c')) = concat (map (\<lambda>j. [of_nat j]) [0..<1000])"
proof -
  obtain c where c: "net_init net_ex c" using net_ex_init by blast
  have "named net_ex \<longrightarrow> r_win net_ex \<le> f_size net_ex" by (simp add: net_ex_sel)
  from closed_loop_completes [OF reach_init [of "net_init net_ex", OF c] this] c show ?thesis
    unfolding net_ex_sel by blast
qed

end
