(* ===== verification/Network_Loss.thy ===== *)
theory Network_Loss
  imports Network_Props
begin

text \<open>
  What the closed loop does when datagrams are lost at the wrong moment: while the end packet is
  exchanged nothing is sent again but the end packet, and any acknowledgement ends the exchange. The
  receiver may wait for ever, or the file may end too early, with both programs satisfied.
\<close>

section \<open>When the end packet is lost\<close>

text \<open>The sender has gone, nothing is on its way, and the receiver has not seen the end.\<close>

definition orphaned :: "config \<Rightarrow> bool" where
  "orphaned c \<longleftrightarrow> c_send c = S_left \<and> c_data c = [] \<and> \<not> ended (c_recv c)"

lemma orphaned_step:
  assumes "orphaned c" "net_act g lossy x c = Some c'"
  shows "orphaned c' \<and> c_recv c' = c_recv c"
  using assms
  by (cases x) (auto simp: orphaned_def net_act_def ended_def lose_def repeat_at_def split: if_splits r_phase.splits)

lemma orphaned_run:
  "orphaned c \<Longrightarrow> run_actions (net_act g lossy) xs c = Some c' \<Longrightarrow> orphaned c' \<and> c_recv c' = c_recv c"
proof (induction xs arbitrary: c)
  case (Cons x xs)
  then obtain c1 where "net_act g lossy x c = Some c1" "run_actions (net_act g lossy) xs c1 = Some c'"
    by (auto split: option.splits)
  with Cons.IH [of c1] orphaned_step [OF Cons.prems(1)] show ?case by fastforce
qed simp

lemma lose_all:
  "length (c_data c) = n \<Longrightarrow> run_actions (net_act g True) (replicate n (Lose_data 0)) c = Some (c\<lparr>c_data := []\<rparr>)"
proof (induction n arbitrary: c)
  case (Suc n)
  then have "net_act g True (Lose_data 0) c = Some (c\<lparr>c_data := drop 1 (c_data c)\<rparr>)"
    by (auto simp: net_act_def fair_def lose_def)
  with Suc.IH [of "c\<lparr>c_data := drop 1 (c_data c)\<rparr>"] Suc.prems show ?case by simp
qed simp

text \<open>C26. The sender takes any acknowledgement for the answer to its end packet. So when it exchanges the
  end packet while an older acknowledgement is on its way, it may return although the end packet
  is lost, and then the receiver waits for ever: whatever happens later, it stays in its loop.\<close>

theorem closed_loop_orphans:
  assumes "reachable (net_init g) (net_step g True) c" "c_send c = Ending tmp s" "c_acks c \<noteq> []"
    and "\<not> ended (c_recv c)"
  shows "\<exists>xs c'. run_actions (net_act g True) xs c = Some c' \<and> c_send c' = S_left \<and>
    (\<forall>ys c''. run_actions (net_act g True) ys c' = Some c'' \<longrightarrow> c_recv c'' = c_recv c \<and> c_recv c'' \<noteq> R_left)"
proof -
  obtain a v h e fl ks where core: "core g c a v h e fl ks"
    using net.reachable_inv [OF assms(1)] by (auto simp: net_inv_def)
  then have "ks \<noteq> []" using assms(3) coreD(10) [OF core] by (auto simp: ack_way_def)
  then obtain k1 ks1 where ks: "ks = k1 # ks1" by (cases ks) auto
  from end_answer_act [OF core [unfolded ks] assms(2)] obtain w' bs c1 where
    1: "act g (End_round True) c = Some (Inr c1)"
      "c1 = c\<lparr>c_send := S_left, c_sw := w', c_data := c_data c @ [bs], c_acks := tl (c_acks c)\<rparr>"
    by blast
  let ?c = "c1\<lparr>c_data := []\<rparr>"
  have "net_act g True (End_round True) c = Some c1"
    using 1(1) by (simp add: net_act_def fair_def loses_def del: act.simps)
  with lose_all [OF refl, of g c1] have
    r: "run_actions (net_act g True) (End_round True # replicate (length (c_data c1)) (Lose_data 0)) c = Some ?c"
    by simp
  have o: "orphaned ?c" "c_recv ?c = c_recv c" "c_send ?c = S_left"
    using assms(4) by (simp_all add: orphaned_def 1(2))
  have "c_recv c \<noteq> R_left" using assms(4) by (auto simp: ended_def)
  with r o(3) orphaned_run [OF o(1)] o(2) show ?thesis by metis
qed

text \<open>The other case: what is on its way when the sender has read the whole file is lost, and nothing
  sends it again.\<close>

lemma lost_data_core:
  assumes "core g c a v h e fl ks"
  shows "core g (c\<lparr>c_data := []\<rparr>) a v h e [] ks"
  using assms by (auto simp: core_def Let_def data_way_def)

lemma last_exchange:
  assumes "core g c a v h e [] ks" "c_data c = []" "c_send c = Ending tmp s" "c_recv c = Receiving r" "\<not> r_end_file r"
  shows "\<exists>c'. run_actions (net_act g True) [End_round False, Deliver, Finish, End_round True] c = Some c' \<and>
    both_left c' \<and> file_of (obslog (c_rw c')) = concat (map (chunks g) [0..<e])"
proof -
  have net: "net_act g True x c1 = Some c2" if "act g x c1 = Some (Inr c2)" "\<And>f k. x \<noteq> Send_round f k" for x c1 c2
    using that by (simp add: net_act_def fair_other)
  from end_round_act [OF assms(1,3)] assms(2-4) obtain c1 where
    1: "act g (End_round False) c = Some (Inr c1)" "core g c1 a v h e [Fin] ks" "c_send c1 = Ending tmp s"
      "c_recv c1 = Receiving r" by force
  from deliver_end_act [OF 1(2,4) assms(5)] 1(3) obtain c2 r2 where
    2: "act g Deliver c1 = Some (Inr c2)" "core g c2 a v h e [] ks" "c_send c2 = Ending tmp s"
      "c_recv c2 = Receiving r2" "r_end_file r2" by force
  from finish_act [OF 2(2,4,5)] 2(3) obtain c3 where
    3: "act g Finish c2 = Some (Inr c3)" "core g c3 a v h e [] (ks @ replicate 11 e)" "c_send c3 = Ending tmp s"
      "c_recv c3 = R_left" by force
  obtain k1 ks1 where "ks @ replicate 11 e = k1 # ks1" by (cases "ks @ replicate 11 e") auto
  from end_answer_act [OF 3(2) [unfolded this] 3(3)] 3(4) obtain c4 where
    4: "act g (End_round True) c3 = Some (Inr c4)" "core g c4 k1 v h e ([] @ [Fin]) ks1" "c_send c4 = S_left"
      "c_recv c4 = R_left" by force
  have "file_of (obslog (c_rw c4)) = concat (map (chunks g) [0..<e])"
    using coreD(8) [OF 4(2)] 4(4) by (simp add: recv_side_def)
  then show ?thesis
    using net [OF 1(1)] net [OF 2(1)] net [OF 3(1)] net [OF 4(1)] 4(3,4) by (simp add: both_left_def)
qed

text \<open>C25. The sender leaves its loop as soon as the file is read, with chunks that were not acknowledged,
  and never sends them again. So from every reachable configuration in which it exchanges the end
  packet and the receiver has not seen it, losses can make both functions return with the received
  file as it is then, however much of the transfer is missing; neither reports anything.\<close>

theorem closed_loop_truncates:
  assumes "reachable (net_init g) (net_step g True) c" "c_send c = Ending tmp s" "\<not> ended (c_recv c)"
  shows "\<exists>xs c'. run_actions (net_act g True) xs c = Some c' \<and> c_send c' = S_left \<and> c_recv c' = R_left \<and>
    file_of (obslog (c_rw c')) = file_of (obslog (c_rw c))"
proof -
  obtain a v h e fl ks where core: "core g c a v h e fl ks"
    using net.reachable_inv [OF assms(1)] by (auto simp: net_inv_def)
  obtain r where r: "c_recv c = Receiving r" "\<not> r_end_file r"
    using assms(3) by (auto simp: ended_def split: r_phase.splits)
  have fl: "file_of (obslog (c_rw c)) = concat (map (chunks g) [0..<e])"
    using coreD(8) [OF core] r(1) by (auto simp: recv_side_def dest: rinvD(15))
  from last_exchange [OF lost_data_core [OF core]] assms(2) r obtain c' where
    c': "run_actions (net_act g True) [End_round False, Deliver, Finish, End_round True] (c\<lparr>c_data := []\<rparr>) = Some c'"
      "both_left c'" "file_of (obslog (c_rw c')) = concat (map (chunks g) [0..<e])"
    by auto
  have "run_actions (net_act g True)
      (replicate (length (c_data c)) (Lose_data 0) @ [End_round False, Deliver, Finish, End_round True]) c = Some c'"
    unfolding run_append lose_all [OF refl] using c'(1) by simp
  with c'(2,3) fl show ?thesis by (metis both_left_def)
qed

section \<open>Such configurations\<close>

text \<open>A file of a few chunks; the acknowledgement of the first is repeated, and the copy stays on its
  way.\<close>

definition net_few :: "nat \<Rightarrow> int setting" where
  "net_few n = net_ex\<lparr>f_size := n, named := False\<rparr>"

lemma net_few_sel:
  "f_size (net_few n) = n" "r_win (net_few n) = 3" "\<not> named (net_few n)" "chunks (net_few n) = (\<lambda>j. [of_nat j])"
  "n < 2 ^ 31 \<Longrightarrow> good_setting (net_few n)"
  by (simp_all add: net_few_def net_ex_def good_setting_def)

lemma reach_act:
  "reachable i (net_step g True) c \<Longrightarrow> fair g x c \<Longrightarrow> act g x c = Some (Inr c') \<Longrightarrow> reachable i (net_step g True) c'"
proof -
  assume "reachable i (net_step g True) c" "fair g x c" "act g x c = Some (Inr c')"
  then have "net_act g True x c = Some c'" by (simp add: net_act_def)
  then have "net_step g True c c'" by (auto simp: net_step_def)
  with \<open>reachable i (net_step g True) c\<close> show ?thesis by (rule reach_step)
qed

lemma read_round:
  fixes g :: "'d setting"
  assumes "core g c a v h e fl ks" "c_send c = Sending s" "s_endFile s = 0" "int (c_pos c) - int a < v"
    and "named g \<longrightarrow> c_pos c < f_size g"
  shows "\<exists>c' s' fl'. act g (Send_round True False) c = Some (Inr c') \<and> fair g (Send_round True False) c \<and>
    core g c' a v h e fl' ks \<and> c_send c' = Sending s' \<and> c_recv c' = c_recv c \<and> c_acks c' = c_acks c \<and>
    c_pos c' = min (Suc (c_pos c)) (f_size g) \<and> (s_endFile s' = 1 \<longleftrightarrow> c_pos c = f_size g) \<and> s_endFile s' \<in> {0, 1} \<and>
    (subseq [e..<c_pos c] (nums fl) \<longrightarrow> subseq [e..<c_pos c'] (nums fl'))"
proof -
  note C = coreD [OF assms(1)]
  have inv: "sinv (chunks g) (r_win g) a (c_pos c) v s (c_sw c)"
    using C(7) by (simp add: send_side_def assms(2))
  have mr: "may_read s"
    using may_read_room [OF inv assms(3)] room_not_full assms(4) window_atD(3) [OF sinvD(1) [OF inv]] by blast
  have fair: "fair g (Send_round True False) c"
    using assms(4,5) mr by (auto simp add: fair_def assms(2) window_room_iff [OF inv])
  have "going s" using assms(3) by (simp add: going_def)
  from send_round_act [OF assms(1,2) this fair] obtain c' s' w' bss fl' where
    c': "c' = c\<lparr>c_send := Sending s', c_sw := w', c_data := c_data c @ bss, c_acks := c_acks c, c_pos := pos_after g True s c\<rparr>"
    and 1: "act g (Send_round True False) c = Some (Inr c')" "core g c' a v h e fl' ks"
      "s_endFile s' = 1 \<longleftrightarrow> c_pos c = f_size g"
      "subseq [e..<c_pos c] (nums fl) \<longrightarrow> subseq [e..<pos_after g True s c] (nums fl')"
    using mr by auto
  have "s_endFile s' \<in> {0, 1}" using coreD(7) [OF 1(2)] by (simp add: c' send_side_def sinv_def)
  then show ?thesis
    using 1 fair C(2) mr by (intro exI [of _ c'] exI [of _ s'] exI [of _ fl']) (auto simp: c' pos_after_def min_def)
qed

lemma acknowledged_twice:
  assumes "1 \<le> n" "n < 2 ^ 31"
  shows   "\<exists>c s r fl. reachable (net_init (net_few n)) (net_step (net_few n) True) c \<and> core (net_few n) c 0 1 1 1 fl [1, 1] \<and>
    c_send c = Sending s \<and> s_endFile s = 0 \<and> c_recv c = Receiving r \<and> \<not> r_end_file r \<and> c_pos c = 1"
proof -
  let ?g = "net_few n"
  let ?R = "reachable (net_init ?g) (net_step ?g True)"
  obtain c0 where "net_init net_ex c0" using net_ex_init by blast
  then have i: "net_init ?g c0" by (simp add: net_init_def net_few_sel(5) [OF assms(2)])
  then have R0: "?R c0" by (rule reach_init)
  obtain s0 where s0: "c_send c0 = Sending s0" "going s0" and core0: "core ?g c0 0 1 0 0 [] []"
    using net_init_core [OF i] by blast
  obtain r0 where r0: "c_recv c0 = Receiving r0" and p0: "c_pos c0 = 0" using i by (auto simp: net_init_def)
  have e0: "\<not> r_end_file r0" using coreD(12) [OF core0] r0 s0 by (auto simp: ended_def read_all_def)
  have z0: "s_endFile s0 = 0" using coreD(7) [OF core0] s0 by (auto simp: send_side_def sinv_def going_def)
  from read_round [OF core0 s0(1) z0] obtain c1 s1 fl1 where
    1: "act ?g (Send_round True False) c0 = Some (Inr c1)" "fair ?g (Send_round True False) c0"
      "core ?g c1 0 1 0 0 fl1 []" "c_send c1 = Sending s1" "c_recv c1 = Receiving r0" "c_pos c1 = 1"
      "s_endFile s1 = 0" "subseq [0..<1] (nums fl1)"
    using assms(1) by (auto simp: p0 r0 net_few_sel simp del: act.simps)
  have R1: "?R c1" by (rule reach_act [OF R0 1(2,1)])
  obtain j m fl2 where fl1: "fl1 = Chunk j m # fl2"
    using 1(8) coreD(11) [OF 1(3)] 1(4) by (cases fl1 rule: nums.cases) (auto simp: read_all_def)
  have "flight_ok 3 1 (Chunk j m)"
    using coreD(9) [OF 1(3)] by (simp add: fl1 data_way_def 1(6) net_few_sel)
  then have j: "j = 0" "m = 1" by auto
  from deliver_act [OF 1(3) [unfolded fl1] 1(5) e0] obtain c2 r2 w2 e2 b2 where
    c2: "c2 = c1\<lparr>c_recv := Receiving r2, c_rw := w2, c_data := tl (c_data c1), c_acks := c_acks c1 @ [b2]\<rparr>"
    and 2: "act ?g Deliver c1 = Some (Inr c2)" "core ?g c2 0 1 m e2 fl2 [e2]" "\<not> r_end_file r2" "0 < e2"
    using j by auto
  have R2: "?R c2" by (rule reach_act [OF R1 _ 2(1)]) (simp add: fair_def)
  have e2: "e2 = 1" using coreD(4) [OF 2(2)] 2(4) j by simp
  let ?c3 = "c2\<lparr>c_acks := repeat_at 0 (c_acks c2)\<rparr>"
  have core3: "core ?g ?c3 0 1 1 1 fl2 [1, 1]"
    using channel_core(4) [OF 2(2), of 0] by (simp add: repeat_at_def e2 j)
  have R3: "?R ?c3" by (rule reach_act [OF R2, of "Repeat_ack 0"]) (simp_all add: fair_def c2)
  from R3 core3 1(4,6,7) 2(3) show ?thesis
    by (intro exI [of _ ?c3] exI [of _ s1] exI [of _ r2] exI [of _ fl2]) (simp add: c2)
qed

lemma first_acknowledged:
  assumes "1 \<le> n" "n < 2 ^ 31"
  shows "\<exists>c s r fl. reachable (net_init (net_few n)) (net_step (net_few n) True) c \<and> core (net_few n) c 1 3 1 1 fl [1] \<and>
    c_send c = Sending s \<and> s_endFile s = 0 \<and> c_recv c = Receiving r \<and> \<not> r_end_file r \<and> c_pos c = 1"
proof -
  let ?g = "net_few n"
  obtain c3 s3 r3 fl3 where R3: "reachable (net_init ?g) (net_step ?g True) c3" and core3: "core ?g c3 0 1 1 1 fl3 [1, 1]"
    and c3: "c_send c3 = Sending s3" "s_endFile s3 = 0" "c_recv c3 = Receiving r3" "\<not> r_end_file r3" "c_pos c3 = 1"
    using acknowledged_twice [OF assms] by blast
  have s3: "going s3" "c_acks c3 \<noteq> []"
    using c3(2) coreD(10) [OF core3] by (auto simp: going_def ack_way_def)
  have f3: "fair ?g (Send_round False True) c3" using c3(1) by (simp add: fair_def)
  from send_round_act [OF core3 c3(1) s3(1) f3] s3(2) obtain c4 s4 fl4 where
    4: "act ?g (Send_round False True) c3 = Some (Inr c4)" "core ?g c4 1 3 1 1 fl4 [1]" "c_send c4 = Sending s4"
      "s_endFile s4 \<noteq> 1" "c_recv c4 = Receiving r3" "c_pos c4 = 1"
    using c3(2) by (auto simp: net_few_sel pos_after_def c3)
  have "s_endFile s4 = 0" using coreD(7) [OF 4(2)] 4(3,4) by (auto simp: send_side_def sinv_def)
  with 4 c3(4) reach_act [OF R3 f3 4(1)] show ?thesis by blast
qed

text \<open>The end packet is about to be exchanged.\<close>

definition at_end :: "nat \<Rightarrow> config \<Rightarrow> bool" where
  "at_end n c \<longleftrightarrow> reachable (net_init (net_few n)) (net_step (net_few n) True) c \<and>
     (\<exists>v h fl tmp s. core (net_few n) c 1 v h 1 fl [1] \<and> c_send c = Ending tmp s) \<and> \<not> ended (c_recv c)"

lemma at_endI:
  assumes "reachable (net_init (net_few n)) (net_step (net_few n) True) c" "core (net_few n) c 1 v h 1 fl [1]"
    and "c_send c = Sending s" "s_endFile s = 1" "c_recv c = Receiving r" "\<not> r_end_file r"
  shows "\<exists>c. at_end n c"
proof -
  have "\<not> going s" using assms(4) by (simp add: going_def)
  from start_end_act [OF assms(2,3) this] obtain s6 w6 where
    6: "act (net_few n) Start_end c = Some (Inr (c\<lparr>c_send := Ending 12 s6, c_sw := w6\<rparr>))"
      "core (net_few n) (c\<lparr>c_send := Ending 12 s6, c_sw := w6\<rparr>) 1 v h 1 fl [1]" by blast
  have "reachable (net_init (net_few n)) (net_step (net_few n) True) (c\<lparr>c_send := Ending 12 s6, c_sw := w6\<rparr>)"
    by (rule reach_act [OF assms(1) _ 6(1)]) (simp add: fair_def)
  with 6(2) assms(5,6) have "at_end n (c\<lparr>c_send := Ending 12 s6, c_sw := w6\<rparr>)"
    by (force simp: at_end_def ended_def)
  then show ?thesis by blast
qed

lemma at_end_one: "\<exists>c. at_end 1 c"
proof -
  obtain c s r fl where R: "reachable (net_init (net_few 1)) (net_step (net_few 1) True) c"
    and c: "core (net_few 1) c 1 3 1 1 fl [1]" "c_send c = Sending s" "s_endFile s = 0" "c_recv c = Receiving r"
      "\<not> r_end_file r" "c_pos c = 1"
    using first_acknowledged [of 1] by auto
  from read_round [OF c(1,2,3)] obtain c1 s1 fl1 where
    1: "act (net_few 1) (Send_round True False) c = Some (Inr c1)" "fair (net_few 1) (Send_round True False) c"
      "core (net_few 1) c1 1 3 1 1 fl1 [1]" "c_send c1 = Sending s1" "s_endFile s1 = 1" "c_recv c1 = Receiving r"
    by (auto simp: net_few_sel c(4,6))
  show ?thesis by (rule at_endI [OF reach_act [OF R 1(2,1)] 1(3-6) c(5)])
qed

lemma at_end_two: "\<exists>c. at_end 2 c"
proof -
  obtain c s r fl where R: "reachable (net_init (net_few 2)) (net_step (net_few 2) True) c"
    and c: "core (net_few 2) c 1 3 1 1 fl [1]" "c_send c = Sending s" "s_endFile s = 0" "c_recv c = Receiving r"
      "\<not> r_end_file r" "c_pos c = 1"
    using first_acknowledged [of 2] by auto
  from read_round [OF c(1,2,3)] obtain c1 s1 fl1 where
    1: "act (net_few 2) (Send_round True False) c = Some (Inr c1)" "fair (net_few 2) (Send_round True False) c"
      "core (net_few 2) c1 1 3 1 1 fl1 [1]" "c_send c1 = Sending s1" "s_endFile s1 = 0" "c_recv c1 = Receiving r"
      "c_pos c1 = 2"
    by (auto simp: net_few_sel c(4,6))
  from read_round [OF 1(3,4,5)] obtain c2 s2 fl2 where
    2: "act (net_few 2) (Send_round True False) c1 = Some (Inr c2)" "fair (net_few 2) (Send_round True False) c1"
      "core (net_few 2) c2 1 3 1 1 fl2 [1]" "c_send c2 = Sending s2" "s_endFile s2 = 1" "c_recv c2 = Receiving r"
    by (auto simp: net_few_sel 1(6,7))
  show ?thesis by (rule at_endI [OF reach_act [OF reach_act [OF R 1(2,1)] 2(2,1)] 2(3-6) c(5)])
qed

section \<open>Two losses\<close>

theorem closed_loop_orphans_witness:
  "\<exists>c xs c'. reachable (net_init (net_few 1)) (net_step (net_few 1) True) c \<and>
    run_actions (net_act (net_few 1) True) xs c = Some c' \<and> c_send c' = S_left \<and>
    (\<forall>ys c''. run_actions (net_act (net_few 1) True) ys c' = Some c'' \<longrightarrow> c_recv c'' \<noteq> R_left)"
proof -
  obtain c v h fl tmp s where c: "reachable (net_init (net_few 1)) (net_step (net_few 1) True) c"
    "core (net_few 1) c 1 v h 1 fl [1]" "c_send c = Ending tmp s" "\<not> ended (c_recv c)"
    using at_end_one by (auto simp: at_end_def)
  have "c_acks c \<noteq> []" using coreD(10) [OF c(2)] by (auto simp: ack_way_def)
  from closed_loop_orphans [OF c(1,3) this c(4)] c(1) show ?thesis by blast
qed

theorem closed_loop_truncates_witness:
  "\<exists>c xs c'. reachable (net_init (net_few 2)) (net_step (net_few 2) True) c \<and>
    run_actions (net_act (net_few 2) True) xs c = Some c' \<and> c_send c' = S_left \<and> c_recv c' = R_left \<and>
    file_of (obslog (c_rw c')) = [0] \<and> concat (map (chunks (net_few 2)) [0..<f_size (net_few 2)]) = [0, 1]"
proof -
  obtain c v h fl tmp s where c: "reachable (net_init (net_few 2)) (net_step (net_few 2) True) c"
    "core (net_few 2) c 1 v h 1 fl [1]" "c_send c = Ending tmp s" "\<not> ended (c_recv c)"
    using at_end_two by (auto simp: at_end_def)
  have "file_of (obslog (c_rw c)) = [0]"
    using coreD(8) [OF c(2)] c(4)
    by (auto simp: recv_side_def ended_def net_few_sel dest: rinvD(15) split: r_phase.splits)
  moreover have "concat (map (chunks (net_few 2)) [0..<f_size (net_few 2)]) = [0, 1]"
    by (simp add: net_few_sel numeral_2_eq_2)
  ultimately show ?thesis using closed_loop_truncates [OF c(1,3,4)] c(1) by metis
qed

end
