(* ===== verification/Network_Recovery.thy ===== *)
theory Network_Recovery
  imports Network_Loss
begin

text \<open>
  Recovery from losses: while the sender is in its main loop and has not read the end of the file, the
  timer sends the oldest chunk again until everything read is acknowledged. So whatever was lost before
  that, the transfer can still be completed.
\<close>

section \<open>Everything on its way arrives\<close>

text \<open>A configuration in which the sender has read \<open>n\<close> chunks and not yet the end of the file.\<close>

definition midway ::
    "'d setting \<Rightarrow> nat \<Rightarrow> config \<Rightarrow> nat \<Rightarrow> int \<Rightarrow> nat \<Rightarrow> nat \<Rightarrow> flight list \<Rightarrow> nat list \<Rightarrow> bool" where
  "midway g n c a v h e fl ks \<longleftrightarrow> core g c a v h e fl ks \<and> c_pos c = n \<and>
     (\<exists>s. c_send c = Sending s \<and> s_endFile s = 0)"

lemma midwayD:
  assumes "midway g n c a v h e fl ks"
  shows "core g c a v h e fl ks" "c_pos c = n" "a \<le> e" "e \<le> n" "Fin \<notin> set fl" "\<not> ended (c_recv c)"
    "\<exists>s. c_send c = Sending s \<and> s_endFile s = 0 \<and> going s"
    "\<exists>r. c_recv c = Receiving r \<and> \<not> r_end_file r"
proof -
  obtain s where s: "core g c a v h e fl ks" "c_pos c = n" "c_send c = Sending s" "s_endFile s = 0"
    using assms by (auto simp: midway_def)
  note C = coreD [OF s(1)]
  show "core g c a v h e fl ks" "c_pos c = n" "a \<le> e" using s C(3) by simp_all
  show "e \<le> n" using C(4,5) s(2) by simp
  show "Fin \<notin> set fl" and e: "\<not> ended (c_recv c)" using C(11,12) s(3) by (auto simp: read_all_def)
  show "\<exists>s. c_send c = Sending s \<and> s_endFile s = 0 \<and> going s" using s(3,4) by (simp add: going_def)
  show "\<exists>r. c_recv c = Receiving r \<and> \<not> r_end_file r"
    using e by (auto simp: ended_def split: r_phase.splits)
qed

lemma net_actI: "fair g x c \<Longrightarrow> \<not> loses x \<Longrightarrow> act g x c = Some (Inr c') \<Longrightarrow> net_act g False x c = Some c'"
  by (simp add: net_act_def)

lemma run_trans:
  "run_actions f xs c = Some c1 \<Longrightarrow> run_actions f ys c1 = Some c2 \<Longrightarrow> \<exists>zs. run_actions f zs c = Some c2"
  by (rule exI [of _ "xs @ ys"]) (simp add: run_append)

lemma run_Cons: "f x c = Some c1 \<Longrightarrow> run_actions f xs c1 = Some c2 \<Longrightarrow> run_actions f (x # xs) c = Some c2"
  by simp

lemma deliver_midway:
  assumes "midway g n c a v h e (y # fl) ks"
  shows "\<exists>c' m e'. net_act g False Deliver c = Some c' \<and> midway g n c' a v m e' fl (ks @ [e']) \<and> e \<le> e' \<and>
    (\<forall>i. y = Chunk e i \<longrightarrow> e < e')"
proof -
  note M = midwayD [OF assms]
  from M(5) obtain j m where y: "y = Chunk j m" by (cases y) auto
  obtain r where r: "c_recv c = Receiving r" "\<not> r_end_file r" using M(8) by blast
  from deliver_act [OF M(1) [unfolded y] r] obtain c' e' where
    d: "act g Deliver c = Some (Inr c')" "core g c' a v m e' fl (ks @ [e'])" "e \<le> e'" "j = e \<longrightarrow> e < e'"
      "c_send c' = c_send c" "c_pos c' = c_pos c" by force
  have "net_act g False Deliver c = Some c'" using d(1) by (intro net_actI) (simp_all add: fair_other loses_def)
  with d M(2,7) y show ?thesis by (auto simp: midway_def)
qed

lemma drain_data:
  "midway g n c a v h e fl ks \<Longrightarrow>
     \<exists>xs c' h' e' ks'. run_actions (net_act g False) xs c = Some c' \<and> midway g n c' a v h' e' [] ks'"
proof (induction fl arbitrary: c h e ks)
  case Nil
  then show ?case by (intro exI [of _ "[]"]) auto
next
  case (Cons y fl)
  from deliver_midway [OF Cons.prems] obtain c1 m e1 where
    d: "net_act g False Deliver c = Some c1" "midway g n c1 a v m e1 fl (ks @ [e1])" by blast
  from Cons.IH [OF d(2)] run_Cons [of "net_act g False" Deliver, OF d(1)] show ?case by blast
qed

text \<open>An acknowledgement is taken without anything being written.\<close>

lemma ack_midway:
  assumes "midway g n c a v h e [] (k # ks)"
  shows "\<exists>c' v'. net_act g False (Send_round False True) c = Some c' \<and> midway g n c' k v' h e [] ks"
proof -
  note M = midwayD [OF assms]
  obtain s where s: "c_send c = Sending s" "s_endFile s = 0" "going s" using M(7) by blast
  have f: "fair g (Send_round False True) c" by (simp add: fair_def s(1))
  from ack_round_act [OF M(1) s(1,3)] obtain s' w' where
    1: "act g (Send_round False True) c =
        Some (Inr (c\<lparr>c_send := Sending s', c_sw := w', c_acks := tl (c_acks c)\<rparr>))"
      "s_endFile s' = s_endFile s" "c_acks c \<noteq> []" by blast
  have data: "c_data c = []" using coreD(9) [OF M(1)] by (simp add: data_way_def)
  from send_round_act [OF M(1) s(1,3) f] 1(3) obtain c' v' fl' where
    2: "act g (Send_round False True) c = Some (Inr c')" "core g c' k v' h e fl' ks"
    by auto
  have c': "c' = c\<lparr>c_send := Sending s', c_sw := w', c_acks := tl (c_acks c)\<rparr>" using 1(1) 2(1) by simp
  have "fl' = []" using coreD(9) [OF 2(2)] data by (simp add: c' data_way_def)
  with 2(2) M(2) 1(2) s(2) have "midway g n c' k v' h e [] ks" by (simp add: midway_def c')
  moreover have "net_act g False (Send_round False True) c = Some c'"
    using f 2(1) by (intro net_actI) (simp_all add: loses_def)
  ultimately show ?thesis by blast
qed

lemma drain_acks:
  "midway g n c a v h e [] ks \<Longrightarrow>
     \<exists>xs c' v'. run_actions (net_act g False) xs c = Some c' \<and> midway g n c' (last (a # ks)) v' h e [] []"
proof (induction ks arbitrary: c a v)
  case Nil
  then show ?case by (intro exI [of _ "[]"]) auto
next
  case (Cons k ks)
  from ack_midway [OF Cons.prems] obtain c1 v1 where
    k: "net_act g False (Send_round False True) c = Some c1" "midway g n c1 k v1 h e [] ks" by blast
  from Cons.IH [OF k(2)] obtain xs c2 v2 where
    "run_actions (net_act g False) xs c1 = Some c2" "midway g n c2 (last (k # ks)) v2 h e [] []" by blast
  moreover have "last (a # k # ks) = last (k # ks)" by simp
  ultimately show ?case using run_Cons [of "net_act g False", OF k(1)] by metis
qed

section \<open>The timer\<close>

lemma resend_midway:
  assumes "midway g n c a v h e [] []" "a < n" "named g"
  shows "\<exists>c'. net_act g False (Send_round False False) c = Some c' \<and> midway g n c' a v h e [Chunk a n] []"
proof -
  note M = midwayD [OF assms(1)]
  note C = coreD [OF M(1)] and G = good_settingD [OF coreD(1) [OF M(1)]]
  obtain s where s: "c_send c = Sending s" "s_endFile s = 0" "going s" using M(7) by blast
  have inv: "sinv (chunks g) (r_win g) a n v s (c_sw c)"
    using C(7) M(2) by (simp add: send_side_def s(1))
  let ?s0 = "s\<lparr>s_sent := 0, s_ack_received := 0\<rparr>"
  have i0: "sinv (chunks g) (r_win g) a n v ?s0 (c_sw c)" using inv by (simp add: sinv_def)
  have pos: "a < n \<or> r_win g \<le> n" "0 < n" using assms(2) by simp_all
  from resend_ok [OF i0 pos, of "crc g"] assms(2) obtain bs s' where
    r: "resend_oldest (crc g) ?s0 (c_sw c) = Inr (SRunning s', sent (c_sw c) bs)"
      "data_packet (crc g) (chunks g) a bs" "sinv (chunks g) (r_win g) a n v s' (sent (c_sw c) bs)"
      "s_endFile s' = s_endFile s" by (auto simp: oldest_def)
  let ?ev = "round_event g False False c"
  let ?c = "c\<lparr>c_send := Sending s', c_sw := sent (c_sw c) bs, c_data := [bs]\<rparr>"
  have ev: "ev_file ?ev = None" "ev_sock ?ev = None" by (simp_all add: round_event_def)
  have "send_step (crc g) (dops g) (named g) (sock_fd g) (file_fd g) ?ev s (c_sw c) =
      Inr (SRunning s', sent (c_sw c) bs)"
    using r(1) G(3,4) ev assms(3) by (simp add: send_step_def timer_part_def Let_def)
  moreover have "newly_sent (c_sw c) (sent (c_sw c) bs) = [bs]"
    using newly_sent_append [of "sent (c_sw c) bs" "c_sw c" "[Sent bs]"] sinvD(17) [OF inv] by simp
  moreover have "c_data c = []" using C(9) by (simp add: data_way_def)
  ultimately have "act g (Send_round False False) c = Some (Inr ?c)"
    using s(1,3) by (simp add: after_sender_def pos_after_def)
  moreover have "fair g (Send_round False False) c"
    using slot_filled_iff [OF inv] pos by (simp add: fair_def s(1))
  ultimately have "net_act g False (Send_round False False) c = Some ?c"
    by (intro net_actI) (simp_all add: loses_def)
  moreover have "data_way g n h [Chunk a n] [bs]"
    using r(2) assms(2) C(5,6) M(2) by (simp add: data_way_def)
  then have "midway g n ?c a v h e [Chunk a n] []"
    using M(1,2) r(3,4) s by (simp add: midway_def core_def Let_def send_side_def read_all_def)
  ultimately show ?thesis by blast
qed

text \<open>One turn of the timer moves the window: the oldest chunk arrives, or had arrived before, and the
  acknowledgement tells so.\<close>

lemma recover_one:
  assumes "midway g n c a v h e [] []" "a < n" "named g"
  shows "\<exists>xs c' a' v' h' e'. run_actions (net_act g False) xs c = Some c' \<and> midway g n c' a' v' h' e' [] [] \<and> a < a'"
proof -
  from resend_midway [OF assms] obtain c1 where
    1: "net_act g False (Send_round False False) c = Some c1" "midway g n c1 a v h e [Chunk a n] []" by blast
  from deliver_midway [OF 1(2)] obtain c2 m e2 where
    2: "net_act g False Deliver c1 = Some c2" "midway g n c2 a v m e2 [] [e2]" "e \<le> e2" "a = e \<longrightarrow> e < e2" by auto
  from ack_midway [OF 2(2)] obtain c3 v3 where
    3: "net_act g False (Send_round False True) c2 = Some c3" "midway g n c3 e2 v3 m e2 [] []" by blast
  have "run_actions (net_act g False) [Send_round False False, Deliver, Send_round False True] c = Some c3"
    using 1(1) 2(1) 3(1) by simp
  moreover have "a < e2" using 2(3,4) midwayD(3) [OF assms(1)] by linarith
  ultimately show ?thesis using 3(2) by blast
qed

lemma recover_all:
  assumes "named g"
  shows "midway g n c a v h e [] [] \<Longrightarrow>
    \<exists>xs c' v' h' e'. run_actions (net_act g False) xs c = Some c' \<and> midway g n c' n v' h' e' [] []"
proof (induction "n - a" arbitrary: c a v h e rule: less_induct)
  case less
  note M = midwayD [OF less.prems]
  show ?case
  proof (cases "a < n")
    case False
    with M(3,4) have "a = n" by simp
    with less.prems show ?thesis by (intro exI [of _ "[]"]) auto
  next
    case True
    from recover_one [OF less.prems True assms] obtain xs c1 a1 v1 h1 e1 where
      1: "run_actions (net_act g False) xs c = Some c1" "midway g n c1 a1 v1 h1 e1 [] []" "a < a1" by blast
    from less.hyps [OF _ 1(2)] 1(3) True obtain ys c2 v2 h2 e2 where
      2: "run_actions (net_act g False) ys c1 = Some c2" "midway g n c2 n v2 h2 e2 [] []" by fastforce
    from run_trans [OF 1(1) 2(1)] 2(2) show ?thesis by blast
  qed
qed

lemma midway_intact: "midway g n c n v h e [] [] \<Longrightarrow> net_inv g False c"
  using midwayD [of g n c n v h e "[]" "[]"] unfolding net_inv_def intact_def by fastforce

lemma midway_recovers:
  assumes "named g" "midway g n c a v h e fl ks"
  shows "\<exists>xs c'. run_actions (net_act g False) xs c = Some c' \<and> net_inv g False c'"
proof -
  from drain_data [OF assms(2)] obtain xs1 c1 h1 e1 ks1 where
    1: "run_actions (net_act g False) xs1 c = Some c1" "midway g n c1 a v h1 e1 [] ks1" by blast
  from drain_acks [OF 1(2)] obtain xs2 c2 v2 where
    2: "run_actions (net_act g False) xs2 c1 = Some c2" "midway g n c2 (last (a # ks1)) v2 h1 e1 [] []" by blast
  from recover_all [OF assms(1) 2(2)] obtain xs3 c3 v3 h3 e3 where
    3: "run_actions (net_act g False) xs3 c2 = Some c3" "midway g n c3 n v3 h3 e3 [] []" by blast
  from run_trans [OF 1(1) 2(1)] run_trans [OF _ 3(1)] midway_intact [OF 3(2)] show ?thesis by blast
qed

section \<open>The transfer is completed after losses\<close>

text \<open>C4. Recovery: in every reachable configuration of the system that loses datagrams, as long as the
  sender has not read the end of its file, the transfer can be completed if no more is lost from
  then on: retransmissions bring both programs back into step, both functions return, and the
  received file is the file sent. The sender must have been given a file name, because the code
  does not retransmit what it reads from standard input, and a file of at least a window's worth of
  chunks, because its timer reads an uninitialised slot otherwise. Of the environment only \<open>keeps_window\<close>
  is asked: once 256 chunks were read, the file is not read while the window is full.\<close>

theorem closed_loop_recovers:
  assumes "reachable (net_init g) (loop_step g True) c" "c_send c = Sending s" "s_endFile s = 0"
    and "named g" "r_win g \<le> f_size g"
  shows "\<exists>xs c'. run_actions (net_act g False) xs c = Some c' \<and> c_send c' = S_left \<and> c_recv c' = R_left \<and>
    file_of (obslog (c_rw c')) = concat (map (chunks g) [0..<f_size g])"
proof -
  obtain a v h e fl ks where "core g c a v h e fl ks"
    using loop.reachable_inv [OF assms(1)] by (auto simp: net_inv_def)
  with assms(2,3) have "midway g (c_pos c) c a v h e fl ks" by (simp add: midway_def)
  from midway_recovers [OF assms(4) this] obtain xs c1 where
    1: "run_actions (net_act g False) xs c = Some c1" "net_inv g False c1" by blast
  from can_complete [OF 1(2)] assms(5) obtain ys c2 where
    2: "run_actions (net_act g False) ys c1 = Some c2" "net_inv g False c2" "both_left c2" by blast
  have "file_of (obslog (c_rw c2)) = concat (map (chunks g) [0..<f_size g])"
    using net_inv_file [OF 2(2)] 2(3) by (auto simp: both_left_def ended_def)
  with run_trans [OF 1(1) 2(1)] 2(3) show ?thesis unfolding both_left_def by blast
qed

text \<open>The first packet of the transfer is lost.\<close>

lemma first_lost:
  assumes i: "net_init g c0" and N: "1 < f_size g"
  shows "\<exists>c s. reachable (net_init g) (loop_step g True) c \<and> c_send c = Sending s \<and> s_endFile s = 0 \<and>
    \<not> window_room s \<and> c_pos c = 1 \<and> c_data c = [] \<and> c_acks c = [] \<and> \<not> ended (c_recv c) \<and> file_of (obslog (c_rw c)) = []"
proof -
  obtain s0 where s0: "c_send c0 = Sending s0" "going s0" and core0: "core g c0 0 1 0 0 [] []"
    using net_init_core [OF i] by blast
  have p0: "c_pos c0 = 0" "c_acks c0 = []" using i by (simp_all add: net_init_def)
  have z0: "s_endFile s0 = 0" using coreD(7) [OF core0] s0 by (auto simp: send_side_def sinv_def going_def)
  have r: "int (c_pos c0) - int 0 < 1" "named g \<longrightarrow> c_pos c0 < f_size g" using N by (simp_all add: p0)
  from read_round [OF core0 s0(1) z0 r] obtain c1 s1 where
    1: "act g (Send_round True False) c0 = Some (Inr c1)" "fair g (Send_round True False) c0"
      "c_send c1 = Sending s1" "c_acks c1 = c_acks c0" "c_pos c1 = min (Suc (c_pos c0)) (f_size g)"
      "s_endFile s1 = 1 \<longleftrightarrow> c_pos c0 = f_size g" "s_endFile s1 \<in> {0, 1}"
    and core1: "\<exists>fl. core g c1 0 1 0 0 fl []" by blast
  from 1(6,7) N have z: "s_endFile s1 = 0" by (auto simp: p0)
  have p1: "c_pos c1 = 1" using 1(5) N by (simp add: p0)
  obtain fl where core1: "core g c1 0 1 0 0 fl []" using core1 by blast
  have inv: "sinv (chunks g) (r_win g) 0 1 1 s1 (c_sw c1)"
    using coreD(7) [OF core1] p1 by (simp add: send_side_def 1(3))
  have room: "\<not> window_room s1" using window_room_iff [OF inv] by simp
  have out: "file_of (obslog (c_rw c1)) = []" "\<not> ended (c_recv c1)"
    using coreD(8,12) [OF core1] 1(3) by (auto simp: recv_side_def read_all_def dest: rinvD(15) split: r_phase.splits)
  have "net_act g True (Send_round True False) c0 = Some c1" using 1(1,2) by (simp add: net_act_def del: act.simps)
  then have run: "run_actions (net_act g True) (Send_round True False # replicate (length (c_data c1)) (Lose_data 0)) c0 =
      Some (c1\<lparr>c_data := []\<rparr>)"
    using lose_all [OF refl, of g c1] by simp
  have "reachable (net_init g) (net_step g True) (c1\<lparr>c_data := []\<rparr>)"
    by (rule run_reachable [OF _ reach_init [of "net_init g", OF i] run]) (auto simp: net_step_def)
  then have "reachable (net_init g) (loop_step g True) (c1\<lparr>c_data := []\<rparr>)" by (rule reachable_net_loop)
  with z p0 p1 1(3,4) out room show ?thesis
    by (intro exI [of _ "c1\<lparr>c_data := []\<rparr>"] exI [of _ s1]) simp
qed

theorem closed_loop_recovers_witness:
  "\<exists>c xs c'. reachable (net_init net_ex) (loop_step net_ex True) c \<and> c_pos c = 1 \<and> c_data c = [] \<and>
    file_of (obslog (c_rw c)) = [] \<and>
    run_actions (net_act net_ex False) xs c = Some c' \<and> c_send c' = S_left \<and> c_recv c' = R_left \<and>
    file_of (obslog (c_rw c')) = concat (map (\<lambda>j. [of_nat j]) [0..<1000])"
proof -
  obtain c s where c: "reachable (net_init net_ex) (loop_step net_ex True) c" "c_send c = Sending s" "s_endFile s = 0"
    "c_pos c = 1" "c_data c = []" "file_of (obslog (c_rw c)) = []" using net_ex_init first_lost [of net_ex] by (force simp: net_ex_sel)
  have n: "named net_ex" "r_win net_ex \<le> f_size net_ex" by (simp_all add: net_ex_def)
  from closed_loop_recovers [OF c(1-3) n] c show ?thesis unfolding net_ex_sel by blast
qed

section \<open>Without a file name\<close>

text \<open>The sender has no file name, does not read its input because the code sees that its window is full, and
  nothing is on its way.\<close>

definition stranded :: "'d setting \<Rightarrow> config \<Rightarrow> bool" where
  "stranded g c \<longleftrightarrow> \<not> named g \<and> c_data c = [] \<and> c_acks c = [] \<and> \<not> ended (c_recv c) \<and>
     (\<exists>s. c_send c = Sending s \<and> s_endFile s = 0 \<and> \<not> may_read s)"

lemma stranded_step:
  assumes "stranded g c" "act g x c = Some (Inr c')"
  shows "stranded g c' \<and> c_pos c' = c_pos c \<and> c_rw c' = c_rw c"
proof -
  obtain s where s: "c_send c = Sending s" "s_endFile s = 0" "\<not> may_read s" "going s"
    and st: "\<not> named g" "c_data c = []" "c_acks c = []" "\<not> ended (c_recv c)"
    using assms(1) by (auto simp: stranded_def going_def)
  let ?s0 = "s\<lparr>s_sent := 0, s_ack_received := 0\<rparr>"
  have "stranded g c' \<and> c_pos c' = c_pos c \<and> c_rw c' = c_rw c" if x: "x = Send_round fl k" for fl k
  proof -
    have k: "\<not> k" using assms(2) s(1) st(3) by (auto simp: x split: if_splits)
    have "ev_sock (round_event g fl False c) = None" by (simp add: round_event_def)
    then have "send_step (crc g) (dops g) (named g) (sock_fd g) (file_fd g) (round_event g fl False c) s (c_sw c) =
        (if sock_fd g < 0 \<or> file_fd g < 0 then Inl OutOfBounds else Inr (SRunning ?s0, c_sw c))"
      using s(3) st(1) by (auto simp: send_step_def timer_part_def Let_def split: option.splits)
    moreover have "newly_sent w w = []" for w by (simp add: newly_sent_def)
    ultimately have "c' = c\<lparr>c_send := Sending ?s0\<rparr>"
      using assms(2) k s(1,3,4) st by (auto simp: x after_sender_def pos_after_def split: if_splits)
    then show ?thesis using st s(2,3) by (simp add: stranded_def may_read_def Let_def)
  qed
  with assms(2) s(1,4) st show ?thesis
    by (cases x) (auto simp: ended_def split: if_splits r_phase.splits)
qed

lemma stranded_run:
  "stranded g c \<Longrightarrow> run_actions (loop_act g lossy) xs c = Some c' \<Longrightarrow>
     stranded g c' \<and> c_pos c' = c_pos c \<and> c_rw c' = c_rw c"
proof (induction xs arbitrary: c)
  case (Cons x xs)
  then obtain c1 where c1: "loop_act g lossy x c = Some c1" "run_actions (loop_act g lossy) xs c1 = Some c'"
    by (auto split: option.splits)
  then have "act g x c = Some (Inr c1)" by (simp add: loop_act_iff)
  from stranded_step [OF Cons.prems(1) this] Cons.IH [OF _ c1(2)] show ?case by simp
qed simp

text \<open>C24. When the sender reads from standard input, a loss can stop the transfer for ever: the timer
  retransmits only when a file name was given. Before the numbers wrap (fewer than 256 chunks read),
  once as many chunks are unacknowledged as the window holds and nothing is on its way in either
  direction, the code's own test (\<open>may_read\<close>) keeps it from reading. Whatever happens later, also if its input
  is ready in every round: nothing more is read, sent or written, and the sender does not return.\<close>

theorem stdin_never_retransmits:
  assumes "reachable (net_init g) (loop_step g True) c" "c_pos c < 256" "\<not> named g"
    and "c_send c = Sending s" "s_endFile s = 0" "\<not> window_room s"
    and "c_data c = []" "c_acks c = []" "\<not> ended (c_recv c)"
    and "run_actions (loop_act g lossy) xs c = Some c'"
  shows "c_send c' \<noteq> S_left \<and> c_pos c' = c_pos c \<and> c_data c' = [] \<and> c_acks c' = [] \<and> c_rw c' = c_rw c"
proof -
  obtain a v h e fl ks where core: "core g c a v h e fl ks"
    using loop.reachable_inv [OF assms(1)] by (auto simp: net_inv_def)
  have "sinv (chunks g) (r_win g) a (c_pos c) v s (c_sw c)"
    using coreD(7) [OF core] by (simp add: send_side_def assms(4))
  from sinv_may_read [OF this assms(5,2)] have "stranded g c" using assms(3-9) by (simp add: stranded_def)
  from stranded_run [OF this assms(10)] show ?thesis by (auto simp: stranded_def)
qed

theorem stdin_never_retransmits_witness:
  "\<exists>c. reachable (net_init (net_few 2)) (loop_step (net_few 2) True) c \<and> c_pos c = 1 \<and> f_size (net_few 2) = 2 \<and>
    file_of (obslog (c_rw c)) = [] \<and>
    (\<forall>xs c'. run_actions (loop_act (net_few 2) False) xs c = Some c' \<longrightarrow>
       c_send c' \<noteq> S_left \<and> c_pos c' = 1 \<and> c_data c' = [] \<and> c_rw c' = c_rw c)"
proof -
  obtain c0 where "net_init net_ex c0" using net_ex_init by blast
  then have i: "net_init (net_few 2) c0" by (simp add: net_init_def net_few_sel(5))
  have "1 < f_size (net_few 2)" by (simp add: net_few_sel)
  from first_lost [OF i this] obtain c s where
    c: "reachable (net_init (net_few 2)) (loop_step (net_few 2) True) c" "c_send c = Sending s" "s_endFile s = 0"
      "\<not> window_room s" "c_pos c = 1" "c_data c = []" "c_acks c = []" "\<not> ended (c_recv c)" "file_of (obslog (c_rw c)) = []"
    by blast
  have n: "c_pos c < 256" "\<not> named (net_few 2)" using c(5) by (simp_all add: net_few_sel)
  from stdin_never_retransmits [OF c(1) n c(2-4,6-8)] c(1,5,9) show ?thesis by (auto simp: net_few_sel)
qed

end
