(* ===== verification/Refinement_Map.thy ===== *)
theory Refinement_Map
  imports Reachability
begin

text \<open>
  Refinement of transition systems, on top of theory Reachability: the interface between a system with
  an invariant and its abstract specification.
\<close>

text \<open>A refinement: the states are mapped to those of an abstract system, in which every step is a step
  or nothing. Then only reachable abstract states are met.\<close>

locale refinement_system = invariant_system +
  fixes a_init :: "'a \<Rightarrow> bool"
    and a_step :: "'a \<Rightarrow> 'a \<Rightarrow> bool"
    and abs_state :: "'c \<Rightarrow> 'a"
  assumes abs_init: "init c \<Longrightarrow> a_init (abs_state c)"
    and abs_step: "inv c \<Longrightarrow> step c c' \<Longrightarrow> abs_state c' = abs_state c \<or> a_step (abs_state c) (abs_state c')"
begin

lemma abs_reachable_step:
  "reachable init step c \<Longrightarrow> step c c' \<Longrightarrow> abs_state c' = abs_state c \<or> a_step (abs_state c) (abs_state c')"
  using reachable_inv by (rule abs_step)

lemma abs_reachable: "reachable init step c \<Longrightarrow> reachable a_init a_step (abs_state c)"
proof (induction rule: reachable.induct)
  case (reach_init c)
  then show ?case by (intro reachable.reach_init abs_init)
next
  case (reach_step c c')
  with abs_reachable_step [OF reach_step(1,2)] show ?case by (auto intro: reachable.reach_step)
qed

end

end
