(* ===== verification/Network_Pipe.thy ===== *)
theory Network_Pipe
  imports Network_Props Refinement_Map
begin

text \<open>
  What the two programs and their channels amount to: a pipe. Chunks of the file go in at one end, in
  order, and bytes come out at the other in the same order; what is in between is pending. The
  closed loop refines it, whatever the channels lose or repeat.
\<close>

section \<open>The specification\<close>

record pipe =
  p_read :: nat
  p_pending :: bytes
  p_out :: bytes

definition pipe_init :: "pipe \<Rightarrow> bool" where
  "pipe_init p \<longleftrightarrow> p = \<lparr>p_read = 0, p_pending = [], p_out = []\<rparr>"

inductive pipe_step :: "(nat \<Rightarrow> bytes) \<Rightarrow> nat \<Rightarrow> pipe \<Rightarrow> pipe \<Rightarrow> bool" for D N where
  put_in: "n < N \<Longrightarrow> pipe_step D N \<lparr>p_read = n, p_pending = p, p_out = q\<rparr>
     \<lparr>p_read = Suc n, p_pending = p @ D n, p_out = q\<rparr>"
| get_out: "pipe_step D N \<lparr>p_read = n, p_pending = x @ p, p_out = q\<rparr> \<lparr>p_read = n, p_pending = p, p_out = q @ x\<rparr>"

inductive_simps pipe_step_iff: "pipe_step D N p q"

text \<open>The pipe neither loses nor changes anything.\<close>

lemma pipe_conserves:
  "reachable pipe_init (pipe_step D N) p \<Longrightarrow> p_out p @ p_pending p = concat (map D [0..<p_read p]) \<and> p_read p \<le> N"
  by (induction rule: reachable.induct) (auto simp: pipe_init_def pipe_step_iff)

section \<open>The refinement\<close>

definition pipe_of :: "'d setting \<Rightarrow> config \<Rightarrow> pipe" where
  "pipe_of g c = (let out = file_of (obslog (c_rw c)) in
     \<lparr>p_read = c_pos c, p_pending = drop (length out) (concat (map (chunks g) [0..<c_pos c])), p_out = out\<rparr>)"

lemma concat_upt_split: "e \<le> n \<Longrightarrow> concat (map D [0..<n]) = concat (map D [0..<e]) @ concat (map D [e..<n])"
  by (metis concat_append le_add_diff_inverse map_append upt_add_eq_append zero_le)

lemma pipe_of_eq:
  assumes "file_of (obslog (c_rw c)) = concat (map (chunks g) [0..<e])" "e \<le> c_pos c"
  shows "pipe_of g c = \<lparr>p_read = c_pos c, p_pending = concat (map (chunks g) [e..<c_pos c]),
    p_out = concat (map (chunks g) [0..<e])\<rparr>"
  using concat_upt_split [OF assms(2), of "chunks g"] by (simp add: pipe_of_def assms(1))

text \<open>The bytes written so far.\<close>

lemma core_file: "core g c a v h e fl ks \<Longrightarrow> file_of (obslog (c_rw c)) = concat (map (chunks g) [0..<e]) \<and> e \<le> c_pos c"
  using coreD(4,5,8) [of g c a v h e fl ks]
  by (auto simp: recv_side_def dest: rinvD(15) split: r_phase.splits)

text \<open>An action reads a chunk, or writes some more, or neither.\<close>

lemma act_reads_or_writes:
  assumes "core g c a v h e fl ks" "act g x c = Some (Inr c')"
  shows "(c_rw c' = c_rw c \<and> (c_pos c' = c_pos c \<or> c_pos c' = Suc (c_pos c) \<and> c_pos c < f_size g)) \<or>
    (\<exists>e'\<ge>e. e' \<le> c_pos c \<and> c_pos c' = c_pos c \<and> file_of (obslog (c_rw c')) = concat (map (chunks g) [0..<e']))"
proof (cases x)
  case (Send_round f k)
  with assms(2) show ?thesis
    by (auto simp: pos_after_def after_sender_def andthen_def split: s_phase.splits if_splits sum.splits prod.splits)
next
  case Deliver
  with assms(2) obtain r where r: "c_recv c = Receiving r" "\<not> r_end_file r" "c_data c \<noteq> []"
    by (auto split: r_phase.splits if_splits)
  then have "fl \<noteq> []" using coreD(9) [OF assms(1)] by (auto simp: data_way_def)
  then obtain y fl1 where fl: "fl = y # fl1" by (cases fl) auto
  show ?thesis
  proof (cases y)
    case (Chunk j m)
    from deliver_act [OF assms(1) [unfolded fl Chunk] r(1,2)] obtain c1 e' where
      "act g Deliver c = Some (Inr c1)" "core g c1 a v m e' fl1 (ks @ [e'])" "e \<le> e'" "c_pos c1 = c_pos c" by force
    with core_file [of g c1] assms(2) show ?thesis by (fastforce simp: Deliver simp del: act.simps)
  next
    case Fin
    from deliver_end_act [OF assms(1) [unfolded fl Fin] r(1,2)] obtain c1 where
      "act g Deliver c = Some (Inr c1)" "core g c1 a v h e fl1 ks" "c_pos c1 = c_pos c" by force
    with core_file [of g c1] assms(2) show ?thesis by (fastforce simp: Deliver simp del: act.simps)
  qed
next
  case Finish
  with assms(2) obtain r where r: "c_recv c = Receiving r" "r_end_file r"
    by (auto split: r_phase.splits if_splits)
  from finish_act [OF assms(1) r] obtain c1 where
    "act g Finish c = Some (Inr c1)" "core g c1 a v h e fl (ks @ replicate 11 e)" "c_pos c1 = c_pos c" by force
  with core_file [of g c1] assms(2) show ?thesis by (fastforce simp: Finish simp del: act.simps)
qed (use assms(2) in \<open>auto simp: after_sender_def andthen_def split: s_phase.splits if_splits sum.splits prod.splits\<close>)

lemma net_pipe_step:
  assumes "net_inv g lossy c" "loop_step g lossy c c'"
  shows "pipe_of g c' = pipe_of g c \<or> pipe_step (chunks g) (f_size g) (pipe_of g c) (pipe_of g c')"
proof -
  obtain a v h e fl ks where core: "core g c a v h e fl ks" using assms(1) by (auto simp: net_inv_def)
  note out = core_file [OF core]
  obtain x where "act g x c = Some (Inr c')"
    using assms(2) unfolding loop_step_def loop_act_iff by blast
  from act_reads_or_writes [OF core this] show ?thesis
  proof (elim disjE conjE exE)
    assume "c_rw c' = c_rw c" "c_pos c' = c_pos c"
    then show ?thesis by (simp add: pipe_of_def)
  next
    assume c': "c_rw c' = c_rw c" "c_pos c' = Suc (c_pos c)" "c_pos c < f_size g"
    have "pipe_of g c' = \<lparr>p_read = Suc (c_pos c), p_pending = concat (map (chunks g) [e..<Suc (c_pos c)]),
        p_out = concat (map (chunks g) [0..<e])\<rparr>"
      using pipe_of_eq [of c' g e] out c' by simp
    then show ?thesis
      using put_in [OF c'(3), of "chunks g"] pipe_of_eq [of c g e] out by simp
  next
    fix e' assume e': "e \<le> e'" "e' \<le> c_pos c" "c_pos c' = c_pos c"
      "file_of (obslog (c_rw c')) = concat (map (chunks g) [0..<e'])"
    have "concat (map (chunks g) [e..<c_pos c]) = concat (map (chunks g) [e..<e']) @ concat (map (chunks g) [e'..<c_pos c])"
      using e'(1,2) by (metis concat_append le_add_diff_inverse map_append upt_add_eq_append)
    moreover have "concat (map (chunks g) [0..<e']) = concat (map (chunks g) [0..<e]) @ concat (map (chunks g) [e..<e'])"
      by (rule concat_upt_split [OF e'(1)])
    moreover note pipe_of_eq [of c g e] pipe_of_eq [of c' g e']
    ultimately show ?thesis using out e' by (simp add: get_out)
  qed
qed

lemma net_pipe_init: "net_init g c \<Longrightarrow> pipe_init (pipe_of g c)"
  using net_init_core [of g c] core_file [of g c 0 1 0 0 "[]" "[]"]
  by (auto simp: pipe_init_def pipe_of_def net_init_def)

interpretation net_pipe: refinement_system "net_init g" "loop_step g lossy" "net_inv g lossy"
    pipe_init "pipe_step (chunks g) (f_size g)" "pipe_of g" for g lossy
  by unfold_locales (auto dest: net_pipe_init net_pipe_step)

text \<open>C5. The closed loop refines the pipe, whatever its channels lose and repeat, for files of up to
  \<open>2 ^ 31\<close> chunks. Of the environment one thing is asked (\<open>keeps_window\<close>), and only once 256 chunks were
  read, when the code no longer sees that its window is full (\<open>wrap_overwrites_oldest\<close>): the file is
  not read while the window is full. The system then only meets states of the pipe that are reachable,
  and each of its steps takes one chunk of the file in, or lets some bytes out at the other end, or changes
  neither.\<close>

theorem closed_loop_refines_pipe:
  assumes "reachable (net_init g) (loop_step g lossy) c"
  shows "reachable pipe_init (pipe_step (chunks g) (f_size g)) (pipe_of g c) \<and>
    (\<forall>x c'. keeps_window x c \<and> loop_act g lossy x c = Some c' \<longrightarrow>
      pipe_of g c' = pipe_of g c \<or> pipe_step (chunks g) (f_size g) (pipe_of g c) (pipe_of g c'))"
  using net_pipe.abs_reachable [OF assms] net_pipe.abs_reachable_step [OF assms] unfolding loop_step_def by blast

theorem closed_loop_refines_pipe_witness:
  "\<exists>c. reachable (net_init net_ex) (loop_step net_ex False) c \<and> both_left c \<and> p_read (pipe_of net_ex c) = 1000 \<and>
    reachable pipe_init (pipe_step (\<lambda>j. [of_nat j]) 1000) (pipe_of net_ex c)"
proof -
  obtain c where c: "reachable (net_init net_ex) (loop_step net_ex False) c" "both_left c" "c_pos c = 1000"
    using net_ex_done reachable_net_loop by blast
  have "p_read (pipe_of net_ex c) = 1000" by (simp add: pipe_of_def Let_def c(3))
  with closed_loop_refines_pipe [OF c(1)] c(1,2) show ?thesis unfolding net_ex_sel by blast
qed

end
