(* ===== verification/Shapes.thy ===== *)
theory Shapes
  imports End_To_End
begin

text \<open>
  The type invariants of the two main loops: whatever the file and the network bring, and whatever
  fails, the arrays keep their lengths, numbers of 8 bits stay in their range, indices in their
  arrays and windows between 1 and 31.
\<close>

section \<open>What a computation yields\<close>

text \<open>Every value of the computation satisfies \<open>P\<close>; undefined behaviour yields no value.\<close>

definition yields :: "'a outcome \<Rightarrow> ('a \<Rightarrow> bool) \<Rightarrow> bool" where
  "yields m P \<longleftrightarrow> (\<forall>x. m = Inr x \<longrightarrow> P x)"

named_theorems yields_rules "rules for the values of a computation"

lemma yields_Inl [simp]: "yields (Inl f) P"
  by (simp add: yields_def)

lemma yields_Inr [simp]: "yields (Inr x) P \<longleftrightarrow> P x"
  by (simp add: yields_def)

lemma yieldsD: "yields m P \<Longrightarrow> m = Inr x \<Longrightarrow> P x"
  by (simp add: yields_def)

lemma yields_andthen:
  "yields m Q \<Longrightarrow> (\<And>x. Q x \<Longrightarrow> yields (f x) P) \<Longrightarrow> yields (andthen m f) P"
  by (cases m) (simp_all add: yields_def)

lemma yields_any: "yields m (\<lambda>_. True)"
  by (simp add: yields_def)

lemma yields_andthen_any: "(\<And>x. yields (f x) P) \<Longrightarrow> yields (andthen m f) P"
  by (rule yields_andthen [OF yields_any])

lemma yields_arr_write: "yields (arr_write a i xs) (\<lambda>b. length b = length a)"
  by (simp add: yields_def arr_write_def)

lemma yields_arr_set: "yields (arr_set a i x) (\<lambda>b. length b = length a)"
  by (auto simp: yields_def arr_set_def)

lemma yields_c_mod:
  "0 < b \<Longrightarrow> 0 \<le> a \<Longrightarrow> yields (c_mod a b) (\<lambda>r. r = a mod b)"
  by (simp add: yields_def)

lemma yields_copy: "yields (copy_payload payload w i n buf) (\<lambda>b. length b = length buf)"
proof (induction payload w i n buf rule: copy_payload.induct)
  case (1 payload w i n buf)
  have "yields (copy_payload payload w (Suc i) n b) (\<lambda>b'. length b' = length buf)"
    if "i < n" "length b = length buf" for b
    using 1 [OF that(1), of b] that(2) by simp
  then show ?case
    by (subst copy_payload.simps)
      (auto intro!: yields_andthen [OF yields_any [of "load payload i (Suc 0) w"]] yields_andthen [OF yields_arr_write])
qed

lemma yields_encode:
  "yields (pkt_encode crc32 p buf n w) (\<lambda>(st, tmp, buf', p', w'). length buf' = length buf)"
proof -
  obtain tv w1 where "gettimeofday w = (tv, w1)" by (cases "gettimeofday w")
  then show ?thesis
    by (auto simp: pkt_encode_def Let_def pkt_set_timestamp_def pkt_set_crc1_def pkt_set_crc2_def
        intro!: yields_andthen [OF yields_arr_write] yields_andthen [OF yields_copy]
          yields_andthen [OF yields_any [of "region q k v" for q k v]])
qed

section \<open>The sender\<close>

definition s_shape :: "sstate \<Rightarrow> bool" where
  "s_shape s \<longleftrightarrow> length (s_packet s) = 528 \<and> length (s_read_tmp s) = 512 \<and> length (s_buffer s) = 31 \<and>
     1 \<le> s_window s \<and> s_window s \<le> 31 \<and> 0 \<le> s_small_seq s \<and> s_small_seq s < 256 \<and>
     0 \<le> s_seq_exp s \<and> s_seq_exp s < 256 \<and> 0 \<le> s_small_ind s \<and> s_small_ind s < 31 \<and> 0 \<le> s_seq_ind s \<and>
     s_endFile s \<in> {0, 1} \<and> s_buffer_empty s \<in> {0, 1} \<and> s_fail s = 0"

definition shaped :: "(sstate sctl \<times> world) outcome \<Rightarrow> bool" where
  "shaped m \<longleftrightarrow> yields m (\<lambda>(c, w). case c of SRunning s \<Rightarrow> s_shape s | SReturned \<Rightarrow> True)"

lemma shaped_simps [simp]:
  "shaped (Inl f)" "shaped (Inr (SReturned, w))" "shaped (Inr (SRunning s, w)) \<longleftrightarrow> s_shape s"
  by (simp_all add: shaped_def)

lemma shaped_andthen: "yields m Q \<Longrightarrow> (\<And>x. Q x \<Longrightarrow> shaped (f x)) \<Longrightarrow> shaped (andthen m f)"
  unfolding shaped_def by (rule yields_andthen)

lemma shaped_any: "(\<And>x. shaped (f x)) \<Longrightarrow> shaped (andthen m f)"
  unfolding shaped_def by (rule yields_andthen_any)

lemma shaped_bind: "shaped m \<Longrightarrow> (\<And>s w. s_shape s \<Longrightarrow> shaped (f s w)) \<Longrightarrow> shaped (ctl_bind m f)"
  unfolding ctl_bind_def shaped_def
  by (erule yields_andthen) (auto split: sctl.splits)

lemma shaped_give_up: "shaped (give_up s w)"
  unfolding give_up_def by (intro shaped_any) simp

lemma shaped_send_packet: "s_shape s \<Longrightarrow> shaped (send_packet tmp s w)"
  unfolding send_packet_def Let_def by (intro shaped_any) (simp add: shaped_give_up split: prod.split)

lemma shaped_send_raw: "s_shape s \<Longrightarrow> shaped (send_raw i tmp s w)"
  unfolding send_raw_def Let_def by (intro shaped_any) (simp add: shaped_give_up split: prod.split)

lemma shaped_encode_slot:
  assumes "s_shape s" "\<And>tmp s w. s_shape s \<Longrightarrow> shaped (f tmp s w)"
  shows "shaped (encode_slot crc32 i s w f)"
  unfolding encode_slot_def
proof (rule shaped_any, rule shaped_andthen [OF yields_encode], clarsimp, rule shaped_andthen [OF yields_arr_set])
  fix st tmp p' w1 and buf :: bytes and b :: "pkt option list"
  assume "length buf = length (s_packet s)" "length b = length (s_buffer s)"
  then have "s_shape (s\<lparr>s_packet := buf, s_buffer := b\<rparr>)" using assms(1) by (simp add: s_shape_def)
  then show "shaped (let s1 = s\<lparr>s_packet := buf, s_buffer := b\<rparr> in
      if st \<noteq> PKT_OK then give_up s1 w1 else f tmp s1 w1)"
    by (simp add: Let_def shaped_give_up assms(2))
qed

lemma shaped_resend: "s_shape s \<Longrightarrow> shaped (resend_oldest crc32 s w)"
  unfolding resend_oldest_def by (intro shaped_any shaped_encode_slot shaped_send_packet)

lemma shaped_write:
  assumes "s_shape s"
  shows "yields (arr_write (s_read_tmp s) 0 bs) (\<lambda>b. s_shape (s\<lparr>s_read_tmp := b\<rparr>))"
    "yields (arr_write (s_packet s) 0 bs) (\<lambda>b. s_shape (s\<lparr>s_packet := b\<rparr>))"
  using assms yieldsD [OF yields_arr_write] by (fastforce simp: yields_def s_shape_def)+

text \<open>The end of a round in which the file was read: the next number and index.\<close>

lemma shaped_advance:
  "s_shape s \<Longrightarrow> yields (c_mod (s_seq_exp s + 1) 256)
    (\<lambda>e. s_shape (s\<lparr>s_seq_exp := e, s_seq_ind := s_seq_ind s + 1, s_sent := 1\<rparr>))"
  by (simp add: s_shape_def)

lemma shaped_stored:
  "s_shape s \<Longrightarrow> s_shape (s\<lparr>s_pkt_send := p\<rparr>)" "s_shape s \<Longrightarrow> s_shape (s\<lparr>s_pkt_ack := p\<rparr>)"
  "s_shape s \<Longrightarrow> length buf = length (s_packet s) \<Longrightarrow> s_shape (s\<lparr>s_packet := buf\<rparr>)"
  "s_shape s \<Longrightarrow> length b = length (s_buffer s) \<Longrightarrow> s_shape (s\<lparr>s_buffer := b\<rparr>)"
  "s_shape s \<Longrightarrow> s_shape (s\<lparr>s_buffer_empty := 1\<rparr>)" "s_shape s \<Longrightarrow> s_shape (s\<lparr>s_endFile := 1\<rparr>)"
  "s_shape s \<Longrightarrow> s_shape (s\<lparr>s_sent := k\<rparr>)" "s_shape s \<Longrightarrow> s_shape (s\<lparr>s_ack_received := k\<rparr>)"
  by (simp_all add: s_shape_def)

lemma shaped_read_file:
  assumes "s_shape s"
  shows "shaped (read_file crc32 r s w)"
proof (cases r)
  case SrErr
  then show ?thesis by (auto simp: read_file_def intro!: shaped_any shaped_give_up)
next
  case (SrBytes bs)
  show ?thesis
    unfolding SrBytes read_file_def Let_def s_read.case pkt_set_seqnum_def prod.case
    by (rule shaped_any, rule shaped_andthen [OF shaped_write(1) [OF assms]])
      (auto intro!: shaped_stored shaped_give_up shaped_bind shaped_send_packet
        shaped_andthen [OF yields_any [of "pkt_set_payload q k v u" for q k v u]]
        shaped_andthen [OF yields_any [of "c_mod (s_seq_ind q) v" for q v]]
        shaped_andthen [OF yields_arr_set] shaped_andthen [OF yields_encode] shaped_andthen [OF shaped_advance]
        split: prod.splits option.splits)
qed

lemma shaped_on_ack:
  assumes "s_shape s"
  shows "shaped (on_ack crc32 ops seq s w)"
proof -
  let ?d = "(uint seq - s_small_seq s) mod 256"
  let ?ind = "if ?d = 0 then s_small_ind s else (s_small_ind s + ?d) mod s_window s"
  let ?s = "s\<lparr>s_small_seq := uint seq, s_small_ind := ?ind, s_fail := s_fail s\<rparr>"
  have seq: "0 \<le> uint seq" "uint seq < 256" using uint_bounded [of seq] by simp_all
  have "(s_small_ind s + ?d) mod s_window s < s_window s" "s_window s \<le> 31"
    using assms by (simp_all add: s_shape_def)
  then have "(s_small_ind s + ?d) mod s_window s < 31" by linarith
  then have sh: "s_shape ?s" using assms seq by (auto simp: s_shape_def)
  have "s_fail ?s \<noteq> 1" using assms by (simp add: s_shape_def)
  then have "on_ack crc32 ops seq s w = Inr (SRunning (if s_endFile ?s = 1 \<and> s_small_ind ?s = s_seq_exp ?s
      then ?s\<lparr>s_buffer_empty := 0\<rparr> else ?s), if ?d = 0 then w else snd (gettimeofday w))"
    using assms adapt_buffer_run [of "s_small_seq s" "uint seq" "s_window s" "s_small_ind s" ops] seq
    by (simp add: on_ack_def Let_def s_shape_def)
  moreover have "s_shape (if P then ?s\<lparr>s_buffer_empty := 0\<rparr> else ?s)" for P
  proof (cases P)
    case True
    with sh show ?thesis unfolding s_shape_def by simp
  qed (use sh in simp)
  ultimately show ?thesis by (simp only: shaped_simps)
qed

lemma shaped_on_nack: "s_shape s \<Longrightarrow> shaped (on_nack crc32 seq s w)"
  unfolding on_nack_def Let_def
  by (intro shaped_any shaped_encode_slot shaped_bind shaped_send_packet shaped_send_raw)

lemma window_of_ack: "0 \<le> uint (pkt_get_window p)" "uint (pkt_get_window p) \<le> 31"
proof -
  have "uint (WINDOW p) < 32" using uint_bounded [of "WINDOW p"] by simp
  then show "0 \<le> uint (pkt_get_window p)" "uint (pkt_get_window p) \<le> 31"
    by (simp_all add: pkt_get_window_def unsigned_ucast_eq take_bit_int_eq_self)
qed

lemma shaped_process_ack:
  assumes "s_shape s"
  shows "shaped (process_ack crc32 ops s w)"
proof -
  let ?w = "uint (pkt_get_window (s_pkt_ack s))"
  let ?s = "if ?w > s_window s then s\<lparr>s_window := ?w\<rparr> else s"
  obtain st p where p: "pkt_set_window (s_pkt_send ?s) (word_of_int (s_window ?s)) = (st, p)"
    by (cases "pkt_set_window (s_pkt_send ?s) (word_of_int (s_window ?s))")
  have "s_shape ?s" using assms window_of_ack(2) [of "s_pkt_ack s"] by (auto simp: s_shape_def)
  then have "s_shape (?s\<lparr>s_pkt_send := p, s_ack_received := 1\<rparr>)" by (intro shaped_stored)
  then show ?thesis
    unfolding process_ack_def Let_def p prod.case
    by (auto intro: shaped_on_ack shaped_on_nack simp del: if_split)
qed

lemma shaped_read_sock:
  assumes "s_shape s"
  shows "shaped (read_sock crc32 ops r s w)"
proof (cases r)
  case SrErr
  then show ?thesis using assms by (simp add: read_sock_def shaped_process_ack)
next
  case (SrBytes bs)
  show ?thesis
    unfolding SrBytes read_sock_def Let_def s_read.case
    by (rule shaped_andthen [OF shaped_write(2) [OF assms]])
      (auto intro!: shaped_process_ack shaped_any shaped_stored)
qed

lemma shaped_timer: "s_shape s \<Longrightarrow> shaped (timer_part crc32 fg s w)"
  by (simp add: timer_part_def shaped_resend)

lemma shaped_step:
  assumes "s_shape s"
  shows "shaped (send_step crc32 ops fg sfd fd ev s w)"
proof -
  have "s_shape (s\<lparr>s_sent := 0, s_ack_received := 0\<rparr>)" using assms by (intro shaped_stored)
  then show ?thesis
    by (auto simp: send_step_def Let_def split: option.split
        intro!: shaped_bind shaped_read_file shaped_read_sock shaped_timer)
qed

lemma shaped_loop:
  "s_shape s \<Longrightarrow> yields (send_loop crc32 ops fg sfd fd evs s w)
    (\<lambda>(c, rest). case c of SRunning s' \<Rightarrow> s_shape s' | SReturned \<Rightarrow> True)"
proof (induction evs arbitrary: s w)
  case (Cons ev evs)
  have st: "yields (send_step crc32 ops fg sfd fd ev s w) (\<lambda>(c, w). case c of SRunning s \<Rightarrow> s_shape s | SReturned \<Rightarrow> True)"
    using shaped_step [OF Cons.prems] by (simp add: shaped_def)
  show ?case
    using Cons.prems by (auto intro!: yields_andthen [OF st] Cons.IH split: sctl.splits)
qed simp

lemma shaped_init:
  assumes "length pe = 528" "length rt = 512"
  shows "yields (send_init pe rt w) (\<lambda>(s0, w). case s0 of Some s \<Rightarrow> s_shape s | None \<Rightarrow> True)"
  using assms
  by (auto simp: send_init_def s_shape_def MAX_WINDOW_SIZE_def split: prod.splits option.splits
      intro!: yields_andthen [OF yields_any])

section \<open>The receiver\<close>

definition r_shape :: "nat \<Rightarrow> rstate \<Rightarrow> bool" where
  "r_shape W s \<longleftrightarrow> 1 \<le> W \<and> length (r_packet s) = 528 \<and> ring_inv W (r_index s, r_buf s) \<and>
     0 \<le> r_seq_exp s \<and> r_seq_exp s < 256"

lemma yields_store_slot:
  "ring_inv W (i, b) \<Longrightarrow> yields (store_slot k l p b) (\<lambda>b'. ring_inv W (i, b'))"
  by (auto simp: yields_def store_slot_def andthen_eq_Inr ring_inv_def dest!: yieldsD [OF yields_arr_set])

lemma yields_add_buffer:
  "ring_inv W (i, b) \<Longrightarrow> yields (add_buffer j r x rcv v b) (\<lambda>b'. ring_inv W (i, b'))"
  by (auto simp: add_buffer_def Let_def intro!: yields_andthen [OF yields_any [of "c_mod k v" for k v]] yields_store_slot)

lemma yields_drain:
  "ring_inv W (i, b) \<Longrightarrow> 0 \<le> x \<Longrightarrow> x < 256 \<Longrightarrow> yields (drain (int W) i x b w)
    (\<lambda>(i', x', b', w'). ring_inv W (i', b') \<and> 0 \<le> x' \<and> x' < 256)"
proof (induction "filled b" arbitrary: i x b w rule: less_induct)
  case less
  have "yields (drain (int W) i' x' b' w') (\<lambda>(i', x', b', w'). ring_inv W (i', b') \<and> 0 \<le> x' \<and> x' < 256)"
    if "arr_get (buffer_len b) i = Inr l" "l \<noteq> -1" "drain_step (int W) i x b l w = Inr (i', x', b', w')" for l i' x' b' w'
  proof (rule less.hyps)
    have st: "store_slot i (-1) None b = Inr b'" "c_mod (i + 1) (int W) = Inr i'" "c_mod (x + 1) 256 = Inr x'"
      using that(3) by (auto simp: drain_step_def andthen_eq_Inr)
    show "filled b' < filled b" by (rule filled_clear [OF that(1,2) st(1)])
    have "ring_inv W (i, b')" using yieldsD [OF yields_store_slot [OF less.prems(1)] st(1)] .
    then show "ring_inv W (i', b')" using st(2) by (auto simp: ring_inv_def)
    show "0 \<le> x'" "x' < 256" using st(3) less.prems(2) by auto
  qed
  then show ?case
    using less.prems by (subst drain.simps) (auto simp: yields_def andthen_eq_Inr)
qed

lemma handle_datagram_shape:
  assumes "r_shape W s"
  shows "yields (handle_datagram crc32 (int W) len s w) (\<lambda>(s', w'). r_shape W s')"
proof -
  have "yields (add_buffer i r x rcv v (r_buf s)) (\<lambda>b. ring_inv W (r_index s, b))" for i r x rcv v
    using assms by (intro yields_add_buffer) (simp add: r_shape_def)
  note add = yields_andthen [OF this]
  show ?thesis
    using assms unfolding handle_datagram_def Let_def
    by (auto simp: r_shape_def intro!: yields_andthen [OF yields_any [of "pkt_decode c d l p v" for c d l p v]]
        add yields_andthen [OF yields_drain] yields_andthen [OF yields_any [of "send_ack c k q ty t z v" for c k q ty t z v]])
qed

lemma receive_step_shape:
  assumes "r_shape W s"
  shows "yields (receive_step crc32 (int W) ev s w) (\<lambda>(c, w'). case c of Running s' \<Rightarrow> r_shape W s' | Returned \<Rightarrow> True)"
proof (cases "\<exists>bs. ev = R_ready (RdBytes bs)")
  case True
  then obtain bs where ev: "ev = R_ready (RdBytes bs)" by blast
  have "yields (arr_write (r_packet s) 0 (take 528 bs)) (\<lambda>b. r_shape W (s\<lparr>r_packet := b\<rparr>))"
    using assms yieldsD [OF yields_arr_write] by (fastforce simp: yields_def r_shape_def)
  then show ?thesis
    unfolding ev receive_step_def r_event.case rd_result.case Let_def
    by (rule yields_andthen) (auto intro!: yields_andthen [OF handle_datagram_shape])
next
  case False
  then show ?thesis
    using assms by (auto simp: receive_step_def split: r_event.splits rd_result.splits
        intro!: yields_andthen [OF yields_any])
qed

lemma receive_loop_shape:
  "r_shape W s \<Longrightarrow> yields (receive_loop crc32 (int W) evs s w)
    (\<lambda>(c, w'). case c of Running s' \<Rightarrow> r_shape W s' | Returned \<Rightarrow> True)"
proof (induction evs arbitrary: s w)
  case (Cons ev evs)
  show ?case
    using Cons.prems by (auto intro!: yields_andthen [OF receive_step_shape] Cons.IH split: ctl.splits)
qed simp

lemma receive_init_shape:
  assumes "length pe = 528" "1 \<le> W" "W \<le> 7"
  shows "yields (receive_init pe w) (\<lambda>(s0, w). case s0 of Some s \<Rightarrow> r_shape W s | None \<Rightarrow> True)"
  using assms ring_init(1) [of W]
  by (auto simp: receive_init_def r_shape_def split: prod.splits option.splits
      intro!: yields_andthen [OF yields_any])

section \<open>The loops from their start\<close>

text \<open>C22. The types of the sender's state, for any input and any failure: whatever the file and the
  network bring (arbitrary bytes, read errors, end of input), whatever allocation or write fails,
  and whether or not a file name was given, a state the main loop leaves has arrays of the declared
  lengths, a window between 1 and 31, numbers between 0 and 255, the index of the oldest packet
  inside the array, and flags that are 0 or 1.\<close>

theorem sender_state_typed:
  assumes "length pe = 528" "length rt = 512" "send_init pe rt w = Inr (Some s, w1)"
    and "send_loop crc32 ops fg sfd fd evs s w1 = Inr (SRunning s', left, w2)"
  shows "s_shape s'"
proof -
  have "s_shape s" using yieldsD [OF shaped_init [OF assms(1,2)] assms(3)] by simp
  from yieldsD [OF shaped_loop [OF this] assms(4)] show ?thesis by simp
qed

theorem sender_state_typed_witness:
  "\<exists>s w1 s' left w2. send_init (replicate 528 0) (replicate 512 0) world_r = Inr (Some s, w1) \<and>
    send_loop sum_crc int_ops True 3 4 s_run0 s w1 = Inr (SRunning s', left, w2) \<and> s_shape s'"
proof -
  obtain s w1 s' w2 where s: "send_init (replicate 528 0) (replicate 512 0) world_r = Inr (Some s, w1)"
    "send_loop sum_crc int_ops True 3 4 s_run0 s w1 = Inr (SRunning s', [], w2)"
    using s_run0_loop by blast
  from sender_state_typed [OF _ _ s] s show ?thesis by auto
qed

text \<open>C23. The types of the receiver's state, for any sequence of datagrams and any failure: in every state
  the loop leaves, the packet array and the two arrays of the reordering buffer have their declared
  lengths, the read index lies in the window, and the number expected next is between 0 and 255.\<close>

theorem receiver_state_typed:
  assumes "length pe = 528" "receive_init pe w = Inr (Some s, w1)" "1 \<le> W" "W \<le> 7"
    and "receive_loop crc32 (int W) evs s w1 = Inr (Running s', w2)"
  shows "r_shape W s'"
proof -
  have "r_shape W s" using yieldsD [OF receive_init_shape [OF assms(1,3,4)] assms(2)] by simp
  from yieldsD [OF receive_loop_shape [OF this] assms(5)] show ?thesis by simp
qed

theorem receiver_state_typed_witness:
  "\<exists>s w1 s' w2. receive_init (replicate 528 0) world_r = Inr (Some s, w1) \<and>
    receive_loop sum_crc (int 3) run0 s w1 = Inr (Running s', w2) \<and> r_shape 3 s'"
proof -
  obtain s w where s: "receive_init (replicate 528 0) world_r = Inr (Some s, w)" "rinv chunk 3 3 0 s w"
    using receive_init_ok [of world_r "replicate 528 0" 3 chunk 3] by auto
  have "admissible sum_crc chunk 3 3 run0 s w"
    by (rule admissible_short [OF _ s(2) run0_short]) simp_all
  from loop_safe [OF s(2) this] obtain s' w2 where
    r: "receive_loop sum_crc (int 3) run0 s w = Inr (Running s', w2)" by blast
  from receiver_state_typed [OF _ s(1) _ _ r] s(1) r show ?thesis by auto
qed

end
