(* ===== verification/Echo.thy ===== *)
theory Echo
  imports Prelude
begin

text \<open>
  The UDP example: a server that sends every datagram back, and a client that sends lines and
  prints the answers. A run takes what each call answers; the result is the exit status, \<open>None\<close>
  when the input is at its end and the program is still running, with what was sent and printed.
  Text is a list of bytes.
\<close>

definition BUFLEN :: nat where
  "BUFLEN = 512"

text \<open>The string that starts an array, as \<open>printf("%s")\<close>, \<open>puts\<close> and \<open>strlen\<close> read it.\<close>

definition c_string :: "bytes \<Rightarrow> bytes outcome" where
  "c_string a = (if 0 \<in> set a then Inr (takeWhile (\<lambda>b. b \<noteq> 0) a) else Inl OutOfBounds)"

lemma c_string_cut: "c_string (xs @ 0 # ys) = Inr (takeWhile (\<lambda>b. b \<noteq> 0) xs)"
proof -
  have "takeWhile (\<lambda>b. b \<noteq> 0) (xs @ 0 # ys) = takeWhile (\<lambda>b. b \<noteq> 0) xs"
    by (induction xs) auto
  then show ?thesis by (simp add: c_string_def)
qed

lemma c_string_app: "0 \<notin> set xs \<Longrightarrow> c_string (xs @ 0 # ys) = Inr xs"
  by (auto simp: c_string_def takeWhile_append)

section \<open>The server\<close>

text \<open>What \<open>recvfrom\<close> gives, the author and the datagram, \<open>None\<close> for an error; and whether \<open>sendto\<close>
  fails.\<close>

record 'a u_event =
  u_recv :: "('a \<times> bytes) option"
  u_send_fails :: bool

record 'a u_log =
  u_sent :: "('a \<times> bytes) list"
  u_printed :: "bytes list"

fun echo_loop ::
    "'a u_event list \<Rightarrow> bytes \<Rightarrow> 'a u_log \<Rightarrow> (int option \<times> 'a u_log) outcome" where
  "echo_loop [] buf l = Inr (None, l)"
| "echo_loop (ev # evs) buf l =
     (case u_recv ev of
        None \<Rightarrow> Inr (Some 1, l)
      | Some (si_other, dg) \<Rightarrow>
          andthen (arr_write buf 0 (take BUFLEN dg)) (\<lambda>buf1.
          andthen (c_string buf1) (\<lambda>text.
          let l1 = l\<lparr>u_printed := u_printed l @ [text]\<rparr> in
          if u_send_fails ev then Inr (Some 1, l1)
          else andthen (arr_read buf1 0 (length (take BUFLEN dg))) (\<lambda>reply.
               echo_loop evs buf1 (l1\<lparr>u_sent := u_sent l1 @ [(si_other, reply)]\<rparr>)))))"

definition udp_server_main ::
    "bool \<Rightarrow> bool \<Rightarrow> bytes \<Rightarrow> 'a u_event list \<Rightarrow> (int option \<times> 'a u_log) outcome" where
  "udp_server_main socket_fails bind_fails buf evs =
     (let l = \<lparr>u_sent = [], u_printed = []\<rparr> in
      if socket_fails then Inr (Some 1, l)
      else if bind_fails then Inr (Some 1, l)
      else echo_loop evs buf l)"

text \<open>Every datagram shorter than the buffer goes back to its author as it came, while nothing fails
  and the array still ends in a zero from before.\<close>

lemma echo_loop_replies:
  assumes "length buf = BUFLEN" "last buf = 0"
    and "\<forall>ev\<in>set evs. \<not> u_send_fails ev \<and> (\<exists>a dg. u_recv ev = Some (a, dg) \<and> length dg < BUFLEN)"
  shows "\<exists>l'. echo_loop evs buf l = Inr (None, l') \<and> u_sent l' = u_sent l @ map (the \<circ> u_recv) evs"
  using assms
proof (induction evs arbitrary: buf l)
  case (Cons ev evs)
  then obtain a dg where ev: "u_recv ev = Some (a, dg)" "length dg < BUFLEN" "\<not> u_send_fails ev" by auto
  let ?buf = "put_at 0 dg buf"
  have w: "arr_write buf 0 dg = Inr ?buf" "length ?buf = BUFLEN" "take BUFLEN dg = dg" "last ?buf = 0"
    using Cons.prems(1,2) ev(2) by (simp_all add: arr_write_def put_at_0 last_append)
  have "?buf \<noteq> []" using w(2) by (auto simp: BUFLEN_def)
  then have z: "0 \<in> set ?buf" using w(4) last_in_set by metis
  have r: "arr_read ?buf 0 (length dg) = Inr dg" using w(2) ev(2) by (simp add: arr_read_def put_at_0)
  let ?l = "l\<lparr>u_printed := u_printed l @ [takeWhile (\<lambda>b. b \<noteq> 0) ?buf], u_sent := u_sent l @ [(a, dg)]\<rparr>"
  from Cons.IH [OF w(2,4), of ?l] Cons.prems(3) obtain l' where
    "echo_loop evs ?buf ?l = Inr (None, l')" "u_sent l' = u_sent ?l @ map (the \<circ> u_recv) evs"
    by auto
  then show ?case by (intro exI [of _ l']) (simp add: ev w z r c_string_def Let_def)
qed simp

text \<open>A full datagram without a zero is read beyond the array when it is printed.\<close>

lemma echo_overread:
  assumes "length buf = BUFLEN" "u_recv ev = Some (a, dg)" "BUFLEN \<le> length dg" "0 \<notin> set (take BUFLEN dg)"
  shows "echo_loop (ev # evs) buf l = Inl OutOfBounds"
  using assms by (simp add: arr_write_def put_at_0 c_string_def)

section \<open>The client\<close>

text \<open>The line \<open>gets\<close> reads (\<open>None\<close> at the end of the input, where it leaves the array alone), whether
  \<open>sendto\<close> fails, and the answer, \<open>None\<close> for an error of \<open>recvfrom\<close>.\<close>

record c_event =
  c_line :: "bytes option"
  c_send_fails :: bool
  c_reply :: "bytes option"

fun ask_loop ::
    "c_event list \<Rightarrow> bytes \<Rightarrow> bytes \<Rightarrow> bytes list \<times> bytes list
      \<Rightarrow> (int option \<times> bytes list \<times> bytes list) outcome" where
  "ask_loop [] message buf (sent, out) = Inr (None, sent, out)"
| "ask_loop (ev # evs) message buf (sent, out) =
     andthen (case c_line ev of None \<Rightarrow> Inr message | Some line \<Rightarrow> arr_write message 0 (line @ [0])) (\<lambda>message1.
     andthen (c_string message1) (\<lambda>text.
     if c_send_fails ev then Inr (Some 1, sent, out)
     else (let buf0 = replicate (length buf) 0; sent1 = sent @ [text] in
           case c_reply ev of
             None \<Rightarrow> Inr (Some 1, sent1, out)
           | Some dg \<Rightarrow>
               andthen (arr_write buf0 0 (take BUFLEN dg)) (\<lambda>buf1.
               andthen (c_string buf1) (\<lambda>answer.
               ask_loop evs message1 buf1 (sent1, out @ [answer]))))))"

definition udp_client_main ::
    "bool \<Rightarrow> bool \<Rightarrow> bytes \<Rightarrow> bytes \<Rightarrow> c_event list \<Rightarrow> (int option \<times> bytes list \<times> bytes list) outcome" where
  "udp_client_main socket_fails inet_aton_fails message buf evs =
     (if socket_fails then Inr (Some 1, [], [])
      else if inet_aton_fails then Inr (Some 1, [], [])
      else ask_loop evs message buf ([], []))"

text \<open>A line of 512 characters or more overruns the array; shorter lines without a zero are sent as
  they are.\<close>

lemma client_line:
  assumes "length message = BUFLEN" "c_line ev = Some line" "0 \<notin> set line"
  shows "ask_loop (ev # evs) message buf (sent, out) =
    (if BUFLEN \<le> length line then Inl OutOfBounds
     else if c_send_fails ev then Inr (Some 1, sent, out)
     else case c_reply ev of
       None \<Rightarrow> Inr (Some 1, sent @ [line], out)
     | Some dg \<Rightarrow>
         andthen (arr_write (replicate (length buf) 0) 0 (take BUFLEN dg)) (\<lambda>buf1.
         andthen (c_string buf1) (\<lambda>answer.
         ask_loop evs (line @ 0 # drop (Suc (length line)) message) buf1 (sent @ [line], out @ [answer]))))"
proof (cases "BUFLEN \<le> length line")
  case True
  with assms show ?thesis by (simp add: arr_write_def)
next
  case False
  then have "arr_write message 0 (line @ [0]) = Inr (line @ 0 # drop (Suc (length line)) message)"
    using assms(1) by (simp add: arr_write_def put_at_0)
  with False show ?thesis
    by (simp add: assms(2) c_string_app [OF assms(3)] Let_def split: option.splits)
qed

text \<open>Client and server together: a line of 1 to 511 characters comes back and is printed.\<close>

lemma line_comes_back:
  assumes "length message = BUFLEN" "length buf = BUFLEN" "length sbuf = BUFLEN" "last sbuf = 0"
    and "0 \<notin> set line" "length line < BUFLEN"
  shows "\<exists>l'. echo_loop [\<lparr>u_recv = Some (a, line), u_send_fails = False\<rparr>] sbuf l = Inr (None, l') \<and>
    u_sent l' = u_sent l @ [(a, line)] \<and>
    ask_loop [\<lparr>c_line = Some line, c_send_fails = False, c_reply = Some line\<rparr>] message buf (sent, out) =
      Inr (None, sent @ [line], out @ [line])"
proof -
  have e: "\<exists>l'. echo_loop [\<lparr>u_recv = Some (a, line), u_send_fails = False\<rparr>] sbuf l = Inr (None, l') \<and>
      u_sent l' = u_sent l @ [(a, line)]"
    using echo_loop_replies [OF assms(3,4), of "[\<lparr>u_recv = Some (a, line), u_send_fails = False\<rparr>]" l] assms(6)
    by auto
  have "replicate (BUFLEN - length line) 0 = 0 # replicate (BUFLEN - Suc (length line)) (0 :: byte)"
    using assms(6) by (metis Suc_diff_Suc replicate_Suc)
  then have "arr_write (replicate (length buf) 0) 0 (take BUFLEN line) = Inr (line @ 0 # replicate (BUFLEN - Suc (length line)) 0)"
    using assms(2,6) by (simp add: arr_write_def put_at_0)
  then have "ask_loop [\<lparr>c_line = Some line, c_send_fails = False, c_reply = Some line\<rparr>] message buf (sent, out) =
      Inr (None, sent @ [line], out @ [line])"
    using assms(6) by (subst client_line [OF assms(1) _ assms(5)]) (simp_all add: c_string_app [OF assms(5)])
  with e show ?thesis by blast
qed

end
