(* ===== verification/Unit_Tests.thy ===== *)
theory Unit_Tests
  imports Network_Props Echo
begin

text \<open>
  The CUnit tests of the packet codec (test.c of Projet1), run on the model. A test is a computation that gives what its
  assertions found; what \<open>rand\<close> gives, the clock, the heap and the array on the stack are arbitrary.
  The two tests that fork both programs compare the files at their end; the run before that is one
  of the closed loop of theory Network.
\<close>

section \<open>The tests\<close>

definition passes :: "bool list outcome \<Rightarrow> bool" where
  "passes t = (case t of Inl _ \<Rightarrow> False | Inr vs \<Rightarrow> list_all id vs)"

text \<open>The packet of \<open>pkt_new\<close> is used without looking whether it is \<open>NULL\<close>.\<close>

definition with_new :: "world \<Rightarrow> (pkt \<Rightarrow> world \<Rightarrow> 'a outcome) \<Rightarrow> 'a outcome" where
  "with_new w f = (case pkt_new w of (None, _) \<Rightarrow> Inl NullDeref | (Some p, w1) \<Rightarrow> f p w1)"

definition string_at :: "ptr \<Rightarrow> world \<Rightarrow> bytes outcome" where
  "string_at p w = (case p of None \<Rightarrow> Inl NullDeref
     | Some a \<Rightarrow> (case mem w a of None \<Rightarrow> Inl UseAfterFree | Some bs \<Rightarrow> c_string bs))"

definition test_text :: bytes where
  "test_text = map of_char ''Test de 15 char''"

definition test_new :: "world \<Rightarrow> bool list outcome" where
  "test_new w = (case pkt_new w of (p, w1) \<Rightarrow> andthen (pkt_del p w1) (\<lambda>_. Inr [p \<noteq> None]))"

definition test_type :: "world \<Rightarrow> bool list outcome" where
  "test_type w = with_new w (\<lambda>p w1.
     let (st1, p1) = pkt_set_type p PTYPE_DATA; (st2, p2) = pkt_set_type p1 4 in
     andthen (pkt_del (Some p2) w1) (\<lambda>_.
     Inr [st1 = PKT_OK, pkt_get_type p1 = PTYPE_DATA, st2 \<noteq> PKT_OK]))"

definition test_window :: "int \<Rightarrow> world \<Rightarrow> bool list outcome" where
  "test_window rand w = with_new w (\<lambda>p w1.
     let random = rand mod 32; (st1, p1) = pkt_set_window p (word_of_int random);
         (st2, p2) = pkt_set_window p1 32 in
     andthen (pkt_del (Some p2) w1) (\<lambda>_.
     Inr [st1 = PKT_OK, uint (pkt_get_window p1) = random, st2 = E_WINDOW]))"

definition test_seqnum :: "int \<Rightarrow> world \<Rightarrow> bool list outcome" where
  "test_seqnum rand w = with_new w (\<lambda>p w1.
     let random = rand mod 256; (st1, p1) = pkt_set_seqnum p (word_of_int random) in
     andthen (pkt_del (Some p1) w1) (\<lambda>_. Inr [st1 = PKT_OK, uint (pkt_get_seqnum p1) = random]))"

definition test_length :: "int \<Rightarrow> world \<Rightarrow> bool list outcome" where
  "test_length rand w = with_new w (\<lambda>p w1.
     let random = rand mod 513; (st1, p1) = pkt_set_length p (word_of_int random);
         (_, p2) = pkt_set_tr p1 0; (_, p3) = pkt_set_type p2 PTYPE_DATA; (_, p4) = pkt_set_tr p3 1;
         (st5, p5) = pkt_set_length p4 513 in
     andthen (pkt_del (Some p5) w1) (\<lambda>_.
     Inr [st1 = PKT_OK, uint (pkt_get_length p2) = random, pkt_get_length p4 = 0, st5 = E_LENGTH]))"

definition test_timestamp :: "int \<Rightarrow> world \<Rightarrow> bool list outcome" where
  "test_timestamp rand w = with_new w (\<lambda>p w1.
     let random = (word_of_int (rand mod 4294967296) :: u32); (st1, p1) = pkt_set_timestamp p random in
     andthen (pkt_del (Some p1) w1) (\<lambda>_. Inr [st1 = PKT_OK, pkt_get_timestamp p1 = random]))"

text \<open>\<open>buf2\<close> is an array of 100 bytes of which 15 are assigned.\<close>

definition test_payload :: "bytes \<Rightarrow> world \<Rightarrow> bool list outcome" where
  "test_payload buf2 w = with_new w (\<lambda>p w1.
     andthen (arr_write buf2 0 test_text) (\<lambda>buf3.
     andthen (pkt_set_payload p (Some (test_text @ [0])) 16 w1) (\<lambda>(st1, p1, w2).
     andthen (string_at (pkt_get_payload p1) w2) (\<lambda>str.
     andthen (pkt_set_payload p1 (Some buf3) 100 w2) (\<lambda>(_, p2, w3).
     andthen (pkt_del (Some p2) w3) (\<lambda>_.
     Inr [st1 = PKT_OK, str = test_text, pkt_get_length p1 \<noteq> 1]))))))"

definition test_encode :: "crc_fun \<Rightarrow> bytes \<Rightarrow> world \<Rightarrow> bool list outcome" where
  "test_encode crc32 data w = with_new w (\<lambda>pkt1 w1. with_new w1 (\<lambda>pkt2 w2.
     andthen (pkt_set_payload pkt1 (Some (test_text @ [0])) 16 w2) (\<lambda>(_, p1, w3).
     andthen (pkt_encode crc32 p1 data 528 w3) (\<lambda>(st1, len, data1, p1', w4).
     andthen (pkt_decode crc32 data1 528 pkt2 w4) (\<lambda>(st2, p2, w5).
     andthen (string_at (pkt_get_payload p2) w5) (\<lambda>str.
     andthen (pkt_del (Some p1') w5) (\<lambda>w6.
     andthen (pkt_del (Some p2) w6) (\<lambda>_.
     Inr [st1 = PKT_OK, st2 = PKT_OK, str = test_text, pkt_get_tr p1' = pkt_get_tr p2,
          pkt_get_crc1 p1' = pkt_get_crc1 p2, pkt_get_crc2 p1' = pkt_get_crc2 p2,
          pkt_get_type p1' = pkt_get_type p2, pkt_get_window p1' = pkt_get_window p2,
          pkt_get_timestamp p1' = pkt_get_timestamp p2]))))))))"

text \<open>The tests with an error: four bytes of the datagram are overwritten, with the low byte of 1345.\<close>

definition test_altered :: "(pkt \<Rightarrow> nat) \<Rightarrow> crc_fun \<Rightarrow> bytes \<Rightarrow> world \<Rightarrow> bool list outcome" where
  "test_altered off crc32 data w = with_new w (\<lambda>pkt1 w1. with_new w1 (\<lambda>pkt2 w2.
     andthen (pkt_set_payload pkt1 (Some (test_text @ [0])) 16 w2) (\<lambda>(_, p1, w3).
     andthen (pkt_encode crc32 p1 data 528 w3) (\<lambda>(st1, len, data1, p1', w4).
     andthen (arr_write data1 (off p1') (replicate 4 (word_of_int 1345))) (\<lambda>data2.
     andthen (pkt_decode crc32 data2 528 pkt2 w4) (\<lambda>(st2, p2, w5).
     andthen (pkt_del (Some p1') w5) (\<lambda>w6.
     andthen (pkt_del (Some p2) w6) (\<lambda>_.
     Inr [st1 = PKT_OK, st2 = E_CRC]))))))))"

definition test_error_timestamp :: "crc_fun \<Rightarrow> bytes \<Rightarrow> world \<Rightarrow> bool list outcome" where
  "test_error_timestamp = test_altered (\<lambda>_. 4)"

definition test_error_crc1 :: "crc_fun \<Rightarrow> bytes \<Rightarrow> world \<Rightarrow> bool list outcome" where
  "test_error_crc1 = test_altered (\<lambda>_. 8)"

definition test_error_crc2 :: "crc_fun \<Rightarrow> bytes \<Rightarrow> world \<Rightarrow> bool list outcome" where
  "test_error_crc2 = test_altered (\<lambda>_. 12)"

definition test_error_payload :: "crc_fun \<Rightarrow> bytes \<Rightarrow> world \<Rightarrow> bool list outcome" where
  "test_error_payload = test_altered (\<lambda>p. unat (pkt_get_length p))"

section \<open>Their results\<close>

definition fresh_pkt :: "world \<Rightarrow> pkt" where
  "fresh_pkt w = \<lparr>WINDOW = 0, TR = 0, TYPE_f = 1, SEQNUM = junk w (nalloc w) 1, LENGTH_f = 0,
     TIMESTAMP = 0, CRC1 = 0, PAYLOAD = None, CRC2 = of_le (map (junk w (nalloc w)) [20..<24])\<rparr>"

lemma fresh_pkt_sel [simp]:
  "WINDOW (fresh_pkt w) = 0" "TR (fresh_pkt w) = 0" "TYPE_f (fresh_pkt w) = 1" "LENGTH_f (fresh_pkt w) = 0"
  "PAYLOAD (fresh_pkt w) = None"
  by (simp_all add: fresh_pkt_def)

lemma with_new_ok: "\<not> oom w (nalloc w) \<Longrightarrow> with_new w f = f (fresh_pkt w) (w\<lparr>nalloc := Suc (nalloc w)\<rparr>)"
  by (simp add: with_new_def pkt_new_def Let_def fresh_pkt_def)

lemma int_of_word_of_int: "uint (word_of_int (r mod m) :: 'a::len word) = r mod m" if "0 < m" "m \<le> 2 ^ LENGTH('a)"
proof -
  have "0 \<le> r mod m" "r mod m < 2 ^ LENGTH('a)" using that pos_mod_bound [of m r] by (simp_all, linarith)
  then show ?thesis by (simp add: uint_word_of_int)
qed

lemma accessor_tests_pass:
  assumes "\<not> oom w (nalloc w)"
  shows "passes (test_new w)" "passes (test_type w)" "passes (test_window r w)" "passes (test_seqnum r w)"
    "passes (test_length r w)" "passes (test_timestamp r w)"
proof -
  note N = with_new_ok [OF assms]
  show "passes (test_new w)"
    using assms by (simp add: test_new_def pkt_new_def Let_def pkt_del_def passes_def)
  show "passes (test_type w)"
    by (simp add: test_type_def N Let_def pkt_set_type_def pkt_get_type_def pkt_del_def passes_def)
  have "uint (word_of_int (r mod 32) :: u8) = r mod 32" by (rule int_of_word_of_int) simp_all
  moreover have "r mod 32 < 32" by simp
  ultimately have win: "unat (word_of_int (r mod 32) :: u8) \<le> 31" "uint (word_of_int (r mod 32) :: u8) = r mod 32"
    by (simp_all add: unat_eq_nat_uint)
  then show "passes (test_window r w)"
    by (simp add: test_window_def N Let_def pkt_set_window_def MAX_WINDOW_SIZE_def pkt_get_window_def
        ucast_window_id pkt_del_def passes_def)
  have "uint (word_of_int (r mod 256) :: u8) = r mod 256" by (rule int_of_word_of_int) simp_all
  then show "passes (test_seqnum r w)"
    by (simp add: test_seqnum_def N Let_def pkt_set_seqnum_def pkt_get_seqnum_def pkt_del_def passes_def)
  have "uint (word_of_int (r mod 513) :: u16) = r mod 513" by (rule int_of_word_of_int) simp_all
  moreover have "r mod 513 < 513" by simp
  ultimately have "unat (word_of_int (r mod 513) :: u16) \<le> 512" "uint (word_of_int (r mod 513) :: u16) = r mod 513"
    by (simp_all add: unat_eq_nat_uint)
  then show "passes (test_length r w)"
    by (simp add: test_length_def N Let_def setter_defs getter_defs MAX_PAYLOAD_SIZE_def pkt_del_def passes_def)
  show "passes (test_timestamp r w)"
    by (simp add: test_timestamp_def N Let_def pkt_set_timestamp_def pkt_get_timestamp_def pkt_del_def passes_def)
qed

text \<open>The text, with the terminating byte that \<open>pkt_set_payload\<close> is told to store.\<close>

lemma test_text [simp]: "length test_text = 15" "0 \<notin> set test_text" "test_text \<noteq> []"
  by (simp_all add: test_text_def)

lemma set_text:
  assumes "\<not> oom w (nalloc w)" "TR p = 0" "live w (PAYLOAD p)"
  shows "pkt_set_payload p (Some (test_text @ [0])) 16 w =
    Inr (PKT_OK, p\<lparr>LENGTH_f := htons 16, PAYLOAD := Some (nalloc w)\<rparr>, stored w (test_text @ [0]))"
  using set_payload_eq [of w 16 "test_text @ [0]" p] assms by simp

lemma string_text: "mem w a = Some (test_text @ [0]) \<Longrightarrow> string_at (Some a) w = Inr test_text"
  using c_string_app [of test_text "[]"] by (simp add: string_at_def)

lemma payload_test_passes:
  assumes "\<forall>k. \<not> oom w k" "length buf2 = 100"
  shows "passes (test_payload buf2 w)"
proof -
  let ?w1 = "w\<lparr>nalloc := Suc (nalloc w)\<rparr>" and ?b = "put_at 0 test_text buf2"
  let ?p1 = "fresh_pkt w\<lparr>LENGTH_f := htons 16, PAYLOAD := Some (Suc (nalloc w))\<rparr>"
  let ?w2 = "stored ?w1 (test_text @ [0])"
  have 1: "pkt_set_payload (fresh_pkt w) (Some (test_text @ [0])) 16 ?w1 = Inr (PKT_OK, ?p1, ?w2)"
    using set_text [of ?w1 "fresh_pkt w"] assms(1) by simp
  have g: "pkt_get_payload ?p1 = Some (Suc (nalloc w))" "pkt_get_length ?p1 = 16"
    by (simp_all add: pkt_get_payload_def pkt_get_length_def)
  have 2: "pkt_set_payload ?p1 (Some ?b) 100 ?w2 = Inr (PKT_OK, ?p1\<lparr>LENGTH_f := htons 100,
      PAYLOAD := Some (Suc (Suc (nalloc w)))\<rparr>, stored ?w2 (take 100 ?b))"
    using set_payload_eq [of ?w2 100 ?b ?p1] assms by simp
  have "arr_write buf2 0 test_text = Inr ?b" using assms(2) by (simp add: arr_write_def)
  then show ?thesis
    using assms(1) string_text [of ?w2 "Suc (nalloc w)"]
    by (simp add: test_payload_def with_new_ok 1 2 g pkt_del_def free_Some passes_def)
qed

section \<open>Encoding and decoding\<close>

text \<open>What the tests do before they differ.\<close>

definition text_pkt :: "world \<Rightarrow> pkt" where
  "text_pkt w = fresh_pkt w\<lparr>LENGTH_f := htons 16, PAYLOAD := Some (nalloc w + 2)\<rparr>"

definition text_world :: "world \<Rightarrow> world" where
  "text_world w = stored (w\<lparr>nalloc := nalloc w + 2\<rparr>) (test_text @ [0])"

definition text_header :: "world \<Rightarrow> bytes" where
  "text_header w = header_bytes (text_pkt w\<lparr>TIMESTAMP := stamp w\<rparr>)"

definition text_image :: "crc_fun \<Rightarrow> bytes \<Rightarrow> world \<Rightarrow> bytes" where
  "text_image crc32 data w = packet_image crc32 (text_header w) (test_text @ [0]) @ drop 32 data"

lemma text_encoded:
  assumes "\<forall>k. \<not> oom w k" "length data = 528"
  shows "with_new w (\<lambda>pkt1 w1. with_new w1 (\<lambda>pkt2 w2.
     andthen (pkt_set_payload pkt1 (Some (test_text @ [0])) 16 w2) (\<lambda>(st0, p1, w3).
     andthen (pkt_encode crc32 p1 data 528 w3) (\<lambda>(st1, len, data1, p1', w4).
     F pkt2 st1 data1 p1' w4)))) =
   F (fresh_pkt (w\<lparr>nalloc := Suc (nalloc w)\<rparr>)) PKT_OK (text_image crc32 data w)
     (encoded crc32 (text_pkt w) (test_text @ [0]) (text_world w)) (snd (gettimeofday (text_world w)))"
proof -
  let ?w2 = "w\<lparr>nalloc := Suc (Suc (nalloc w))\<rparr>"
  have 1: "pkt_set_payload (fresh_pkt w) (Some (test_text @ [0])) 16 ?w2 = Inr (PKT_OK, text_pkt w, text_world w)"
    using set_text [of ?w2 "fresh_pkt w"] assms(1) by (simp add: text_pkt_def text_world_def)
  have pl: "payload_is (text_pkt w) (text_world w) (test_text @ [0])"
    by (simp add: payload_is_def text_pkt_def text_world_def MAX_PAYLOAD_SIZE_def)
  have "stamp (text_world w) = stamp w" by (simp add: stamp_def text_world_def)
  then have 2: "pkt_encode crc32 (text_pkt w) data 528 (text_world w) = Inr (PKT_OK, wire_len (test_text @ [0]),
      text_image crc32 data w, encoded crc32 (text_pkt w) (test_text @ [0]) (text_world w),
      snd (gettimeofday (text_world w)))"
    using encode_ok [OF pl, of data crc32 528] assms(2) by (simp add: text_image_def text_header_def)
  show ?thesis using assms(1) by (simp add: with_new_ok 1 2)
qed

lemma text_shown: "shown (text_pkt w\<lparr>TIMESTAMP := t\<rparr>) (test_text @ [0])"
  by (simp add: shown_def text_pkt_def MAX_PAYLOAD_SIZE_def)

lemma del_two:
  assumes "live w (PAYLOAD p)" "live w (PAYLOAD q)" "PAYLOAD q \<noteq> PAYLOAD p"
  shows "\<exists>w1 w2. pkt_del (Some p) w = Inr w1 \<and> pkt_del (Some q) w1 = Inr w2"
proof -
  have "live (released w (PAYLOAD p)) (PAYLOAD q)"
    using assms(2,3) by (auto simp: live_def released_def split: option.splits)
  with assms(1) show ?thesis by (simp add: pkt_del_def free_released)
qed

lemma encode_test_passes:
  assumes "\<forall>k. \<not> oom w k" "length data = 528"
  shows "passes (test_encode crc32 data w)"
proof -
  let ?q = "fresh_pkt (w\<lparr>nalloc := Suc (nalloc w)\<rparr>)" and ?w4 = "snd (gettimeofday (text_world w))"
  let ?p = "text_pkt w\<lparr>TIMESTAMP := stamp w\<rparr>" and ?e = "encoded crc32 (text_pkt w) (test_text @ [0]) (text_world w)"
  let ?r = "received crc32 ?p (test_text @ [0]) ?q ?w4" and ?w5 = "stored ?w4 (test_text @ [0])"
  have "length (text_image crc32 data w) = 528" using assms(2) by (simp add: text_image_def text_header_def)
  then have "pkt_decode crc32 (text_image crc32 data w) 528 ?q ?w4 =
      Inr (decode_result crc32 (text_image crc32 data w) 528 ?q ?w4)"
    using assms(1) by (intro decode_eq) (simp_all add: text_world_def)
  also have "decode_result crc32 (text_image crc32 data w) 528 ?q ?w4 = (PKT_OK, ?r, ?w5)"
    unfolding text_image_def text_header_def using decode_image [OF text_shown, of 528] by simp
  finally have dec: "pkt_decode crc32 (text_image crc32 data w) 528 ?q ?w4 = Inr (PKT_OK, ?r, ?w5)" .
  note R = received_getters [OF text_shown [where w = w and t = "stamp w"], of crc32 ?q ?w4]
  have st: "stamp (text_world w) = stamp w" by (simp add: stamp_def text_world_def)
  have E: "pkt_get_tr ?e = pkt_get_tr ?p" "pkt_get_type ?e = pkt_get_type ?p" "pkt_get_window ?e = pkt_get_window ?p"
    "pkt_get_timestamp ?e = pkt_get_timestamp ?p" "pkt_get_crc1 ?e = crc_of crc32 (Some (header_bytes ?p))"
    "pkt_get_crc2 ?e = crc_of crc32 (Some (test_text @ [0]))" "PAYLOAD ?e = Some (nalloc w + 2)"
    by (simp_all add: encoded_def Let_def getter_defs st text_pkt_def)
  have pr: "PAYLOAD ?r = Some (nalloc w + 3)" "pkt_get_payload ?r = Some (nalloc w + 3)"
    by (simp_all add: received_def Let_def text_world_def pkt_get_payload_def pkt_get_length_def text_pkt_def)
  have str: "string_at (Some (nalloc w + 3)) ?w5 = Inr test_text"
    by (rule string_text) (simp add: text_world_def)
  have "live ?w5 (PAYLOAD ?e)" "live ?w5 (PAYLOAD ?r)" "PAYLOAD ?r \<noteq> PAYLOAD ?e"
    unfolding E(7) pr(1) by (simp_all add: text_world_def)
  from del_two [OF this] obtain w6 w7 where
    del: "pkt_del (Some ?e) ?w5 = Inr w6" "pkt_del (Some ?r) w6 = Inr w7" by blast
  show ?thesis
    unfolding test_encode_def text_encoded [OF assms]
    by (simp only: dec andthen_Inr prod.case pr(2) str del R E) (simp add: passes_def)
qed

section \<open>Altered datagrams\<close>

text \<open>What is documented of a cyclic check-sum of 32 bits: it differs for two inputs that differ in four
  consecutive bytes only.\<close>

definition burst_detecting :: "crc_fun \<Rightarrow> bool" where
  "burst_detecting crc32 \<longleftrightarrow> (\<forall>xs ys us zs. length ys = 4 \<longrightarrow> length us = 4 \<longrightarrow> ys \<noteq> us \<longrightarrow>
     crc_of crc32 (Some (xs @ ys @ zs)) \<noteq> crc_of crc32 (Some (xs @ us @ zs)))"

definition fill :: bytes where
  "fill = replicate 4 (word_of_int 1345)"

lemma fill_text:
  "length fill = 4" "take 4 test_text \<noteq> fill" "take 4 (drop 4 test_text) \<noteq> fill"
  by code_simp+

lemma altered_result:
  assumes "\<forall>k. \<not> oom w k" "length data = 528" "off (encoded crc32 (text_pkt w) (test_text @ [0]) (text_world w)) = n" "n \<le> 524"
    and "decode_verdict crc32 (put_at n fill (text_image crc32 data w)) 528 = E_CRC"
  shows "passes (test_altered off crc32 data w)"
proof -
  let ?q = "fresh_pkt (w\<lparr>nalloc := Suc (nalloc w)\<rparr>)" and ?w4 = "snd (gettimeofday (text_world w))"
  let ?d = "put_at n fill (text_image crc32 data w)" and ?e = "encoded crc32 (text_pkt w) (test_text @ [0]) (text_world w)"
  have len: "length (text_image crc32 data w) = 528" using assms(2) by (simp add: text_image_def text_header_def)
  then have wr: "arr_write (text_image crc32 data w) n fill = Inr ?d" "length ?d = 528"
    using assms(4) by (simp_all add: arr_write_def fill_def)
  obtain st q w5 where dr: "decode_result crc32 ?d 528 ?q ?w4 = (st, q, w5)"
    by (cases "decode_result crc32 ?d 528 ?q ?w4")
  then have st: "st = E_CRC" using assms(5) fst_decode_result [of crc32 ?d 528 ?q ?w4] by simp
  have dec: "pkt_decode crc32 ?d 528 ?q ?w4 = Inr (E_CRC, q, w5)"
    using decode_eq [of ?d ?w4 ?q crc32 528] wr(2) assms(1) dr st by (simp add: text_world_def)
  have pe: "PAYLOAD ?e = Some (nalloc w + 2)" by (simp add: encoded_def Let_def text_pkt_def)
  have "mild ?q ?w4 q w5" using decode_mild [OF dr] st by simp
  then have "live w5 (PAYLOAD ?e)" "live w5 (PAYLOAD q)" "PAYLOAD q \<noteq> PAYLOAD ?e"
    unfolding pe by (auto simp: mild_def text_world_def)
  from del_two [OF this] obtain w6 w7 where
    del: "pkt_del (Some ?e) w5 = Inr w6" "pkt_del (Some q) w6 = Inr w7" by blast
  show ?thesis
    unfolding test_altered_def text_encoded [OF assms(1,2)] fill_def [symmetric]
    by (simp only: assms(3) wr(1) dec andthen_Inr prod.case del) (simp add: passes_def)
qed

text \<open>The bytes of the header, and where the others lie.\<close>

lemma text_header_parts:
  "length (text_header w) = 8" "text_header w = take 4 (text_header w) @ le32 (stamp w)"
  "wire_length (take 4 (text_header w) @ xs) = 16" "\<not> wire_tr (take 4 (text_header w) @ xs)"
proof -
  let ?p = "text_pkt w\<lparr>TIMESTAMP := stamp w\<rparr>"
  show "length (text_header w) = 8" by (simp add: text_header_def)
  have h: "text_header w = ([byte0 ?p, SEQNUM ?p] @ le16 (LENGTH_f ?p)) @ le32 (stamp w)"
    by (simp add: text_header_def header_bytes_def)
  have t: "take 4 (text_header w) = [byte0 ?p, SEQNUM ?p] @ le16 (LENGTH_f ?p)"
    unfolding h by simp
  show "text_header w = take 4 (text_header w) @ le32 (stamp w)"
    unfolding t by (rule h)
  show "wire_length (take 4 (text_header w) @ xs) = 16"
    unfolding t by (simp add: wire_length_def text_pkt_def)
  have "TR ?p = 0" by (simp add: text_pkt_def)
  with wire_header(2) [of ?p "[]"] show "\<not> wire_tr (take 4 (text_header w) @ xs)"
    unfolding t by (simp add: wire_tr_def header_bytes_def)
qed

lemma wire_text:
  "wire_length (text_header w @ xs) = 16" "\<not> wire_tr (text_header w @ xs)"
  using text_header_parts(3,4) [of w "le32 (stamp w) @ xs"] text_header_parts(2) [of w]
  by (metis append_assoc)+

lemma payload_verdict:
  assumes "length bs = 16" "crc_of crc32 (Some bs) \<noteq> crc_of crc32 (Some (test_text @ [0]))"
  shows "decode_verdict crc32 (text_header w @ be32 (crc_of crc32 (Some (text_header w))) @ bs @
    be32 (crc_of crc32 (Some (test_text @ [0]))) @ rest) 528 = E_CRC"
  using assms text_header_parts(1) [of w]
  by (simp add: decode_verdict_def MAX_PAYLOAD_SIZE_def wire_text crc1_matches_def crc2_matches_def Let_def)

lemma altered_verdicts:
  assumes "burst_detecting crc32" "le32 (stamp w) \<noteq> fill" "be32 (crc_of crc32 (Some (text_header w))) \<noteq> fill"
    and "n \<in> {4, 8, 12, 16}"
  shows "decode_verdict crc32 (put_at n fill (text_image crc32 data w)) 528 = E_CRC"
proof -
  let ?h = "text_header w" let ?c = "crc_of crc32 (Some ?h)" let ?bs = "test_text @ [0]"
  let ?r = "be32 (crc_of crc32 (Some ?bs)) @ drop 32 data"
  have im: "text_image crc32 data w = ?h @ be32 ?c @ ?bs @ ?r"
    by (simp add: text_image_def packet_image_def)
  note burst = assms(1) [unfolded burst_detecting_def, rule_format]
  have h: "length ?h = 8" using text_header_parts(1) .
  have t: "length (test_text @ [0]) = 16" by simp
  consider "n = 4" | "n = 8" | "n = 12" | "n = 16" using assms(4) by auto
  then show ?thesis
  proof cases
    case 1
    have "put_at 4 fill (text_image crc32 data w) = (take 4 ?h @ fill) @ be32 ?c @ ?bs @ ?r"
      using h fill_text(1) by (simp add: put_at_def im)
    moreover have "crc_of crc32 (Some (take 4 ?h @ fill)) \<noteq> ?c"
      using burst [OF length_le32 fill_text(1) assms(2), of "take 4 ?h" "[]"] text_header_parts(2) [of w] by simp
    ultimately show ?thesis
      using 1 h fill_text(1) text_header_parts(3) [of w "fill @ be32 ?c @ ?bs @ ?r"]
      by (simp add: decode_verdict_def MAX_PAYLOAD_SIZE_def crc1_matches_def)
  next
    case 2
    have "put_at 8 fill (text_image crc32 data w) = ?h @ fill @ ?bs @ ?r"
      using h fill_text(1) by (simp add: put_at_def im)
    with 2 h fill_text(1) assms(3) show ?thesis
      by (simp add: decode_verdict_def MAX_PAYLOAD_SIZE_def wire_text crc1_matches_def)
  next
    case 3
    have split: "?bs = take 4 test_text @ (drop 4 test_text @ [0])" by simp
    have l: "length (take 4 test_text) = 4" by simp
    have "put_at 12 fill (text_image crc32 data w) = ?h @ be32 ?c @ (fill @ drop 4 test_text @ [0]) @ ?r"
      using h fill_text(1) by (simp add: put_at_def im)
    moreover have "crc_of crc32 (Some (fill @ drop 4 test_text @ [0])) \<noteq> crc_of crc32 (Some ?bs)"
      using burst [OF l fill_text(1,2), of "[]" "drop 4 test_text @ [0]"] by (simp only: append_Nil split [symmetric])
    ultimately show ?thesis
      using 3 payload_verdict [of "fill @ drop 4 test_text @ [0]" crc32 w] fill_text(1) by simp
  next
    case 4
    let ?m = "take 4 test_text @ fill @ drop 8 test_text @ [0]"
    have split: "?bs = take 4 test_text @ take 4 (drop 4 test_text) @ drop 8 test_text @ [0]"
      using append_take_drop_id [of 4 "drop 4 test_text"] append_take_drop_id [of 4 test_text] by simp
    have l: "length (take 4 (drop 4 test_text)) = 4" by simp
    have "put_at 16 fill (text_image crc32 data w) = ?h @ be32 ?c @ ?m @ ?r"
      using h fill_text(1) by (simp add: put_at_def im)
    moreover have "crc_of crc32 (Some ?m) \<noteq> crc_of crc32 (Some ?bs)"
      using burst [OF l fill_text(1,3), of "take 4 test_text" "drop 8 test_text @ [0]"] by (simp only: split [symmetric])
    ultimately show ?thesis
      using 4 payload_verdict [of ?m crc32 w] fill_text(1) by simp
  qed
qed

section \<open>The comparison of the two files\<close>

text \<open>The loop at the end of \<open>send_receive\<close> and \<open>send_receive_long\<close>: \<open>None\<close> is \<open>EOF\<close>.\<close>

fun getc :: "bytes \<Rightarrow> byte option \<times> bytes" where
  "getc [] = (None, [])"
| "getc (b # bs) = (Some b, bs)"

lemma getc_length: "getc fd = (c, fd') \<Longrightarrow> length fd = length fd' + (if c = None then 0 else 1)"
  by (cases fd) auto

function compare_files :: "byte option \<Rightarrow> byte option \<Rightarrow> bytes \<Rightarrow> bytes \<Rightarrow> bool" where
  "compare_files ch1 ch2 fd1 fd2 =
     (if ch1 \<noteq> None \<and> ch2 \<noteq> None \<and> ch1 = ch2 then
        let (ch1', fd1') = getc fd1; (ch2', fd2') = getc fd2 in compare_files ch1' ch2' fd1' fd2'
      else ch1 = ch2)"
  by pat_completeness auto
termination
  by (relation "measure (\<lambda>(ch1, ch2, fd1, fd2). length fd1 + (if ch1 = None then 0 else 1))")
     (auto dest!: getc_length [OF sym] split: if_splits)

declare compare_files.simps [simp del]

definition files_equal :: "bytes \<Rightarrow> bytes \<Rightarrow> bool" where
  "files_equal f1 f2 = (let (ch1, fd1) = getc f1; (ch2, fd2) = getc f2 in compare_files ch1 ch2 fd1 fd2)"

lemma files_equal_Cons: "files_equal (x # xs) (y # ys) \<longleftrightarrow> x = y \<and> files_equal xs ys"
  using compare_files.simps [of "Some x" "Some y" xs ys] by (simp add: files_equal_def)

lemma files_equal_iff: "files_equal xs ys \<longleftrightarrow> xs = ys"
proof (induction xs arbitrary: ys)
  case Nil
  then show ?case by (cases ys) (simp_all add: files_equal_def compare_files.simps)
next
  case (Cons x xs)
  then show ?case by (cases ys) (simp_all add: files_equal_Cons, simp add: files_equal_def compare_files.simps)
qed

text \<open>The two tests that transfer a file, after both programs have returned: over the loopback interface
  nothing is lost, and the assertion holds.\<close>

lemma send_receive_passes:
  assumes "reachable (net_init g) (net_step g False) c" "both_left c"
  shows "files_equal (concat (map (chunks g) [0..<f_size g])) (file_of (obslog (c_rw c)))"
  using net_inv_file [OF net.reachable_inv [OF assms(1)]] assms(2)
  by (auto simp: files_equal_iff both_left_def ended_def)

section \<open>The suite\<close>

text \<open>The tests of the suite that do not fork, in its order. Each is started in the same
  world, which the theorem leaves open, and \<open>rand k\<close> is what the call of \<open>rand\<close> number \<open>k\<close> gives.\<close>

definition suite :: "crc_fun \<Rightarrow> (nat \<Rightarrow> int) \<Rightarrow> bytes \<Rightarrow> bytes \<Rightarrow> world \<Rightarrow> bool list outcome list" where
  "suite crc32 rand buf2 data w =
     [test_new w, test_type w, test_window (rand 0) w, test_seqnum (rand 1) w, test_length (rand 2) w,
      test_timestamp (rand 3) w, test_payload buf2 w, test_encode crc32 data w,
      test_error_timestamp crc32 data w, test_error_crc1 crc32 data w, test_error_crc2 crc32 data w,
      test_error_payload crc32 data w]"

lemma altered_tests_pass:
  assumes "\<forall>k. \<not> oom w k" "length data = 528" "burst_detecting crc32" "le32 (stamp w) \<noteq> fill"
    and "be32 (crc_of crc32 (Some (text_header w))) \<noteq> fill"
  shows "passes (test_error_timestamp crc32 data w)" "passes (test_error_crc1 crc32 data w)"
    "passes (test_error_crc2 crc32 data w)" "passes (test_error_payload crc32 data w)"
proof -
  note A = altered_result [OF assms(1,2)] and V = altered_verdicts [OF assms(3-5)]
  show "passes (test_error_timestamp crc32 data w)" "passes (test_error_crc1 crc32 data w)"
    "passes (test_error_crc2 crc32 data w)"
    unfolding test_error_timestamp_def test_error_crc1_def test_error_crc2_def
    by (rule A [where n = 4] A [where n = 8] A [where n = 12]; simp add: V)+
  show "passes (test_error_payload crc32 data w)"
    unfolding test_error_payload_def
    by (rule A [where n = 16]) (simp_all add: V encoded_def Let_def getter_defs text_pkt_def)
qed

text \<open>C35. The suite passes: with a heap that has memory, a check-sum that notices a burst of 32 bits, and
  a clock and a check-sum of the header that the four overwritten bytes do not happen to repeat, every
  assertion of the twelve tests holds, whatever \<open>rand\<close> gives and whatever the arrays held.\<close>

theorem unit_tests_pass:
  assumes "\<forall>k. \<not> oom w k" "length buf2 = 100" "length data = 528" "burst_detecting crc32"
    and "le32 (stamp w) \<noteq> fill" "be32 (crc_of crc32 (Some (text_header w))) \<noteq> fill"
  shows "list_all passes (suite crc32 rand buf2 data w)"
  using assms(1) by (simp add: suite_def accessor_tests_pass payload_test_passes [OF assms(1,2)]
    encode_test_passes [OF assms(1,3)] altered_tests_pass [OF assms(1,3-6)])

text \<open>A check-sum that detects such bursts: the sum of the bytes, each in the lane of its position.\<close>

fun lanes :: "nat \<Rightarrow> bytes \<Rightarrow> u32" where
  "lanes k [] = 0"
| "lanes k (b # bs) = ucast b * 256 ^ (k mod 4) + lanes (Suc k) bs"

definition lane_crc :: crc_fun where
  "lane_crc c r = (case r of None \<Rightarrow> c | Some bs \<Rightarrow> c + lanes 0 bs)"

lemma lanes_app: "lanes k (xs @ ys) = lanes k xs + lanes (k + length xs) ys"
  by (induction xs arbitrary: k) simp_all

lemma of_le_step: "(of_le (b # bs) :: u32) = ucast b + 256 * of_le bs"
proof -
  have "(ucast b AND push_bit 8 (of_le bs) :: u32) = 0"
    by (rule bit_word_eqI) (auto simp: bit_simps dest: bit_imp_le_length)
  then have "(ucast b OR push_bit 8 (of_le bs) :: u32) = ucast b + push_bit 8 (of_le bs)"
    using word_plus_and_or [of "ucast b :: u32" "push_bit 8 (of_le bs)"] by simp
  then show ?thesis by (simp add: push_bit_eq_mult mult.commute)
qed

lemma lanes_4: "lanes k [a, b, c, d] = (if k mod 4 = 0 then of_le [a, b, c, d] else
    if k mod 4 = 1 then of_le [d, a, b, c] else if k mod 4 = 2 then of_le [c, d, a, b] else of_le [b, c, d, a])"
proof -
  consider "k mod 4 = 0" | "k mod 4 = 1" | "k mod 4 = 2" | "k mod 4 = 3" by linarith
  then show ?thesis
    by cases (simp_all add: mod_Suc of_le_step algebra_simps del: of_le.simps(2))
qed

lemma of_le_inj: "length xs = 4 \<Longrightarrow> length ys = 4 \<Longrightarrow> (of_le xs :: u32) = of_le ys \<longleftrightarrow> xs = ys"
  by (metis le32_of_le)

lemma lane_crc_detects: "burst_detecting lane_crc"
  unfolding burst_detecting_def
proof (intro allI impI)
  fix xs ys us zs :: bytes
  assume l: "length ys = 4" "length us = 4" and "ys \<noteq> us"
  moreover obtain a b c d where "ys = [a, b, c, d]" using l(1) by (auto simp: numeral_eq_Suc length_Suc_conv)
  moreover obtain a' b' c' d' where "us = [a', b', c', d']" using l(2) by (auto simp: numeral_eq_Suc length_Suc_conv)
  ultimately have "lanes (length xs) ys \<noteq> lanes (length xs) us"
    by (auto simp: lanes_4 of_le_inj simp del: of_le.simps lanes.simps)
  with l show "crc_of lane_crc (Some (xs @ ys @ zs)) \<noteq> crc_of lane_crc (Some (xs @ us @ zs))"
    by (simp add: crc_of_def lane_crc_def lanes_app)
qed

theorem unit_tests_pass_witness:
  "list_all passes (suite lane_crc (\<lambda>k. 12345 * int k) (replicate 100 0) (replicate 528 0) world0)"
proof (rule unit_tests_pass)
  show "le32 (stamp world0) \<noteq> fill" by code_simp
  show "be32 (crc_of lane_crc (Some (text_header world0))) \<noteq> fill" by code_simp
qed (simp_all add: lane_crc_detects)

end
