(* ===== verification/Files.thy ===== *)
theory Files
  imports Memory
begin

text \<open>
  The parts of the C library that the record codec and the earlier packet codec use beside
  theory Memory: \<open>realloc\<close>, and \<open>fread\<close> and \<open>fwrite\<close> on a \<open>FILE\<close>. A file being written takes
  \<open>room\<close> more bytes before the device is full; a file being read is what is left of it.
\<close>

section \<open>Reallocation\<close>

text \<open>A size beyond \<open>PTRDIFF_MAX\<close> always fails; a failing call leaves the old block alone. Size 0
  releases the block and gives \<open>NULL\<close>, as the GNU library does.\<close>

definition realloc :: "ptr \<Rightarrow> nat \<Rightarrow> world \<Rightarrow> (ptr \<times> world) outcome" where
  "realloc p n w =
     (let k = nalloc w; w1 = w\<lparr>nalloc := Suc k\<rparr> in
      case p of
        None \<Rightarrow> if oom w k \<or> n \<ge> 2 ^ 63 then Inr (None, w1)
                else Inr (Some k, w1\<lparr>mem := (mem w)(k \<mapsto> map (junk w k) [0..<n])\<rparr>)
      | Some a \<Rightarrow>
          (case mem w a of
             None \<Rightarrow> Inl UseAfterFree
           | Some bs \<Rightarrow>
               if n = 0 then Inr (None, w\<lparr>mem := (mem w)(a := None)\<rparr>)
               else if oom w k \<or> n \<ge> 2 ^ 63 then Inr (None, w1)
               else Inr (Some k, w1\<lparr>mem := (mem w)(a := None,
                      k \<mapsto> take n bs @ map (junk w k) [length bs..<n])\<rparr>)))"

text \<open>The world after a \<open>realloc\<close> whose new block was then filled with \<open>bs\<close>.\<close>

definition moved :: "world \<Rightarrow> ptr \<Rightarrow> bytes \<Rightarrow> world" where
  "moved w p bs = w\<lparr>nalloc := Suc (nalloc w),
     mem := (case p of None \<Rightarrow> mem w | Some a \<Rightarrow> (mem w)(a := None))(nalloc w \<mapsto> bs)\<rparr>"

lemma moved_sel [simp]:
  "nalloc (moved w p bs) = Suc (nalloc w)" "oom (moved w p bs) = oom w"
  "mem (moved w p bs) (nalloc w) = Some bs" "obslog (moved w p bs) = obslog w"
  by (simp_all add: moved_def)

lemma realloc_memcpy:
  assumes "live w p" "heap_ok w" "\<not> oom w (nalloc w)" "0 < n" "n < 2 ^ 63" "n \<le> length bs"
  shows "\<exists>w1. realloc p n w = Inr (Some (nalloc w), w1) \<and>
    memcpy_to (Some (nalloc w)) (Some bs) n w1 = Inr (moved w p (take n bs))"
proof -
  have ne: "p \<noteq> Some (nalloc w)" using assms(1) heap_ok_nalloc [OF assms(2)] by (auto simp: live_def)
  have "put_at 0 (take n bs) blk = take n bs" if "length blk = n" for blk
    using that assms(6) by (simp add: put_at_0)
  with assms ne show ?thesis
    by (auto simp: realloc_def memcpy_to_def arr_read_def arr_write_def moved_def Let_def live_def
        fun_upd_twist split: option.splits)
qed

lemma heap_ok_moved: "heap_ok w \<Longrightarrow> heap_ok (moved w p bs)"
  by (auto simp: heap_ok_def moved_def split: option.splits)

section \<open>Files\<close>

record sink =
  fbytes :: bytes
  room :: nat

text \<open>\<open>fwrite\<close> of items of the given size: the number of complete items written.\<close>

definition fwrite :: "bytes \<Rightarrow> nat \<Rightarrow> sink \<Rightarrow> nat \<times> sink" where
  "fwrite bs sz f =
     (let k = min (length bs) (room f) in
      (k div sz, f\<lparr>fbytes := fbytes f @ take k bs, room := room f - k\<rparr>))"

text \<open>\<open>fread\<close> of up to \<open>n\<close> items: the bytes read, the number of complete items, the rest.\<close>

definition fread :: "nat \<Rightarrow> nat \<Rightarrow> bytes \<Rightarrow> bytes \<times> nat \<times> bytes" where
  "fread sz n f = (take (sz * n) f, length (take (sz * n) f) div sz, drop (sz * n) f)"

lemma fwrite_fits:
  "length bs \<le> room f \<Longrightarrow> fwrite bs sz f =
     (length bs div sz, f\<lparr>fbytes := fbytes f @ bs, room := room f - length bs\<rparr>)"
  by (simp add: fwrite_def Let_def min_absorb1)

lemma fwrite_full:
  "room f < length bs \<Longrightarrow> fwrite bs sz f =
     (room f div sz, f\<lparr>fbytes := fbytes f @ take (room f) bs, room := 0\<rparr>)"
  by (simp add: fwrite_def Let_def min_absorb2)

lemma fread_append: "length bs = sz * n \<Longrightarrow> 0 < sz \<Longrightarrow> fread sz n (bs @ rest) = (bs, n, rest)"
  by (simp add: fread_def)

end
