(* ===== verification/Segment_Access.thy ===== *)
theory Segment_Access
  imports Packet_Laws
begin

text \<open>
  The accessors of the segment format exercise (packet_implem.c under
  Format_des_segments_du_projet_de_groupe). That program has its own copy of the structure and of
  these functions; the structure is the record of theory Packet, the functions are translated
  here from the copy. They agree with those of Projet1, so the laws of theory Packet_Laws serve both.
\<close>

section \<open>The functions\<close>

definition seg_pkt_get_type :: "pkt \<Rightarrow> u32" where
  "seg_pkt_get_type p = ucast (TYPE_f p)"

definition seg_pkt_get_tr :: "pkt \<Rightarrow> u8" where
  "seg_pkt_get_tr p = ucast (TR p)"

definition seg_pkt_get_window :: "pkt \<Rightarrow> u8" where
  "seg_pkt_get_window p = ucast (WINDOW p)"

definition seg_pkt_get_seqnum :: "pkt \<Rightarrow> u8" where
  "seg_pkt_get_seqnum p = SEQNUM p"

definition seg_pkt_get_length :: "pkt \<Rightarrow> u16" where
  "seg_pkt_get_length p = (if TR p = 0 then ntohs (LENGTH_f p) else 0)"

definition seg_pkt_get_timestamp :: "pkt \<Rightarrow> u32" where
  "seg_pkt_get_timestamp p = TIMESTAMP p"

definition seg_pkt_get_crc1 :: "pkt \<Rightarrow> u32" where
  "seg_pkt_get_crc1 p = ntohl (CRC1 p)"

definition seg_pkt_get_crc2 :: "pkt \<Rightarrow> u32" where
  "seg_pkt_get_crc2 p = (if seg_pkt_get_tr p = 0 \<and> seg_pkt_get_length p \<noteq> 0 then ntohl (CRC2 p) else 0)"

definition seg_pkt_get_payload :: "pkt \<Rightarrow> ptr" where
  "seg_pkt_get_payload p = (let pkt_length = seg_pkt_get_length p in
     if pkt_length = 0 then None else PAYLOAD p)"

definition seg_pkt_set_type :: "pkt \<Rightarrow> u32 \<Rightarrow> pkt_status_code \<times> pkt" where
  "seg_pkt_set_type p type =
     (if type = PTYPE_DATA \<or> type = PTYPE_ACK \<or> type = PTYPE_NACK
      then (PKT_OK, p\<lparr>TYPE_f := ucast type\<rparr>) else (E_TYPE, p))"

definition seg_pkt_set_tr :: "pkt \<Rightarrow> u8 \<Rightarrow> pkt_status_code \<times> pkt" where
  "seg_pkt_set_tr p tr =
     (if ucast (TYPE_f p) = PTYPE_DATA then
        (if tr > 1 then (E_TR, p) else (PKT_OK, p\<lparr>TR := ucast tr\<rparr>))
      else (E_TR, p))"

definition seg_pkt_set_window :: "pkt \<Rightarrow> u8 \<Rightarrow> pkt_status_code \<times> pkt" where
  "seg_pkt_set_window p window =
     (if unat window > MAX_WINDOW_SIZE then (E_WINDOW, p) else (PKT_OK, p\<lparr>WINDOW := ucast window\<rparr>))"

definition seg_pkt_set_seqnum :: "pkt \<Rightarrow> u8 \<Rightarrow> pkt_status_code \<times> pkt" where
  "seg_pkt_set_seqnum p seqnum = (PKT_OK, p\<lparr>SEQNUM := seqnum\<rparr>)"

definition seg_pkt_set_length :: "pkt \<Rightarrow> u16 \<Rightarrow> pkt_status_code \<times> pkt" where
  "seg_pkt_set_length p len =
     (if unat len > MAX_PAYLOAD_SIZE then (E_LENGTH, p) else (PKT_OK, p\<lparr>LENGTH_f := htons len\<rparr>))"

definition seg_pkt_set_timestamp :: "pkt \<Rightarrow> u32 \<Rightarrow> pkt_status_code \<times> pkt" where
  "seg_pkt_set_timestamp p timestamp = (PKT_OK, p\<lparr>TIMESTAMP := timestamp\<rparr>)"

definition seg_pkt_set_crc1 :: "pkt \<Rightarrow> u32 \<Rightarrow> pkt_status_code \<times> pkt" where
  "seg_pkt_set_crc1 p crc1 = (PKT_OK, p\<lparr>CRC1 := htonl crc1\<rparr>)"

definition seg_pkt_set_crc2 :: "pkt \<Rightarrow> u32 \<Rightarrow> pkt_status_code \<times> pkt" where
  "seg_pkt_set_crc2 p crc2 = (PKT_OK, p\<lparr>CRC2 := htonl crc2\<rparr>)"

section \<open>Agreement with Projet1\<close>

lemmas seg_getter_defs =
  seg_pkt_get_type_def seg_pkt_get_tr_def seg_pkt_get_window_def seg_pkt_get_seqnum_def
  seg_pkt_get_length_def seg_pkt_get_timestamp_def seg_pkt_get_crc1_def seg_pkt_get_crc2_def
  seg_pkt_get_payload_def

lemmas seg_setter_defs =
  seg_pkt_set_type_def seg_pkt_set_tr_def seg_pkt_set_window_def seg_pkt_set_seqnum_def
  seg_pkt_set_length_def seg_pkt_set_timestamp_def seg_pkt_set_crc1_def seg_pkt_set_crc2_def

lemma seg_getters:
  "seg_pkt_get_type = pkt_get_type"
  "seg_pkt_get_tr = pkt_get_tr"
  "seg_pkt_get_window = pkt_get_window"
  "seg_pkt_get_seqnum = pkt_get_seqnum"
  "seg_pkt_get_length = pkt_get_length"
  "seg_pkt_get_timestamp = pkt_get_timestamp"
  "seg_pkt_get_crc1 = pkt_get_crc1"
  "seg_pkt_get_crc2 = pkt_get_crc2"
  "seg_pkt_get_payload = pkt_get_payload"
  by (rule ext; simp add: seg_getter_defs getter_defs)+

lemma seg_setters:
  "seg_pkt_set_type = pkt_set_type"
  "seg_pkt_set_tr = pkt_set_tr"
  "seg_pkt_set_window = pkt_set_window"
  "seg_pkt_set_seqnum = pkt_set_seqnum"
  "seg_pkt_set_length = pkt_set_length"
  "seg_pkt_set_timestamp = pkt_set_timestamp"
  "seg_pkt_set_crc1 = pkt_set_crc1"
  "seg_pkt_set_crc2 = pkt_set_crc2"
  by (rule ext, rule ext, simp add: seg_setter_defs setter_defs)+

lemmas seg_accessors = seg_getters seg_setters

end
