(* ===== verification/Segment_Codec.thy ===== *)
theory Segment_Codec
  imports Files Codec Segment_Access
begin

text \<open>
  The packet codec handed in for the segment format exercise (packet_implem.c under
  Format_des_segments_du_projet_de_groupe), the predecessor of the one of Projet1, under names with
  the prefix \<open>seg_\<close> (accessors: theory Segment_Access). It differs from its successor: the constructor
  allocates a payload of 512 bytes, a payload is stored with \<open>realloc\<close>, \<open>pkt_encode\<close> checks the
  capacity and does not take the time, \<open>pkt_decode\<close> goes through the setters.
\<close>

section \<open>Construction\<close>

text \<open>Two allocations; when the second fails the structure is released.\<close>

definition seg_pkt_new :: "world \<Rightarrow> pkt option \<times> world" where
  "seg_pkt_new w =
     (let k = nalloc w; w1 = w\<lparr>nalloc := Suc k\<rparr> in
      if oom w k then (None, w1)
      else if oom w (Suc k) then (None, w1\<lparr>nalloc := Suc (Suc k)\<rparr>)
      else (Some \<lparr>WINDOW = 0, TR = 0, TYPE_f = 1, SEQNUM = junk w k 1, LENGTH_f = htons 0,
                  TIMESTAMP = 0, CRC1 = 0, PAYLOAD = Some (Suc k), CRC2 = 0\<rparr>,
            w1\<lparr>nalloc := Suc (Suc k), mem := (mem w)(Suc k \<mapsto> replicate 512 0)\<rparr>))"

definition seg_pkt_del :: "pkt option \<Rightarrow> world \<Rightarrow> world outcome" where
  "seg_pkt_del p w = (case p of None \<Rightarrow> Inl NullDeref | Some q \<Rightarrow> free (PAYLOAD q) w)"

definition seg_pkt_set_payload ::
    "pkt \<Rightarrow> bytes option \<Rightarrow> u16 \<Rightarrow> world \<Rightarrow> (pkt_status_code \<times> pkt \<times> world) outcome" where
  "seg_pkt_set_payload p data len w =
     (let (return_status, p1) = seg_pkt_set_length p len in
      if return_status = PKT_OK then
        andthen (realloc (PAYLOAD p1) (unat len) w) (\<lambda>(a, w1).
        andthen (memcpy_to a data (unat len) w1) (\<lambda>w2.
        Inr (return_status, p1\<lparr>PAYLOAD := a\<rparr>, w2)))
      else Inr (return_status, p1, w))"

section \<open>Encoding\<close>

text \<open>The first byte from its three fields.\<close>

definition seg_first_byte :: "pkt \<Rightarrow> byte" where
  "seg_first_byte p =
     ucast (push_bit 6 (seg_pkt_get_type p)) OR push_bit 5 (seg_pkt_get_tr p) OR seg_pkt_get_window p"

text \<open>The result holds the status, the new \<open>*len\<close> and the buffer. Bytes 1 to 7 are copied from the
  structure. The check-sum of the payload is written even when there is none.\<close>

definition seg_pkt_encode ::
    "crc_fun \<Rightarrow> pkt \<Rightarrow> bytes \<Rightarrow> nat \<Rightarrow> world \<Rightarrow> (pkt_status_code \<times> nat \<times> bytes) outcome" where
  "seg_pkt_encode crc32 p buf len w =
     (let n = unat (seg_pkt_get_length p);
          length_tot = (if seg_pkt_get_tr p = 0 \<and> n > 0 then n + 4 else n) in
      if len < length_tot + 12 then Inr (E_NOMEM, len, buf)
      else
        andthen (arr_write buf 0 (seg_first_byte p # drop 1 (header_bytes p))) (\<lambda>buf1.
        let crc1 = crc32 (crc32 0 None) (Some (take 8 buf1)) in
        andthen (arr_write buf1 8 (le32 (htonl crc1))) (\<lambda>buf2.
        let payload = seg_pkt_get_payload p in
        andthen (copy_payload payload w 0 n buf2) (\<lambda>buf3.
        if seg_pkt_get_tr p = 0 then
          andthen (region payload n w) (\<lambda>r.
          let crc2 = crc32 (crc32 0 None) r in
          andthen (arr_write buf3 (n + 12) (le32 (htonl crc2))) (\<lambda>buf4.
          Inr (PKT_OK, length_tot + 12, buf4)))
        else Inr (PKT_OK, length_tot + 12, buf3)))))"

section \<open>Decoding\<close>

text \<open>\<open>pkt_set_tr\<close> looks at the type that was just set. The time stamp is one \<open>char\<close>, which is
  signed, converted to 32 bits.\<close>

definition seg_decode_header ::
    "crc_fun \<Rightarrow> bytes \<Rightarrow> nat \<Rightarrow> pkt \<Rightarrow> (pkt_status_code \<times> u16 \<times> pkt) outcome" where
  "seg_decode_header crc32 data len p0 =
     (if len = 0 then Inr (E_UNCONSISTENT, 0, p0)
      else if len < 4 then Inr (E_NOHEADER, 0, p0)
      else
        andthen (arr_read data 0 1) (\<lambda>b0.
        let hd0 = hd b0; (st1, p1) = seg_pkt_set_type p0 (ucast (drop_bit 6 hd0)) in
        if st1 \<noteq> PKT_OK then Inr (st1, 0, p1) else
        let (st2, p2) = seg_pkt_set_tr p1 0 in
        if st2 \<noteq> PKT_OK then Inr (st2, 0, p2) else
        let (st3, p3) = seg_pkt_set_window p2 (hd0 AND 31) in
        if st3 \<noteq> PKT_OK then Inr (st3, 0, p3) else
        andthen (arr_read data 1 1) (\<lambda>b1.
        let (st4, p4) = seg_pkt_set_seqnum p3 (hd b1) in
        if st4 \<noteq> PKT_OK then Inr (st4, 0, p4) else
        andthen (arr_read data 2 2) (\<lambda>b2.
        let pkt_length = ntohs (of_le b2); (st5, p5) = seg_pkt_set_length p4 pkt_length in
        if st5 \<noteq> PKT_OK then Inr (st5, pkt_length, p5) else
        andthen (arr_read data 4 1) (\<lambda>b4.
        let (st6, p6) = seg_pkt_set_timestamp p5 (scast (hd b4)) in
        if st6 \<noteq> PKT_OK then Inr (st6, pkt_length, p6) else
        andthen (arr_read data 8 4) (\<lambda>b8.
        andthen (arr_read data 0 8) (\<lambda>h.
        let crc1 = ntohl (of_le b8); new_crc1 = crc32 (crc32 0 None) (Some h) in
        if crc1 \<noteq> new_crc1 then Inr (E_CRC, pkt_length, p6)
        else (let (st7, p7) = seg_pkt_set_crc1 p6 crc1 in Inr (st7, pkt_length, p7)))))))))"

definition seg_decode_payload ::
    "crc_fun \<Rightarrow> bytes \<Rightarrow> u16 \<Rightarrow> pkt_status_code \<Rightarrow> pkt \<Rightarrow> world
      \<Rightarrow> (pkt_status_code \<times> pkt \<times> world) outcome" where
  "seg_decode_payload crc32 data pkt_length st7 p7 w0 =
     andthen (if pkt_length = 0 then Inr (st7, p7, w0)
              else seg_pkt_set_payload p7 (Some (drop 12 data)) pkt_length w0) (\<lambda>(st8, p8, w).
     if st8 \<noteq> PKT_OK then Inr (st8, p8, w)
     else if pkt_length > 0 \<and> seg_pkt_get_tr p8 = 0 then
       andthen (arr_read data (12 + unat pkt_length) 4) (\<lambda>bc.
       andthen (region (seg_pkt_get_payload p8) (unat pkt_length) w) (\<lambda>r.
       let crc2 = ntohl (of_le bc); new_crc2 = crc32 (crc32 0 None) r in
       if crc2 \<noteq> new_crc2 then Inr (E_CRC, p8, w)
       else (let (st9, p9) = seg_pkt_set_crc2 p8 crc2 in Inr (st9, p9, w))))
     else Inr (st8, p8, w))"

definition seg_pkt_decode ::
    "crc_fun \<Rightarrow> bytes \<Rightarrow> nat \<Rightarrow> pkt \<Rightarrow> world \<Rightarrow> (pkt_status_code \<times> pkt \<times> world) outcome" where
  "seg_pkt_decode crc32 data len p w =
     andthen (seg_decode_header crc32 data len p) (\<lambda>(st, pkt_length, p1).
     if st \<noteq> PKT_OK then Inr (st, p1, w)
     else seg_decode_payload crc32 data pkt_length st p1 w)"

text \<open>The definitions over the accessors of Projet1, to which the laws of theory Packet_Laws apply.\<close>

lemmas seg_pkt_set_payload_eq = seg_pkt_set_payload_def [unfolded seg_accessors]
lemmas seg_first_byte_eq = seg_first_byte_def [unfolded seg_accessors]
lemmas seg_pkt_encode_eq = seg_pkt_encode_def [unfolded seg_accessors]
lemmas seg_decode_header_eq = seg_decode_header_def [unfolded seg_accessors]
lemmas seg_decode_payload_eq = seg_decode_payload_def [unfolded seg_accessors]

end
