(* ===== verification/Segment_Props.thy ===== *)
theory Segment_Props
  imports Segment_Codec Receiver_Props
begin

text \<open>
  The properties of the segment codec, each followed by an instance.
\<close>

section \<open>Encoding\<close>

lemma seg_first_byte: "seg_first_byte p = byte0 p"
  by (rule bit_word_eqI)
    (auto simp: seg_first_byte_eq byte0_def getter_defs bit_simps dest: bit_imp_le_length)

lemma seg_header: "seg_first_byte p # drop 1 (header_bytes p) = header_bytes p"
  by (simp add: seg_first_byte header_bytes_def)

lemma seg_encode_fits:
  assumes "payload_is p w bs" "16 + length bs \<le> length buf" "wire_len bs \<le> len"
  shows "seg_pkt_encode crc32 p buf len w =
    Inr (PKT_OK, wire_len bs, packet_image crc32 (header_bytes p) bs @ drop (16 + length bs) buf)"
proof -
  let ?n = "length bs" and ?h = "header_bytes p"
  let ?c1 = "crc_of crc32 (Some ?h)" and ?c2 = "crc_of crc32 (if bs = [] then None else Some bs)"
  have tr: "pkt_get_tr p = 0" and n: "unat (pkt_get_length p) = ?n"
    using assms(1) payload_is_length [OF assms(1)] by (simp_all add: payload_is_def pkt_get_tr_def)
  note b = image_steps [OF length_header_bytes]
  have cp: "copy_payload (pkt_get_payload p) w 0 ?n (?h @ be32 ?c1 @ drop 12 buf) =
      Inr (?h @ be32 ?c1 @ bs @ drop (12 + ?n) buf)"
    using copy_payload_is [OF assms(1), of "?h @ be32 ?c1 @ drop 12 buf"] assms(2) by (simp add: b)
  have rg: "region (pkt_get_payload p) ?n w = Inr (if bs = [] then None else Some bs)"
    using assms(1) by (rule payload_is_region)
  have wl: "\<not> len < (if 0 < ?n then ?n + 4 else ?n) + 12"
    using assms(3) by (simp add: wire_len_def split: if_splits)
  show ?thesis
    unfolding seg_pkt_encode_eq seg_header Let_def n tr
    using assms(2) wl
    by (simp add: arr_write_ok b crc_of_def [symmetric] cp rg) (simp add: wire_len_def)
qed

text \<open>\<open>pkt_encode\<close> of the segment codec, given a buffer of exactly the announced capacity: too small
  a capacity is refused with \<open>E_NOMEM\<close> and nothing is written; else the packet is written in the
  format of Projet1. The check counts no payload check-sum for an empty payload, but one is
  written: an empty packet overruns a capacity of 12 to 15 bytes.\<close>

theorem seg_encode_capacity:
  assumes "payload_is p w bs"
  shows "seg_pkt_encode crc32 p buf (length buf) w =
    (if length buf < wire_len bs then Inr (E_NOMEM, length buf, buf)
     else if bs = [] \<and> length buf < 16 then Inl OutOfBounds
     else Inr (PKT_OK, wire_len bs, packet_image crc32 (header_bytes p) bs @ drop (16 + length bs) buf))"
proof -
  have tr: "pkt_get_tr p = 0" and n: "unat (pkt_get_length p) = length bs"
    using assms payload_is_length [OF assms] by (simp_all add: payload_is_def pkt_get_tr_def)
  have "\<not> length buf < wire_len bs \<Longrightarrow> bs = [] \<and> length buf < 16 \<or> 16 + length bs \<le> length buf"
    by (cases "bs = []") (simp_all add: wire_len_def, linarith)
  then consider "length buf < wire_len bs" | "\<not> length buf < wire_len bs" "bs = []" "length buf < 16"
    | "\<not> length buf < wire_len bs" "16 + length bs \<le> length buf"
    by blast
  then show ?thesis
  proof cases
    case 1
    then show ?thesis
      by (simp add: seg_pkt_encode_eq Let_def n tr wire_len_def split: if_splits)
  next
    case 2
    moreover have "pkt_get_payload p = None" "copy_payload None w 0 0 xs = Inr xs" for xs
      using n 2(2) by (simp_all add: pkt_get_payload_def unat_eq_zero copy_payload.simps)
    ultimately show ?thesis
      unfolding seg_pkt_encode_eq seg_header Let_def n tr
      by (simp add: wire_len_def arr_write_def region_def)
  next
    case 3
    then show ?thesis using seg_encode_fits [OF assms 3(2), of "length buf" crc32] by auto
  qed
qed

section \<open>Decoding\<close>

lemma type_bits:
  "(ucast (drop_bit 6 (b :: byte)) :: u32) = ucast (ucast (drop_bit 6 b) :: 2 word)"
  by (rule bit_word_eqI) (auto simp: bit_simps dest: bit_imp_le_length)

lemma two_bits: "t = 0 \<or> t = 1 \<or> t = 2 \<or> t = (3 :: 2 word)"
proof -
  have "unat t < 4" using unsigned_less [of t] by simp
  then have "unat t = 0 \<or> unat t = 1 \<or> unat t = 2 \<or> unat t = 3" by auto
  then show ?thesis by (simp add: word_unat_eq_iff)
qed

lemma hd_take_one: "data \<noteq> [] \<Longrightarrow> arr_read data 0 1 = Inr [hd data]"
  by (cases data) (simp_all add: arr_read_def)

text \<open>C34. The segment codec decodes data packets only: since the truncation bit is set through
  \<open>pkt_set_tr\<close>, which refuses every other type, a datagram that carries an acknowledgement is
  answered with \<open>E_TR\<close>, whatever else it holds, after the type of the packet was overwritten; type
  0 is refused with \<open>E_TYPE\<close>.\<close>

theorem seg_decode_data_only:
  fixes t :: "2 word"
  assumes "4 \<le> len" "data \<noteq> []" "t = ucast (drop_bit 6 (hd data))" "t \<noteq> 1"
  shows "seg_pkt_decode crc32 data len p w =
    Inr (if t = 0 then (E_TYPE, p, w) else (E_TR, p\<lparr>TYPE_f := t\<rparr>, w))"
proof -
  have t: "(ucast (drop_bit 6 (hd data)) :: u32) = ucast t" unfolding assms(3) by (rule type_bits)
  have "seg_decode_header crc32 data len p = Inr (if t = 0 then (E_TYPE, 0, p) else (E_TR, 0, p\<lparr>TYPE_f := t\<rparr>))"
    unfolding seg_decode_header_eq hd_take_one [OF assms(2)] andthen_Inr Let_def list.sel t
    using two_bits [of t] assms(1,4) by (auto simp: pkt_set_type_def pkt_set_tr_def)
  then show ?thesis by (simp add: seg_pkt_decode_def)
qed

theorem seg_decode_data_only_witness:
  "seg_pkt_decode sum_crc (ack_bytes sum_crc (hdr 1\<lparr>TYPE_f := 2, LENGTH_f := 0\<rparr>)) 12 pkt0 world0 =
    Inr (E_TR, pkt0\<lparr>TYPE_f := 2\<rparr>, world0)"
proof -
  let ?d = "ack_bytes sum_crc (hdr 1\<lparr>TYPE_f := 2, LENGTH_f := 0\<rparr>)"
  have "?d \<noteq> []" "2 = (ucast (drop_bit 6 (hd ?d)) :: 2 word)"
    by (simp_all add: ack_bytes_def header_bytes_def byte0_def hdr_def)
  from seg_decode_data_only [OF _ this, of 12 sum_crc pkt0 world0] show ?thesis by simp
qed

text \<open>A data packet in the format of \<open>packet_image\<close>.\<close>

lemma byte0_fields:
  "(ucast (drop_bit 6 (byte0 p)) :: 2 word) = TYPE_f p" "(ucast (byte0 p AND 31) :: 5 word) = WINDOW p"
  "unat (byte0 p AND 31) \<le> 31"
proof -
  show "(ucast (drop_bit 6 (byte0 p)) :: 2 word) = TYPE_f p"
    by (rule bit_word_eqI) (auto simp: byte0_def bit_simps dest: bit_imp_le_length)
  have e: "(31 :: byte) = mask 5" by (simp add: mask_eq_exp_minus_1)
  show "(ucast (byte0 p AND 31) :: 5 word) = WINDOW p"
    unfolding e by (rule bit_word_eqI) (auto simp: byte0_def bit_simps)
  have "byte0 p AND 31 \<le> 31" by (rule word_and_le1)
  then show "unat (byte0 p AND 31) \<le> 31" by (simp add: word_le_nat_alt)
qed

lemma low_byte: "hd (le32 x) = ucast x"
  by (simp add: le32_def)

definition seg_received :: "crc_fun \<Rightarrow> pkt \<Rightarrow> pkt \<Rightarrow> pkt" where
  "seg_received crc32 p q = q\<lparr>TYPE_f := 1, TR := 0, WINDOW := WINDOW p, SEQNUM := SEQNUM p,
     LENGTH_f := LENGTH_f p, TIMESTAMP := scast (ucast (TIMESTAMP p) :: byte),
     CRC1 := htonl (crc_of crc32 (Some (header_bytes p)))\<rparr>"

lemma seg_decode_header_image:
  fixes crc32 :: crc_fun and bs rest :: bytes
  assumes "shown p bs" "TYPE_f p = 1" "4 \<le> len"
  defines "d \<equiv> packet_image crc32 (header_bytes p) bs @ rest"
  shows "seg_decode_header crc32 d len q = Inr (PKT_OK, of_nat (length bs), seg_received crc32 p q)"
proof -
  have d: "d = header_bytes p @ be32 (crc_of crc32 (Some (header_bytes p))) @ bs @
       be32 (crc_of crc32 (if bs = [] then None else Some bs)) @ rest"
    unfolding d_def by (rule packet_image_header)
  have parts: "take 8 d = header_bytes p" "take 4 (drop 8 d) = be32 (crc_of crc32 (Some (header_bytes p)))"
    unfolding d_def by (rule image_parts, rule length_header_bytes)+
  have hp: "hd d = byte0 p" "hd (drop (Suc 0) d) = SEQNUM p" "take 2 (drop 2 d) = le16 (LENGTH_f p)"
    "take 4 (drop 4 d) = le32 (TIMESTAMP p)"
    unfolding d by (rule hd_header_bytes header_parts)+
  have ts: "hd (drop 4 d) = ucast (TIMESTAMP p)"
    using arg_cong [OF hp(4), of hd] by (simp add: low_byte)
  have len: "16 \<le> length d" by (simp add: d_def)
  then have len: "16 \<le> length d" "d \<noteq> []" by auto
  have r: "arr_read d 0 1 = Inr [byte0 p]" "arr_read d 1 1 = Inr (take 1 (drop 1 d))"
    "arr_read d 2 2 = Inr (le16 (LENGTH_f p))" "arr_read d 4 1 = Inr (take 1 (drop 4 d))"
    "arr_read d 8 4 = Inr (be32 (crc_of crc32 (Some (header_bytes p))))" "arr_read d 0 8 = Inr (header_bytes p)"
    using len(1) hd_take_one [OF len(2)] hp(1,3) parts by (simp_all add: arr_read_def)
  have n: "ntohs (LENGTH_f p) = of_nat (length bs)" "length bs \<le> 512" "htons (of_nat (length bs)) = LENGTH_f p"
    using assms(1) by (simp_all add: shown_def MAX_PAYLOAD_SIZE_def)
  have h1: "hd (take 1 (drop 1 d)) = SEQNUM p" "hd (take 1 (drop 4 d)) = ucast (TIMESTAMP p)"
    using hp(2) ts len(1) by (simp_all add: hd_take_1)
  show ?thesis
    unfolding seg_decode_header_eq r andthen_Inr Let_def list.sel h1 type_bits byte0_fields(1) assms(2)
    using assms(3) n byte0_fields(2,3) [of p]
    by (simp add: not_less pkt_set_type_def pkt_set_tr_def pkt_set_window_def pkt_set_seqnum_def pkt_set_length_def
        pkt_set_timestamp_def pkt_set_crc1_def MAX_WINDOW_SIZE_def MAX_PAYLOAD_SIZE_def crc_of_def
        seg_received_def)
qed

lemma seg_decode_payload_image:
  fixes crc32 :: crc_fun and bs rest :: bytes
  assumes "shown p bs" "live w (PAYLOAD q)" "heap_ok w" "\<not> oom w (nalloc w)" "bs \<noteq> []"
  defines "d \<equiv> packet_image crc32 (header_bytes p) bs @ rest" and "p7 \<equiv> seg_received crc32 p q"
  shows "seg_decode_payload crc32 d (of_nat (length bs)) PKT_OK p7 w =
    Inr (PKT_OK, p7\<lparr>PAYLOAD := Some (nalloc w), CRC2 := htonl (crc_of crc32 (Some bs))\<rparr>, moved w (PAYLOAD q) bs)"
proof -
  have n: "length bs \<le> 512" "unat (of_nat (length bs) :: u16) = length bs" "of_nat (length bs) \<noteq> (0 :: u16)"
    using assms(1,5) by (simp_all add: shown_def MAX_PAYLOAD_SIZE_def)
  have parts: "take (length bs) (drop 12 d) = bs"
    "take 4 (drop (12 + length bs) d) = be32 (crc_of crc32 (Some bs))"
    using image_parts(3,4) [OF length_header_bytes, of bs crc32 p rest] assms(5) by (simp_all add: d_def)
  have l: "length d = 16 + length bs + length rest" by (simp add: d_def)
  have "p7\<lparr>LENGTH_f := htons (of_nat (length bs))\<rparr> = p7"
    using assms(1) by (simp add: p7_def seg_received_def shown_def)
  then have sl: "pkt_set_length p7 (of_nat (length bs)) = (PKT_OK, p7)"
    using n by (simp add: pkt_set_length_def MAX_PAYLOAD_SIZE_def)
  have pl: "PAYLOAD p7 = PAYLOAD q" by (simp add: p7_def seg_received_def)
  have "0 < length bs" "length bs < 2 ^ 63" "length bs \<le> length (drop 12 d)" using assms(5) n(1) l by simp_all
  from realloc_memcpy [OF assms(2-4) this] obtain w1 where
    "realloc (PAYLOAD q) (length bs) w = Inr (Some (nalloc w), w1)"
    "memcpy_to (Some (nalloc w)) (Some (drop 12 d)) (length bs) w1 = Inr (moved w (PAYLOAD q) bs)"
    unfolding parts by blast
  then have sp: "seg_pkt_set_payload p7 (Some (drop 12 d)) (of_nat (length bs)) w =
      Inr (PKT_OK, p7\<lparr>PAYLOAD := Some (nalloc w)\<rparr>, moved w (PAYLOAD q) bs)"
    by (simp add: seg_pkt_set_payload_eq sl n(2) pl)
  have "pkt_get_payload (p7\<lparr>PAYLOAD := Some (nalloc w)\<rparr>) = Some (nalloc w)"
    using assms(1) n(3) by (simp add: pkt_get_payload_def pkt_get_length_def p7_def seg_received_def shown_def)
  then have rg: "region (pkt_get_payload (p7\<lparr>PAYLOAD := Some (nalloc w)\<rparr>)) (length bs) (moved w (PAYLOAD q) bs) = Inr (Some bs)"
    by (simp add: region_def load_def arr_read_def)
  have tr0: "TR p7 = 0" by (simp add: p7_def seg_received_def)
  have tr: "pkt_get_tr (p7\<lparr>PAYLOAD := Some (nalloc w)\<rparr>) = 0" by (simp add: pkt_get_tr_def p7_def seg_received_def)
  have rd: "arr_read d (12 + length bs) 4 = Inr (be32 (crc_of crc32 (Some bs)))"
    using parts(2) l by (simp add: arr_read_def)
  show ?thesis
    unfolding seg_decode_payload_eq
    using n(3) by (simp add: sp tr tr0 n(2) rd rg Let_def crc_of_def pkt_set_crc2_def word_neq_0_conv)
qed

text \<open>C33. Round trip of the segment codec: a data packet that is not truncated, encoded into a buffer
  that is large enough and decoded into any packet whose payload is live (or \<open>NULL\<close>), gives back the
  window, the number, the length and the payload. The time stamp does not survive: only its lowest
  byte is read, and sign-extended.\<close>

theorem seg_roundtrip:
  assumes "payload_is p w bs" "TYPE_f p = 1" "16 + length bs \<le> length buf" "wire_len bs \<le> cap"
    and "live w1 (PAYLOAD q)" "heap_ok w1" "\<not> oom w1 (nalloc w1)"
  shows "\<exists>buf' q' w'. seg_pkt_encode crc32 p buf cap w = Inr (PKT_OK, wire_len bs, buf') \<and>
    seg_pkt_decode crc32 buf' (wire_len bs) q w1 = Inr (PKT_OK, q', w') \<and>
    pkt_get_type q' = pkt_get_type p \<and> pkt_get_window q' = pkt_get_window p \<and>
    pkt_get_seqnum q' = pkt_get_seqnum p \<and> pkt_get_length q' = pkt_get_length p \<and> payload_is q' w' bs \<and>
    pkt_get_timestamp q' = scast (ucast (pkt_get_timestamp p) :: byte)"
proof -
  have sh: "shown p bs" by (rule payload_is_shown [OF assms(1)])
  have wl: "4 \<le> wire_len bs" by (simp add: wire_len_def)
  note e = seg_encode_fits [OF assms(1,3,4), of crc32]
  let ?d = "packet_image crc32 (header_bytes p) bs @ drop (16 + length bs) buf"
  define q' where "q' = (if bs = [] then seg_received crc32 p q
    else seg_received crc32 p q\<lparr>PAYLOAD := Some (nalloc w1), CRC2 := htonl (crc_of crc32 (Some bs))\<rparr>)"
  define w' where "w' = (if bs = [] then w1 else moved w1 (PAYLOAD q) bs)"
  have "seg_pkt_decode crc32 ?d (wire_len bs) q w1 = Inr (PKT_OK, q', w')"
    unfolding seg_pkt_decode_def seg_decode_header_image [OF sh assms(2) wl]
    using seg_decode_payload_image [OF sh assms(5-7), of crc32 "drop (16 + length bs) buf"]
    by (cases "bs = []") (simp_all add: q'_def w'_def seg_decode_payload_eq)
  moreover have "payload_is q' w' bs"
    using sh by (auto simp: q'_def w'_def seg_received_def payload_is_def shown_def)
  moreover have "TR p = 0" using sh by (simp add: shown_def)
  then have "pkt_get_type q' = pkt_get_type p \<and> pkt_get_window q' = pkt_get_window p \<and>
      pkt_get_seqnum q' = pkt_get_seqnum p \<and> pkt_get_length q' = pkt_get_length p \<and>
      pkt_get_timestamp q' = scast (ucast (pkt_get_timestamp p) :: byte)"
    using assms(2) by (simp add: getter_defs q'_def seg_received_def)
  ultimately show ?thesis using e by blast
qed

theorem seg_encode_capacity_witness:
  "seg_pkt_encode sum_crc pkt0 (replicate 15 0) 15 world0 = Inr (E_NOMEM, 15, replicate 15 0) \<and>
   seg_pkt_encode sum_crc pkt_empty (replicate 12 0) 12 world0 = Inl OutOfBounds"
proof -
  have "payload_is pkt_empty world0 []" by (simp add: pkt_empty_def pkt0_def)
  with seg_encode_capacity [OF payload_is_pkt0, of sum_crc "replicate 15 0"]
    seg_encode_capacity [of pkt_empty world0 "[]" sum_crc "replicate 12 0"]
  show ?thesis by (simp add: wire_len_def)
qed

theorem seg_roundtrip_witness:
  "\<exists>buf' q' w'. seg_pkt_encode sum_crc (pkt0\<lparr>TIMESTAMP := 200\<rparr>) (replicate 30 0) 30 world0 = Inr (PKT_OK, 19, buf') \<and>
    seg_pkt_decode sum_crc buf' 19 pkt_empty world0 = Inr (PKT_OK, q', w') \<and>
    payload_is q' w' [7, 8, 9] \<and> pkt_get_timestamp q' = 4294967240"
proof -
  have "payload_is (pkt0\<lparr>TIMESTAMP := 200\<rparr>) world0 [7, 8, 9]" "TYPE_f (pkt0\<lparr>TIMESTAMP := 200\<rparr>) = 1"
    using payload_is_pkt0 by (simp_all add: payload_is_def) (simp add: pkt0_def)
  from seg_roundtrip [OF this, of "replicate 30 0" 30 world0 pkt_empty sum_crc] obtain buf' q' w' where
    "seg_pkt_encode sum_crc (pkt0\<lparr>TIMESTAMP := 200\<rparr>) (replicate 30 0) 30 world0 = Inr (PKT_OK, 19, buf')"
    "seg_pkt_decode sum_crc buf' 19 pkt_empty world0 = Inr (PKT_OK, q', w')" "payload_is q' w' [7, 8, 9]"
    "pkt_get_timestamp q' = scast (ucast (200 :: u32) :: byte)"
    by (auto simp: wire_len_def pkt_get_timestamp_def)
  moreover have "scast (ucast (200 :: u32) :: byte) = (4294967240 :: u32)" by code_simp
  ultimately show ?thesis by auto
qed

end
