(* ===== verification/Segment_Tests.thy ===== *)
theory Segment_Tests
  imports Segment_Props Unit_Tests
begin

text \<open>
  The CUnit tests of the segment format exercise (test.c there), run on the model of its codec like
  those of Projet1 in theory Unit_Tests. They are older copies of the same tests; two more test
  setters, and one of these fails.
\<close>

section \<open>The tests\<close>

definition seg_with_new :: "world \<Rightarrow> (pkt \<Rightarrow> world \<Rightarrow> 'a outcome) \<Rightarrow> 'a outcome" where
  "seg_with_new w f = (case seg_pkt_new w of (None, _) \<Rightarrow> Inl NullDeref | (Some p, w1) \<Rightarrow> f p w1)"

text \<open>The end of a test: the packet is deleted, the assertions were evaluated before.\<close>

definition seg_done :: "pkt \<Rightarrow> world \<Rightarrow> bool list \<Rightarrow> bool list outcome" where
  "seg_done p w vs = andthen (seg_pkt_del (Some p) w) (\<lambda>_. Inr vs)"

definition seg_test_new :: "world \<Rightarrow> bool list outcome" where
  "seg_test_new w = (case seg_pkt_new w of (p, w1) \<Rightarrow> andthen (seg_pkt_del p w1) (\<lambda>_. Inr [p \<noteq> None]))"

definition seg_test_type :: "world \<Rightarrow> bool list outcome" where
  "seg_test_type w = seg_with_new w (\<lambda>p w1.
     let (st1, p1) = seg_pkt_set_type p PTYPE_DATA; (st2, p2) = seg_pkt_set_type p1 4 in
     seg_done p2 w1 [st1 = PKT_OK, seg_pkt_get_type p1 = PTYPE_DATA, st2 \<noteq> PKT_OK])"

definition seg_test_tr :: "world \<Rightarrow> bool list outcome" where
  "seg_test_tr w = seg_with_new w (\<lambda>p w1.
     let (_, p1) = seg_pkt_set_type p 2; (st2, p2) = seg_pkt_set_tr p1 1;
         (st3, p3) = seg_pkt_set_type p2 PTYPE_DATA; (st4, p4) = seg_pkt_set_tr p3 2 in
     seg_done p4 w1 [st2 = E_TR, st3 = PKT_OK, seg_pkt_get_tr p3 = 0, st4 = E_TR])"

definition seg_test_window :: "int \<Rightarrow> world \<Rightarrow> bool list outcome" where
  "seg_test_window rand w = seg_with_new w (\<lambda>p w1.
     let random = rand mod 32; (st1, p1) = seg_pkt_set_window p (word_of_int random);
         (st2, p2) = seg_pkt_set_window p1 32 in
     seg_done p2 w1 [st1 = PKT_OK, uint (seg_pkt_get_window p1) = random, st2 = E_WINDOW])"

definition seg_test_seqnum :: "int \<Rightarrow> world \<Rightarrow> bool list outcome" where
  "seg_test_seqnum rand w = seg_with_new w (\<lambda>p w1.
     let random = rand mod 256; (st1, p1) = seg_pkt_set_seqnum p (word_of_int random) in
     seg_done p1 w1 [st1 = PKT_OK, uint (seg_pkt_get_seqnum p1) = random])"

definition seg_test_length :: "int \<Rightarrow> world \<Rightarrow> bool list outcome" where
  "seg_test_length rand w = seg_with_new w (\<lambda>p w1.
     let random = rand mod 513; (st1, p1) = seg_pkt_set_length p (word_of_int random);
         (_, p2) = seg_pkt_set_tr p1 0; (_, p3) = seg_pkt_set_type p2 PTYPE_DATA; (_, p4) = seg_pkt_set_tr p3 1;
         (st5, p5) = seg_pkt_set_length p4 513 in
     seg_done p5 w1 [st1 = PKT_OK, uint (seg_pkt_get_length p2) = random, seg_pkt_get_length p4 = 0, st5 = E_LENGTH])"

text \<open>\<open>random\<close> is an \<open>int\<close> here; the setters and the comparison convert it to 32 bits.\<close>

definition seg_test_timestamp :: "int \<Rightarrow> world \<Rightarrow> bool list outcome" where
  "seg_test_timestamp rand w = seg_with_new w (\<lambda>p w1.
     let random = (word_of_int (rand mod 4294967296) :: u32); (st1, p1) = seg_pkt_set_timestamp p random in
     seg_done p1 w1 [st1 = PKT_OK, seg_pkt_get_timestamp p1 = random])"

definition seg_test_crc1 :: "int \<Rightarrow> world \<Rightarrow> bool list outcome" where
  "seg_test_crc1 rand w = seg_with_new w (\<lambda>p w1.
     let random = (word_of_int (rand mod 4294967296) :: u32); (st1, p1) = seg_pkt_set_crc1 p random in
     seg_done p1 w1 [st1 = PKT_OK, seg_pkt_get_crc1 p1 = random])"

definition seg_test_crc2 :: "int \<Rightarrow> world \<Rightarrow> bool list outcome" where
  "seg_test_crc2 rand w = seg_with_new w (\<lambda>p w1.
     let random = (word_of_int (rand mod 4294967296) :: u32); (st1, p1) = seg_pkt_set_crc2 p random in
     seg_done p1 w1 [st1 = PKT_OK, seg_pkt_get_crc2 p1 = random])"

definition seg_test_payload :: "bytes \<Rightarrow> world \<Rightarrow> bool list outcome" where
  "seg_test_payload buf2 w = seg_with_new w (\<lambda>p w1.
     andthen (arr_write buf2 0 test_text) (\<lambda>buf3.
     andthen (seg_pkt_set_payload p (Some (test_text @ [0])) 16 w1) (\<lambda>(st1, p1, w2).
     andthen (string_at (seg_pkt_get_payload p1) w2) (\<lambda>str.
     andthen (seg_pkt_set_payload p1 (Some buf3) 100 w2) (\<lambda>(_, p2, w3).
     seg_done p2 w3 [st1 = PKT_OK, str = test_text, seg_pkt_get_length p1 \<noteq> 1])))))"

definition seg_test_encode :: "crc_fun \<Rightarrow> bytes \<Rightarrow> world \<Rightarrow> bool list outcome" where
  "seg_test_encode crc32 data w = seg_with_new w (\<lambda>pkt1 w1. seg_with_new w1 (\<lambda>pkt2 w2.
     andthen (seg_pkt_set_payload pkt1 (Some (test_text @ [0])) 16 w2) (\<lambda>(_, p1, w3).
     andthen (seg_pkt_encode crc32 p1 data 528 w3) (\<lambda>(st1, len, data1).
     andthen (seg_pkt_decode crc32 data1 528 pkt2 w3) (\<lambda>(st2, p2, w4).
     andthen (string_at (seg_pkt_get_payload p2) w4) (\<lambda>str.
     andthen (seg_pkt_del (Some p1) w4) (\<lambda>w5.
     seg_done p2 w5
         [st1 = PKT_OK, st2 = PKT_OK, str = test_text, seg_pkt_get_tr p1 = seg_pkt_get_tr p2,
          seg_pkt_get_type p1 = seg_pkt_get_type p2, seg_pkt_get_window p1 = seg_pkt_get_window p2,
          seg_pkt_get_timestamp p1 = seg_pkt_get_timestamp p2])))))))"

section \<open>Their results\<close>

definition seg_fresh :: "world \<Rightarrow> pkt" where
  "seg_fresh w = \<lparr>WINDOW = 0, TR = 0, TYPE_f = 1, SEQNUM = junk w (nalloc w) 1, LENGTH_f = htons 0,
     TIMESTAMP = 0, CRC1 = 0, PAYLOAD = Some (Suc (nalloc w)), CRC2 = 0\<rparr>"

definition seg_world :: "world \<Rightarrow> world" where
  "seg_world w = w\<lparr>nalloc := Suc (Suc (nalloc w)), mem := (mem w)(Suc (nalloc w) \<mapsto> replicate 512 0)\<rparr>"

lemma seg_fresh_sel [simp]:
  "WINDOW (seg_fresh w) = 0" "TR (seg_fresh w) = 0" "TYPE_f (seg_fresh w) = 1" "LENGTH_f (seg_fresh w) = htons 0"
  "PAYLOAD (seg_fresh w) = Some (Suc (nalloc w))" "TIMESTAMP (seg_fresh w) = 0"
  by (simp_all add: seg_fresh_def)

lemma seg_world_sel [simp]:
  "nalloc (seg_world w) = Suc (Suc (nalloc w))" "oom (seg_world w) = oom w"
  "mem (seg_world w) = (mem w)(Suc (nalloc w) \<mapsto> replicate 512 0)" "heap_ok w \<Longrightarrow> heap_ok (seg_world w)"
  by (auto simp: seg_world_def heap_ok_def)

lemma seg_with_new_ok:
  "\<not> oom w (nalloc w) \<Longrightarrow> \<not> oom w (Suc (nalloc w)) \<Longrightarrow> seg_with_new w f = f (seg_fresh w) (seg_world w)"
  by (simp add: seg_with_new_def seg_pkt_new_def Let_def seg_fresh_def seg_world_def)

lemma seg_done_ok: "mem w a = Some bs \<Longrightarrow> PAYLOAD p = Some a \<Longrightarrow> seg_done p w vs = Inr vs"
  by (simp add: seg_done_def seg_pkt_del_def free_Some)

lemma seg_accessor_tests_pass:
  assumes "\<not> oom w (nalloc w)" "\<not> oom w (Suc (nalloc w))"
  shows "passes (seg_test_new w)" "passes (seg_test_type w)" "passes (seg_test_tr w)" "passes (seg_test_window r w)"
    "passes (seg_test_seqnum r w)" "passes (seg_test_length r w)" "passes (seg_test_timestamp r w)"
    "passes (seg_test_crc1 r w)"
proof -
  note N = seg_with_new_ok [OF assms] seg_accessors seg_done_ok [of "seg_world w" "Suc (nalloc w)" "replicate 512 0"]
  show "passes (seg_test_new w)"
    using assms by (simp add: seg_test_new_def seg_pkt_new_def Let_def seg_pkt_del_def free_Some passes_def)
  show "passes (seg_test_type w)"
    by (simp add: seg_test_type_def N Let_def pkt_set_type_def pkt_get_type_def passes_def)
  show "passes (seg_test_tr w)"
    by (simp add: seg_test_tr_def N Let_def pkt_set_type_def pkt_set_tr_def pkt_get_tr_def passes_def)
  have "uint (word_of_int (r mod 32) :: u8) = r mod 32" by (rule int_of_word_of_int) simp_all
  moreover have "r mod 32 < 32" by simp
  ultimately have win: "unat (word_of_int (r mod 32) :: u8) \<le> 31" "uint (word_of_int (r mod 32) :: u8) = r mod 32"
    by (simp_all add: unat_eq_nat_uint)
  then show "passes (seg_test_window r w)"
    by (simp add: seg_test_window_def N Let_def pkt_set_window_def MAX_WINDOW_SIZE_def pkt_get_window_def
        ucast_window_id passes_def)
  have "uint (word_of_int (r mod 256) :: u8) = r mod 256" by (rule int_of_word_of_int) simp_all
  then show "passes (seg_test_seqnum r w)"
    by (simp add: seg_test_seqnum_def N Let_def pkt_set_seqnum_def pkt_get_seqnum_def passes_def)
  have "uint (word_of_int (r mod 513) :: u16) = r mod 513" by (rule int_of_word_of_int) simp_all
  moreover have "r mod 513 < 513" by simp
  ultimately have "unat (word_of_int (r mod 513) :: u16) \<le> 512" "uint (word_of_int (r mod 513) :: u16) = r mod 513"
    by (simp_all add: unat_eq_nat_uint)
  then show "passes (seg_test_length r w)"
    by (simp add: seg_test_length_def N Let_def setter_defs getter_defs MAX_PAYLOAD_SIZE_def passes_def)
  show "passes (seg_test_timestamp r w)" "passes (seg_test_crc1 r w)"
    by (simp_all add: seg_test_timestamp_def seg_test_crc1_def N Let_def setter_defs getter_defs passes_def)
qed

text \<open>The test of \<open>pkt_set_crc2\<close> can only pass when \<open>rand\<close> gives 0: the packet is fresh, its length is 0,
  and \<open>pkt_get_crc2\<close> answers 0 for a packet without payload, not the value set.\<close>

lemma crc2_test_fails:
  assumes "\<not> oom w (nalloc w)" "\<not> oom w (Suc (nalloc w))"
  shows "passes (seg_test_crc2 r w) \<longleftrightarrow> r mod 4294967296 = 0"
proof -
  let ?r = "word_of_int (r mod 4294967296) :: u32"
  have "uint ?r = r mod 4294967296" by (rule int_of_word_of_int) simp_all
  then have "?r = 0 \<longleftrightarrow> r mod 4294967296 = 0" by (metis uint_0_iff)
  then show ?thesis
    by (auto simp: seg_test_crc2_def seg_with_new_ok [OF assms] seg_accessors Let_def setter_defs getter_defs passes_def
        seg_done_ok [of "seg_world w" "Suc (nalloc w)" "replicate 512 0"])
qed

text \<open>The payload and the codec.\<close>

lemma seg_set_payload_ok:
  assumes "live w (PAYLOAD p)" "heap_ok w" "\<not> oom w (nalloc w)" "0 < unat len" "unat len \<le> 512" "unat len \<le> length bs"
  shows "seg_pkt_set_payload p (Some bs) len w =
    Inr (PKT_OK, p\<lparr>LENGTH_f := htons len, PAYLOAD := Some (nalloc w)\<rparr>, moved w (PAYLOAD p) (take (unat len) bs))"
proof -
  have "unat len < 2 ^ 63" using assms(5) by simp
  from realloc_memcpy [OF assms(1-4) this assms(6)] obtain w1 where
    "realloc (PAYLOAD p) (unat len) w = Inr (Some (nalloc w), w1)"
    "memcpy_to (Some (nalloc w)) (Some bs) (unat len) w1 = Inr (moved w (PAYLOAD p) (take (unat len) bs))"
    by blast
  with assms(5) show ?thesis
    by (simp add: seg_pkt_set_payload_eq pkt_set_length_def MAX_PAYLOAD_SIZE_def)
qed

lemma seg_text:
  assumes "live w (PAYLOAD p)" "heap_ok w" "\<not> oom w (nalloc w)"
  shows "seg_pkt_set_payload p (Some (test_text @ [0])) 16 w =
    Inr (PKT_OK, p\<lparr>LENGTH_f := htons 16, PAYLOAD := Some (nalloc w)\<rparr>, moved w (PAYLOAD p) (test_text @ [0]))"
  using seg_set_payload_ok [OF assms, of 16 "test_text @ [0]"] by simp

lemma seg_payload_test_passes:
  assumes "\<forall>k. \<not> oom w k" "heap_ok w" "length buf2 = 100"
  shows "passes (seg_test_payload buf2 w)"
proof -
  let ?n = "nalloc w" and ?w1 = "seg_world w" and ?b = "put_at 0 test_text buf2"
  let ?p1 = "seg_fresh w\<lparr>LENGTH_f := htons 16, PAYLOAD := Some (Suc (Suc ?n))\<rparr>"
  let ?w2 = "moved ?w1 (Some (Suc ?n)) (test_text @ [0])"
  have 1: "seg_pkt_set_payload (seg_fresh w) (Some (test_text @ [0])) 16 ?w1 = Inr (PKT_OK, ?p1, ?w2)"
    using seg_text [of ?w1 "seg_fresh w"] assms(1,2) by (simp add: live_def)
  have m: "mem ?w2 (Suc (Suc ?n)) = Some (test_text @ [0])" by (simp add: moved_def)
  have 2: "seg_pkt_set_payload ?p1 (Some ?b) 100 ?w2 = Inr (PKT_OK, ?p1\<lparr>LENGTH_f := htons 100,
      PAYLOAD := Some (Suc (Suc (Suc ?n)))\<rparr>, moved ?w2 (Some (Suc (Suc ?n))) (take 100 ?b))"
    using seg_set_payload_ok [of ?w2 ?p1 100 ?b] assms heap_ok_moved m by (simp add: live_def)
  have g: "pkt_get_payload ?p1 = Some (Suc (Suc ?n))" "pkt_get_length ?p1 = 16"
    by (simp_all add: pkt_get_payload_def pkt_get_length_def)
  have m3: "mem (moved ?w2 (Some (Suc (Suc ?n))) (take 100 ?b)) (Suc (Suc (Suc ?n))) = Some (take 100 ?b)"
    by (simp add: moved_def)
  have "arr_write buf2 0 test_text = Inr ?b" using assms(3) by (simp add: arr_write_def)
  then show ?thesis
    using assms(1) string_text [OF m] seg_done_ok [OF m3]
    by (simp add: seg_test_payload_def seg_with_new_ok seg_accessors 1 2 g passes_def)
qed

lemma seg_encode_test_passes:
  assumes "\<forall>k. \<not> oom w k" "heap_ok w" "length data = 528"
  shows "passes (seg_test_encode crc32 data w)"
proof -
  let ?n = "nalloc w" and ?w2 = "seg_world (seg_world w)" and ?bs = "test_text @ [0]"
  let ?q = "seg_fresh (seg_world w)"
  define p1 where "p1 = seg_fresh w\<lparr>LENGTH_f := htons 16, PAYLOAD := Some (?n + 4)\<rparr>"
  define w3 where "w3 = moved ?w2 (Some (Suc ?n)) ?bs"
  let ?d = "packet_image crc32 (header_bytes p1) ?bs @ drop 32 data"
  have 1: "seg_pkt_set_payload (seg_fresh w) (Some ?bs) 16 ?w2 = Inr (PKT_OK, p1, w3)"
    using seg_text [of ?w2 "seg_fresh w"] assms(1,2) by (simp add: live_def p1_def w3_def)
  have m: "mem w3 (?n + 4) = Some ?bs" "live w3 (PAYLOAD ?q)" "nalloc w3 = ?n + 5" "\<not> oom w3 k" for k
    using assms(1) by (simp_all add: w3_def moved_def live_def)
  have h: "heap_ok w3" unfolding w3_def using assms(2) by (intro heap_ok_moved) simp
  have pl: "payload_is p1 w3 ?bs"
    using m(1) by (simp add: payload_is_def p1_def MAX_PAYLOAD_SIZE_def)
  have sh: "shown p1 ?bs" by (rule payload_is_shown [OF pl])
  have enc: "seg_pkt_encode crc32 p1 data 528 w3 = Inr (PKT_OK, wire_len ?bs, ?d)"
    using seg_encode_fits [OF pl, of data 528 crc32] assms(3) by (simp add: wire_len_def)
  define q where "q = seg_received crc32 p1 ?q\<lparr>PAYLOAD := Some (?n + 5), CRC2 := htonl (crc_of crc32 (Some ?bs))\<rparr>"
  define w4 where "w4 = moved w3 (Some (?n + 3)) ?bs"
  have t: "TYPE_f p1 = 1" "(4 :: nat) \<le> 528" by (simp_all add: p1_def)
  have pq: "PAYLOAD ?q = Some (?n + 3)" by simp
  have dec: "seg_pkt_decode crc32 ?d 528 ?q w3 = Inr (PKT_OK, q, w4)"
    using seg_decode_payload_image [OF sh m(2) h m(4), of crc32 "drop 32 data"] m(3)
    unfolding seg_pkt_decode_def seg_decode_header_image [OF sh t] andthen_Inr prod.case pq
    by (simp add: q_def w4_def)
  have m4: "mem w4 (?n + 5) = Some ?bs" "mem w4 (?n + 4) = Some ?bs"
    using m(1,3) by (simp_all add: w4_def moved_def)
  let ?w5 = "w4\<lparr>mem := (mem w4)(?n + 4 := None)\<rparr>"
  have del: "seg_pkt_del (Some p1) w4 = Inr ?w5" using m4(2) by (simp add: seg_pkt_del_def p1_def free_Some)
  have fin: "seg_done q ?w5 vs = Inr vs" for vs
    by (rule seg_done_ok [of _ "?n + 5" ?bs]) (use m4(1) in \<open>simp_all add: q_def\<close>)
  have g: "pkt_get_payload q = Some (?n + 5)" "pkt_get_tr q = pkt_get_tr p1" "pkt_get_type q = pkt_get_type p1"
    "pkt_get_window q = pkt_get_window p1" "pkt_get_timestamp q = pkt_get_timestamp p1"
    by (simp_all add: getter_defs q_def seg_received_def p1_def)
  show ?thesis
    using assms(1) string_text [OF m4(1)]
    by (simp add: seg_test_encode_def seg_with_new_ok seg_accessors 1 enc dec g del fin passes_def)
qed

section \<open>The suite\<close>

text \<open>In its order, each test started in the same world, which the theorem leaves open.\<close>

definition seg_suite :: "crc_fun \<Rightarrow> (nat \<Rightarrow> int) \<Rightarrow> bytes \<Rightarrow> bytes \<Rightarrow> world \<Rightarrow> bool list outcome list" where
  "seg_suite crc32 rand buf2 data w =
     [seg_test_new w, seg_test_type w, seg_test_tr w, seg_test_window (rand 0) w, seg_test_seqnum (rand 1) w,
      seg_test_length (rand 2) w, seg_test_timestamp (rand 3) w, seg_test_crc1 (rand 4) w,
      seg_test_crc2 (rand 5) w, seg_test_payload buf2 w, seg_test_encode crc32 data w]"

text \<open>Of the eleven tests ten pass, whatever the check-sum and \<open>rand\<close>; the one of \<open>pkt_set_crc2\<close> passes
  only when \<open>rand\<close> gives 0.\<close>

lemma seg_suite_verdict:
  assumes "\<forall>k. \<not> oom w k" "heap_ok w" "length buf2 = 100" "length data = 528"
  shows "map passes (seg_suite crc32 rand buf2 data w) =
    replicate 8 True @ [rand 5 mod 4294967296 = 0] @ replicate 2 True"
  using assms(1)
  by (simp add: seg_suite_def seg_accessor_tests_pass crc2_test_fails seg_payload_test_passes [OF assms(1-3)]
      seg_encode_test_passes [OF assms(1,2,4)] numeral_eq_Suc)

end
