(* ===== verification/Chat_Sockets.thy ===== *)
theory Chat_Sockets
  imports Sockets
begin

text \<open>
  The socket functions of the exercise on sending and receiving (real_address.c, create_socket.c and
  wait_for_client.c, one function each), from which those of Projet1 were taken. They are translated
  from their own files, over the system of theory Sockets, and shown to do the same as the successors.
\<close>

section \<open>The functions\<close>

text \<open>The results are those of \<open>real_address\<close>, \<open>create_socket\<close> and \<open>wait_for_client\<close> in theory Sockets: the
  values of variables passed by reference follow the returned value.\<close>

definition chat_real_address ::
    "'a os \<Rightarrow> string \<Rightarrow> 'a sockaddr_in6 \<Rightarrow> string option \<times> 'a sockaddr_in6" where
  "chat_real_address os address rval =
     (case os_getaddrinfo os address of (err, resu) \<Rightarrow>
        if err \<noteq> 0 then (Some (os_gai_strerror os err), rval)
        else (let rval = resu in (None, rval)))"

definition chat_create_socket ::
    "'a os \<Rightarrow> 'a sockaddr_in6 option \<Rightarrow> int \<Rightarrow> 'a sockaddr_in6 option \<Rightarrow> int \<Rightarrow> 'a kernel
      \<Rightarrow> int \<times> 'a sockaddr_in6 option \<times> 'a sockaddr_in6 option \<times> 'a kernel" where
  "chat_create_socket os source_addr src_port dest_addr dst_port k =
     (case sys_socket os k of (sockfd, k1) \<Rightarrow>
      if sockfd = -1 then (-1, source_addr, dest_addr, k1)
      else
        case (if source_addr \<noteq> None \<and> src_port > 0
              then (let a = (the source_addr)\<lparr>sin6_port := htons (word_of_int src_port)\<rparr>;
                        (err, k2) = sys_bind os sockfd a k1 in (err, Some a, k2))
              else (0, source_addr, k1)) of (err, source_addr, k2) \<Rightarrow>
        if err \<noteq> 0 then (-1, source_addr, dest_addr, k2)
        else
          case (if dest_addr \<noteq> None \<and> dst_port > 0
                then (let a = (the dest_addr)\<lparr>sin6_port := htons (word_of_int dst_port)\<rparr>;
                          (err, k3) = sys_connect os sockfd a k2 in (err, Some a, k3))
                else (0, dest_addr, k2)) of (err, dest_addr, k3) \<Rightarrow>
          if err \<noteq> 0 then (-1, source_addr, dest_addr, k3)
          else (sockfd, source_addr, dest_addr, k3))"

definition chat_wait_for_client ::
    "'a os \<Rightarrow> 'a sockaddr_in6 \<Rightarrow> int \<Rightarrow> 'a kernel \<Rightarrow> (int \<times> 'a kernel) option" where
  "chat_wait_for_client os zero sfd k =
     (case sys_peek os sfd zero k of
        None \<Rightarrow> None
      | Some (err, their_addr, k1) \<Rightarrow>
          if err = -1 then Some (-1, k1)
          else (case sys_connect os sfd their_addr k1 of (err, k2) \<Rightarrow> Some (err, k2)))"

section \<open>The same as in Projet1\<close>

lemma chat_real_address_eq: "chat_real_address = real_address"
  by (rule ext)+ (simp add: chat_real_address_def real_address_def split: prod.splits)

lemma chat_create_socket_eq: "chat_create_socket = create_socket"
  by (rule ext)+ (auto simp: chat_create_socket_def create_socket_def bind_source_def connect_dest_def Let_def
      split: prod.splits option.splits)

lemma chat_wait_for_client_eq: "chat_wait_for_client = wait_for_client"
  by (rule ext)+ (auto simp: chat_wait_for_client_def wait_for_client_def split: option.splits prod.splits)

lemmas chat_sockets_eq = chat_real_address_eq chat_create_socket_eq chat_wait_for_client_eq

end
