(* ===== verification/Chat.thy ===== *)
theory Chat
  imports Chat_Sockets Getopt Receiver_Props
begin

text \<open>
  The chat program of the exercise on sending and receiving: \<open>read_write_loop\<close> and \<open>main\<close> of
  chat.c, on the functions of theory Chat_Sockets.
\<close>

section \<open>The loop\<close>

text \<open>One \<open>select\<close> round: what \<open>read\<close> returns for standard input and for the socket, if ready;
  \<open>None\<close> inside for an error, the empty list for the end of the input.\<close>

record rw_event =
  rw_stdin :: "bytes option option"
  rw_sock :: "bytes option option"

definition relay :: "(bytes \<Rightarrow> obs) \<Rightarrow> bytes option option \<Rightarrow> world \<Rightarrow> world" where
  "relay to r w =
     (case r of
        Some (Some bs) \<Rightarrow> if take 1024 bs \<noteq> [] then snd (do_write to (take 1024 bs) w) else w
      | _ \<Rightarrow> w)"

definition rw_step :: "rw_event \<Rightarrow> world \<Rightarrow> world" where
  "rw_step ev w = relay Wrote (rw_sock ev) (relay Sent (rw_stdin ev) w)"

text \<open>\<open>feof(stdin)\<close> reads the end-of-file flag of the stream, which only operations of stdio on the
  stream set; \<open>read\<close> on the descriptor leaves it alone. The result tells whether the loop ended.\<close>

fun read_write_loop :: "bool \<Rightarrow> rw_event list \<Rightarrow> world \<Rightarrow> bool \<times> world" where
  "read_write_loop eof_flag [] w = (False, w)"
| "read_write_loop eof_flag (ev # evs) w =
     (let w1 = rw_step ev w in
      if eof_flag then (True, w1) else read_write_loop eof_flag evs w1)"

section \<open>The program\<close>

record chat_args =
  c_client :: bool
  c_port :: int
  c_host :: string

text \<open>\<open>getopt(argc, argv, "scp:h:")\<close>.\<close>

definition chat_optstring :: optstring where
  "chat_optstring c =
     (if c = CHR ''s'' \<or> c = CHR ''c'' then Some False
      else if c = CHR ''p'' \<or> c = CHR ''h'' then Some True else None)"

definition chat_option :: "gopt \<Rightarrow> chat_args \<Rightarrow> chat_args" where
  "chat_option g a =
     (case g of
        Opt c \<Rightarrow> if c = CHR ''s'' then a\<lparr>c_client := False\<rparr> else if c = CHR ''c'' then a\<lparr>c_client := True\<rparr> else a
      | OptArg c optarg \<Rightarrow>
          if c = CHR ''p'' then a\<lparr>c_port := atoi optarg\<rparr> else if c = CHR ''h'' then a\<lparr>c_host := optarg\<rparr> else a
      | _ \<Rightarrow> a)"

definition chat_parse :: "string list \<Rightarrow> chat_args" where
  "chat_parse argv =
     fold chat_option (fst (scan chat_optstring [] argv)) \<lparr>c_client = False, c_port = 12345, c_host = ''::1''\<rparr>"

text \<open>The exit status and what is left; \<open>None\<close> when the program is still running. \<open>zero\<close> is the
  cleared address of \<open>wait_for_client\<close>, \<open>addr\<close> the uninitialised one of \<open>main\<close>.\<close>

definition chat_main ::
    "'a os \<Rightarrow> 'a sockaddr_in6 \<Rightarrow> 'a sockaddr_in6 \<Rightarrow> string list \<Rightarrow> rw_event list \<Rightarrow> 'a kernel \<Rightarrow> world
      \<Rightarrow> int option \<times> 'a kernel \<times> world" where
  "chat_main os zero addr argv evs k w =
     (let a = chat_parse argv in
      case chat_real_address os (c_host a) addr of
        (Some err, _) \<Rightarrow> (Some 1, k, w)
      | (None, addr1) \<Rightarrow>
          (let (sfd, _, _, k1) =
                 (if c_client a then chat_create_socket os None (-1) (Some addr1) (c_port a) k
                  else chat_create_socket os (Some addr1) (c_port a) None (-1) k) in
           case (if \<not> c_client a \<and> sfd > 0 then chat_wait_for_client os zero sfd k1 else Some (0, k1)) of
             None \<Rightarrow> (None, k1, w)
           | Some (wait, k2) \<Rightarrow>
               if wait < 0 then (Some 1, sys_close sfd k2, w)
               else if sfd < 0 then (Some 1, k2, w)
               else
                 (let (ended, w1) = read_write_loop False evs w in
                  if ended then (Some 0, sys_close sfd k2, w1) else (None, k2, w1))))"

section \<open>Laws\<close>

lemma read_write_loop_runs: "fst (read_write_loop False evs w) = False"
  by (induction evs arbitrary: w) (simp_all add: Let_def)

definition relayed :: "bytes option option \<Rightarrow> bytes" where
  "relayed r = (case r of Some (Some bs) \<Rightarrow> take 1024 bs | _ \<Rightarrow> [])"

lemma relay_ok:
  assumes "\<And>i. \<not> wfail w i"
  shows "obslog (relay to r w) = obslog w @ (if relayed r = [] then [] else [to (relayed r)])"
    and "wfail (relay to r w) = wfail w"
  using assms by (auto simp: relay_def relayed_def do_write_def Let_def split: option.splits)

lemma read_write_loop_log:
  assumes "\<And>i. \<not> wfail w i"
  shows "file_of (obslog (snd (read_write_loop False evs w))) =
      file_of (obslog w) @ concat (map (relayed \<circ> rw_sock) evs) \<and>
    sent_of (obslog (snd (read_write_loop False evs w))) =
      sent_of (obslog w) @ filter (\<lambda>bs. bs \<noteq> []) (map (relayed \<circ> rw_stdin) evs)"
  using assms
proof (induction evs arbitrary: w)
  case (Cons ev evs)
  have ok: "\<And>i. \<not> wfail (rw_step ev w) i" using Cons.prems by (simp add: rw_step_def relay_ok)
  have l: "obslog (rw_step ev w) = obslog w @ (if relayed (rw_stdin ev) = [] then [] else [Sent (relayed (rw_stdin ev))])
      @ (if relayed (rw_sock ev) = [] then [] else [Wrote (relayed (rw_sock ev))])"
    using Cons.prems by (simp add: rw_step_def relay_ok)
  from Cons.IH [OF ok] show ?case by (simp add: Let_def l)
qed simp

lemma chat_main_status: "fst (chat_main os zero addr argv evs k w) \<noteq> Some 0"
  using read_write_loop_runs [of evs w]
  by (auto simp: chat_main_def Let_def split: option.splits prod.splits if_splits)

text \<open>C40. The loop copies what it reads, at most 1024 bytes a round, from standard input to the socket
  and from the socket to standard output, in order and without loss, but never returns, not even
  when standard input is at its end: nothing sets the flag \<open>feof\<close> reads.\<close>

theorem chat_relays_for_ever:
  assumes "\<And>i. \<not> wfail w i" "read_write_loop False evs w = (ended, w')"
  shows "\<not> ended \<and>
    file_of (obslog w') = file_of (obslog w) @ concat (map (relayed \<circ> rw_sock) evs) \<and>
    sent_of (obslog w') = sent_of (obslog w) @ filter (\<lambda>bs. bs \<noteq> []) (map (relayed \<circ> rw_stdin) evs)"
  using read_write_loop_runs [of evs w] read_write_loop_log [of w evs, OF assms(1)] assms(2) by simp

definition rw_example :: "rw_event list" where
  "rw_example = [\<lparr>rw_stdin = Some (Some [1, 2]), rw_sock = None\<rparr>,
     \<lparr>rw_stdin = Some (Some []), rw_sock = Some (Some [3])\<rparr>, \<lparr>rw_stdin = Some (Some []), rw_sock = Some None\<rparr>]"

theorem chat_relays_for_ever_witness:
  "\<exists>w'. read_write_loop False rw_example world_r = (False, w') \<and>
    file_of (obslog w') = [3] \<and> sent_of (obslog w') = [[1, 2]]"
proof -
  obtain ended w' where r: "read_write_loop False rw_example world_r = (ended, w')"
    by (cases "read_write_loop False rw_example world_r")
  have "\<And>i. \<not> wfail world_r i" using world_r_sel(1) by (simp add: env_good_def)
  from chat_relays_for_ever [OF this r] r show ?thesis
    by (simp add: rw_example_def relayed_def)
qed

section \<open>A conversation\<close>

text \<open>A program that has not ended and does not wait for its first message is in its loop. The socket
  of a server that has got a message is connected to its author.\<close>

lemma chat_main_loops:
  assumes "chat_main os zero addr argv evs k w = (None, k', w')"
    and "c_client (chat_parse argv) \<or> k_queue k (os_socket os (k_calls k)) = author # rest"
  shows "w' = snd (read_write_loop False evs w)"
    and "\<not> c_client (chat_parse argv) \<Longrightarrow> 0 < os_socket os (k_calls k) \<Longrightarrow>
      k_peer k' (os_socket os (k_calls k)) = Some author"
  using assms read_write_loop_runs [of evs w]
  by (auto simp: chat_main_def chat_sockets_eq create_socket_def bind_source_def connect_dest_def sys_socket_def
      sys_bind_def sys_connect_def wait_for_client_def sys_peek_def Let_def
      split: option.splits prod.splits if_splits)

lemma concat_filter_nonempty: "concat (filter (\<lambda>bs. bs \<noteq> []) xs) = concat xs"
  by (induction xs) auto

text \<open>C39. Two chat programs, one started as the server and one as the client, each with its own system
  and any command line: if the network delivers the datagrams of each to the other, in order, then
  each displays exactly what was typed at the other, whatever the two do in between; and the
  server's socket is connected to the author of the first message.\<close>

theorem chat_conversation:
  assumes "chat_main osc zeroc addrc argvc evc kc wc = (None, kc', wc')" "c_client (chat_parse argvc)"
    and "chat_main oss zeros addrs argvs evs ks ws = (None, ks', ws')" "\<not> c_client (chat_parse argvs)"
    and "k_queue ks (os_socket oss (k_calls ks)) = author # rest" "0 < os_socket oss (k_calls ks)"
    and "\<And>i. \<not> wfail wc i" "\<And>i. \<not> wfail ws i" "obslog wc = []" "obslog ws = []"
    and "filter (\<lambda>bs. bs \<noteq> []) (map (relayed \<circ> rw_sock) evs) = sent_of (obslog wc')"
    and "filter (\<lambda>bs. bs \<noteq> []) (map (relayed \<circ> rw_sock) evc) = sent_of (obslog ws')"
  shows "file_of (obslog ws') = concat (map (relayed \<circ> rw_stdin) evc) \<and>
    file_of (obslog wc') = concat (map (relayed \<circ> rw_stdin) evs) \<and>
    k_peer ks' (os_socket oss (k_calls ks)) = Some author"
proof -
  have c: "wc' = snd (read_write_loop False evc wc)"
    using chat_main_loops(1) [OF assms(1)] assms(2) by blast
  have s: "ws' = snd (read_write_loop False evs ws)"
    using chat_main_loops(1) [OF assms(3)] assms(5) by blast
  have p: "k_peer ks' (os_socket oss (k_calls ks)) = Some author"
    using chat_main_loops(2) [OF assms(3) disjI2 [OF assms(5)] assms(4,6)] .
  have lc: "file_of (obslog wc') = concat (map (relayed \<circ> rw_sock) evc)"
      "sent_of (obslog wc') = filter (\<lambda>bs. bs \<noteq> []) (map (relayed \<circ> rw_stdin) evc)"
    using read_write_loop_log [of wc evc] assms(7,9) by (simp_all add: c)
  have ls: "file_of (obslog ws') = concat (map (relayed \<circ> rw_sock) evs)"
      "sent_of (obslog ws') = filter (\<lambda>bs. bs \<noteq> []) (map (relayed \<circ> rw_stdin) evs)"
    using read_write_loop_log [of ws evs] assms(8,10) by (simp_all add: s)
  have "file_of (obslog ws') = concat (map (relayed \<circ> rw_stdin) evc)"
    using assms(11) lc(2) concat_filter_nonempty by (metis ls(1))
  moreover have "file_of (obslog wc') = concat (map (relayed \<circ> rw_stdin) evs)"
    using assms(12) ls(2) concat_filter_nonempty by (metis lc(1))
  ultimately show ?thesis using p by blast
qed

text \<open>One message each way.\<close>

definition chat_os :: "nat os" where
  "chat_os = \<lparr>os_getaddrinfo = (\<lambda>_. (0, \<lparr>sin6_addr = 1, sin6_port = 0\<rparr>)), os_gai_strerror = (\<lambda>_. []),
     os_socket = (\<lambda>_. 3), os_bind_fails = (\<lambda>_ _. False), os_connect_fails = (\<lambda>_ _. False),
     os_recv_fails = (\<lambda>_. False), os_open = (\<lambda>_ _. 4)\<rparr>"

definition chat_kernel :: "nat kernel" where
  "chat_kernel = \<lparr>k_calls = 0, k_open = {}, k_bound = Map.empty, k_peer = Map.empty,
     k_queue = (\<lambda>_. [\<lparr>sin6_addr = 7, sin6_port = 9\<rparr>])\<rparr>"

definition said :: "byte list \<Rightarrow> byte list \<Rightarrow> rw_event list" where
  "said typed heard = [\<lparr>rw_stdin = Some (Some typed), rw_sock = None\<rparr>, \<lparr>rw_stdin = None, rw_sock = Some (Some heard)\<rparr>]"

lemma chat_parse_example: "c_client (chat_parse [''-c''])" "\<not> c_client (chat_parse [''-s''])"
  by code_simp+

lemma chat_runs:
  "\<exists>k' w'. chat_main chat_os zero addr argv evs chat_kernel w = (None, k', w')"
  using read_write_loop_runs [of evs w]
  by (auto simp: chat_main_def chat_sockets_eq real_address_def create_socket_def bind_source_def connect_dest_def
      sys_socket_def sys_bind_def sys_connect_def wait_for_client_def sys_peek_def Let_def chat_os_def chat_kernel_def
      split: option.splits prod.splits if_splits)

definition no_addr :: "nat sockaddr_in6" where
  "no_addr = \<lparr>sin6_addr = 0, sin6_port = 0\<rparr>"

theorem chat_conversation_witness:
  "\<exists>kc' wc' ks' ws'. chat_main chat_os no_addr no_addr [''-c''] (said [1, 2] [3]) chat_kernel world_r = (None, kc', wc') \<and>
    chat_main chat_os no_addr no_addr [''-s''] (said [3] [1, 2]) chat_kernel world_r = (None, ks', ws') \<and>
    file_of (obslog ws') = [1, 2] \<and> file_of (obslog wc') = [3] \<and> k_peer ks' 3 = Some \<lparr>sin6_addr = 7, sin6_port = 9\<rparr>"
proof -
  obtain kc' wc' where c: "chat_main chat_os no_addr no_addr [''-c''] (said [1, 2] [3]) chat_kernel world_r = (None, kc', wc')"
    using chat_runs by blast
  obtain ks' ws' where s: "chat_main chat_os no_addr no_addr [''-s''] (said [3] [1, 2]) chat_kernel world_r = (None, ks', ws')"
    using chat_runs by blast
  have q: "k_queue chat_kernel (os_socket chat_os (k_calls chat_kernel)) = \<lparr>sin6_addr = 7, sin6_port = 9\<rparr> # []"
    "0 < os_socket chat_os (k_calls chat_kernel)" "os_socket chat_os (k_calls chat_kernel) = 3"
    by (simp_all add: chat_kernel_def chat_os_def)
  have w: "\<And>i. \<not> wfail world_r i" "obslog world_r = []"
    using world_r_sel(1) by (simp_all add: env_good_def world_r_def world0_def)
  have loops: "wc' = snd (read_write_loop False (said [1, 2] [3]) world_r)"
    "ws' = snd (read_write_loop False (said [3] [1, 2]) world_r)"
    using chat_main_loops(1) [OF c disjI1 [OF chat_parse_example(1)]] chat_main_loops(1) [OF s disjI2 [OF q(1)]] .
  have "sent_of (obslog (snd (read_write_loop False (said bs cs) world_r))) =
      filter (\<lambda>bs. bs \<noteq> []) (map (relayed \<circ> rw_stdin) (said bs cs))" for bs cs
    using read_write_loop_log [of world_r, OF w(1)] w(2) by simp
  then have sent: "sent_of (obslog wc') = [[1, 2]]" "sent_of (obslog ws') = [[3]]"
    unfolding loops by (simp_all add: said_def relayed_def del: read_write_loop.simps)
  have del: "filter (\<lambda>bs. bs \<noteq> []) (map (relayed \<circ> rw_sock) (said [3] [1, 2])) = sent_of (obslog wc')"
    "filter (\<lambda>bs. bs \<noteq> []) (map (relayed \<circ> rw_sock) (said [1, 2] [3])) = sent_of (obslog ws')"
    using sent by (simp_all add: said_def relayed_def)
  from chat_conversation [OF c chat_parse_example(1) s chat_parse_example(2) q(1,2) w(1) w(1) w(2) w(2) del] c s show ?thesis
    by (simp add: said_def relayed_def q(3))
qed

end
