(* ===== verification/Calculator.thy ===== *)
theory Calculator
  imports Getopt
begin

text \<open>
  The calculator, calc.c: a \<open>double\<close> changed by one option after the other, printed with a number of
  decimals. The arithmetic of \<open>double\<close> and \<open>strtod\<close>, which gives the number and the characters after
  it, are the parameter \<open>'d arith\<close>. The result of a run is the exit status and what is printed:
  the number of decimals and the value.
\<close>

record 'd arith =
  a_of_int :: "int \<Rightarrow> 'd"
  a_add :: "'d \<Rightarrow> 'd \<Rightarrow> 'd"
  a_sub :: "'d \<Rightarrow> 'd \<Rightarrow> 'd"
  a_mul :: "'d \<Rightarrow> 'd \<Rightarrow> 'd"
  a_div :: "'d \<Rightarrow> 'd \<Rightarrow> 'd"
  a_is_zero :: "'d \<Rightarrow> bool"
  a_to_int :: "'d \<Rightarrow> int"
  a_strtod :: "string \<Rightarrow> 'd \<times> string"

section \<open>The options\<close>

text \<open>\<open>"a:d:s:m:ID"\<close> and \<open>long_options\<close>.\<close>

definition calc_optstring :: optstring where
  "calc_optstring c =
     (if c = CHR ''a'' \<or> c = CHR ''d'' \<or> c = CHR ''s'' \<or> c = CHR ''m'' then Some True
      else if c = CHR ''I'' \<or> c = CHR ''D'' then Some False else None)"

definition long_options :: longopts where
  "long_options =
     [(''ADD'', True, CHR ''a''), (''SUB'', True, CHR ''s''), (''MUL'', True, CHR ''m''), (''DIV'', True, CHR ''d''),
      (''INC'', False, CHR ''I''), (''DEC'', False, CHR ''D'')]"

text \<open>An option turns the result into the next one, or ends the program with a status.\<close>

datatype calc_end = Status int | Abort

definition operand_of :: "'d arith \<Rightarrow> string \<Rightarrow> calc_end + 'd" where
  "operand_of ar optarg = (let (x, rest) = a_strtod ar optarg in if rest \<noteq> [] then Inl (Status 1) else Inr x)"

definition calc_option :: "'d arith \<Rightarrow> gopt \<Rightarrow> 'd \<Rightarrow> calc_end + 'd" where
  "calc_option ar g result =
     (case g of
        OptArg c optarg \<Rightarrow>
          if c = CHR ''a'' then map_sum id (\<lambda>x. a_add ar result x) (operand_of ar optarg)
          else if c = CHR ''s'' then map_sum id (\<lambda>x. a_sub ar result x) (operand_of ar optarg)
          else if c = CHR ''m'' then map_sum id (\<lambda>x. a_mul ar result x) (operand_of ar optarg)
          else if c = CHR ''d'' then
            (case operand_of ar optarg of
               Inl e \<Rightarrow> Inl e
             | Inr x \<Rightarrow> if a_is_zero ar x then Inl (Status 1) else Inr (a_div ar result x))
          else Inl Abort
      | Opt c \<Rightarrow>
          if c = CHR ''I'' then Inr (a_add ar result (a_of_int ar 1))
          else if c = CHR ''D'' then Inr (a_sub ar result (a_of_int ar 1))
          else Inl Abort
      | Missing c \<Rightarrow> Inl (Status 1)
      | Unknown c \<Rightarrow> Inl (Status 1)
      | BadLong \<Rightarrow> Inl (Status 1))"

fun calc_loop :: "'d arith \<Rightarrow> gopt list \<Rightarrow> 'd \<Rightarrow> calc_end + 'd" where
  "calc_loop ar [] result = Inr result"
| "calc_loop ar (g # gs) result =
     (case calc_option ar g result of Inl e \<Rightarrow> Inl e | Inr r \<Rightarrow> calc_loop ar gs r)"

text \<open>The conversion of the number of decimals to \<open>int\<close> is part of the arithmetic.\<close>

definition calc_print :: "'d arith \<Rightarrow> string list \<Rightarrow> 'd \<Rightarrow> int \<times> (int \<times> 'd) option" where
  "calc_print ar operands result =
     (case operands of
        [] \<Rightarrow> (0, Some (0, result))
      | p # _ \<Rightarrow>
          (let (x, rest) = a_strtod ar p in
           if rest \<noteq> [] then (-1, None) else (0, Some (a_to_int ar x, result))))"

definition calc_main :: "'d arith \<Rightarrow> string list \<Rightarrow> calc_end \<times> (int \<times> 'd) option" where
  "calc_main ar argv =
     (let (gs, operands) = scan calc_optstring long_options argv in
      case calc_loop ar gs (a_of_int ar 0) of
        Inl e \<Rightarrow> (e, None)
      | Inr result \<Rightarrow> (let (st, out) = calc_print ar operands result in (Status st, out)))"

section \<open>What it computes\<close>

text \<open>A calculation as a list of operations with the numbers as they are written, its value, and its
  words on the command line, short or long.\<close>

datatype calc_op = Add string | Sub string | Mul string | Div string | Inc | Dec

definition number :: "'d arith \<Rightarrow> string \<Rightarrow> 'd" where
  "number ar s = fst (a_strtod ar s)"

definition numeric :: "'d arith \<Rightarrow> string \<Rightarrow> bool" where
  "numeric ar s \<longleftrightarrow> snd (a_strtod ar s) = []"

fun eval_op :: "'d arith \<Rightarrow> calc_op \<Rightarrow> 'd \<Rightarrow> 'd" where
  "eval_op ar (Add s) r = a_add ar r (number ar s)"
| "eval_op ar (Sub s) r = a_sub ar r (number ar s)"
| "eval_op ar (Mul s) r = a_mul ar r (number ar s)"
| "eval_op ar (Div s) r = a_div ar r (number ar s)"
| "eval_op ar Inc r = a_add ar r (a_of_int ar 1)"
| "eval_op ar Dec r = a_sub ar r (a_of_int ar 1)"

fun valid_op :: "'d arith \<Rightarrow> calc_op \<Rightarrow> bool" where
  "valid_op ar (Add s) \<longleftrightarrow> numeric ar s"
| "valid_op ar (Sub s) \<longleftrightarrow> numeric ar s"
| "valid_op ar (Mul s) \<longleftrightarrow> numeric ar s"
| "valid_op ar (Div s) \<longleftrightarrow> numeric ar s \<and> \<not> a_is_zero ar (number ar s)"
| "valid_op ar Inc \<longleftrightarrow> True"
| "valid_op ar Dec \<longleftrightarrow> True"

fun short_words :: "calc_op \<Rightarrow> string list" where
  "short_words (Add s) = [''-a'', s]"
| "short_words (Sub s) = [''-s'', s]"
| "short_words (Mul s) = [''-m'', s]"
| "short_words (Div s) = [''-d'', s]"
| "short_words Inc = [''-I'']"
| "short_words Dec = [''-D'']"

fun long_words :: "calc_op \<Rightarrow> string list" where
  "long_words (Add s) = [''--ADD='' @ s]"
| "long_words (Sub s) = [''--SUB='' @ s]"
| "long_words (Mul s) = [''--MUL='' @ s]"
| "long_words (Div s) = [''--DIV='' @ s]"
| "long_words Inc = [''--INC'']"
| "long_words Dec = [''--DEC'']"

fun op_gopt :: "calc_op \<Rightarrow> gopt" where
  "op_gopt (Add s) = OptArg CHR ''a'' s"
| "op_gopt (Sub s) = OptArg CHR ''s'' s"
| "op_gopt (Mul s) = OptArg CHR ''m'' s"
| "op_gopt (Div s) = OptArg CHR ''d'' s"
| "op_gopt Inc = Opt CHR ''I''"
| "op_gopt Dec = Opt CHR ''D''"

definition spelled :: "calc_op \<Rightarrow> string list \<Rightarrow> bool" where
  "spelled op ws \<longleftrightarrow> ws = short_words op \<or> ws = long_words op"

lemma scan_op:
  assumes "spelled op ws"
  shows "scan calc_optstring long_options (ws @ args) =
    (op_gopt op # fst (scan calc_optstring long_options args), snd (scan calc_optstring long_options args))"
  using assms unfolding spelled_def
  by (cases op) (auto simp: scan.simps(2) calc_optstring_def long_options_def long_option_def long_find_def Let_def
      split: prod.split)

lemma calc_option_op:
  "calc_option ar (op_gopt op) r = (if valid_op ar op then Inr (eval_op ar op r) else Inl (Status 1))"
  by (cases op) (auto simp: calc_option_def operand_of_def numeric_def number_def split: prod.split)

lemma scan_ops:
  assumes "list_all2 spelled ops wss"
  shows "scan calc_optstring long_options (concat wss @ args) =
    (map op_gopt ops @ fst (scan calc_optstring long_options args), snd (scan calc_optstring long_options args))"
  using assms by (induction rule: list_all2_induct) (simp_all add: scan_op)

lemma calc_loop_ops:
  "calc_loop ar (map op_gopt ops) r =
    (if \<forall>op\<in>set ops. valid_op ar op then Inr (fold (eval_op ar) ops r) else Inl (Status 1))"
  by (induction ops arbitrary: r) (auto simp: calc_option_op)

lemma calc_option_known: "opt_ok calc_optstring long_options g \<Longrightarrow> calc_option ar g r \<noteq> Inl Abort"
  by (auto simp: opt_ok_def calc_optstring_def long_options_def calc_option_def operand_of_def Let_def
      split: gopt.splits if_splits prod.splits sum.splits)

lemma calc_loop_known:
  "\<forall>g\<in>set gs. opt_ok calc_optstring long_options g \<Longrightarrow> calc_loop ar gs r \<noteq> Inl Abort"
  by (induction gs arbitrary: r) (auto dest: calc_option_known split: sum.splits)

lemma calc_never_aborts: "fst (calc_main ar argv) \<noteq> Abort"
proof -
  have "\<forall>g\<in>set (fst (scan calc_optstring long_options argv)). opt_ok calc_optstring long_options g"
    using scan_ok by blast
  from calc_loop_known [OF this, of ar "a_of_int ar 0"] show ?thesis
    by (auto simp: calc_main_def Let_def split: prod.splits sum.splits)
qed

text \<open>C38. The calculator computes: for any list of operations, each in its short or its long form,
  followed by a number of decimals or by nothing, it prints the value of the operations applied to
  0 in order, with that many decimals or none, and ends with status 0; an operand that is not a
  number, or a division by 0, ends it with status 1, and a number of decimals that is not a number
  with status -1, with nothing printed.\<close>

theorem calc_main_computes:
  assumes "list_all2 spelled ops wss" "tail = [] \<or> tail = [p] \<and> plain p"
  shows "calc_main ar (concat wss @ tail) =
    (if \<exists>op\<in>set ops. \<not> valid_op ar op then (Status 1, None)
     else if tail \<noteq> [] \<and> \<not> numeric ar p then (Status (-1), None)
     else (Status 0, Some (if tail = [] then 0 else a_to_int ar (number ar p), fold (eval_op ar) ops (a_of_int ar 0))))"
proof -
  have "scan calc_optstring long_options tail = ([], tail)"
    using assms(2) by (auto simp: scan_plain)
  then have "scan calc_optstring long_options (concat wss @ tail) = (map op_gopt ops, tail)"
    using scan_ops [OF assms(1), of tail] by simp
  with assms(2) show ?thesis
    by (auto simp: calc_main_def calc_loop_ops calc_print_def numeric_def number_def split: prod.splits)
qed

text \<open>Integers read by \<open>atoi\<close>, with C's division.\<close>

definition int_arith :: "int arith" where
  "int_arith = \<lparr>a_of_int = id, a_add = (+), a_sub = (-), a_mul = (*), a_div = (\<lambda>x y. (x - c_rem x y) div y),
     a_is_zero = (\<lambda>x. x = 0), a_to_int = id,
     a_strtod = (\<lambda>s. (atoi s, dropWhile is_digit (case s of c # cs \<Rightarrow> if c = CHR ''-'' then cs else s | [] \<Rightarrow> [])))\<rparr>"

lemma int_arith_sel [simp]:
  "a_of_int int_arith x = x" "a_add int_arith = (+)" "a_sub int_arith = (-)" "a_mul int_arith = (*)"
  "a_div int_arith x y = (x - c_rem x y) div y" "a_is_zero int_arith x \<longleftrightarrow> x = 0" "a_to_int int_arith x = x"
  by (simp_all add: int_arith_def)

theorem calc_main_computes_witness:
  "calc_main int_arith [''-a'', ''20'', ''--MUL=3'', ''-D'', ''--DIV=-2'', ''2''] = (Status 0, Some (2, -29))"
proof -
  have l: "list_all2 spelled [Add ''20'', Mul ''3'', Dec, Div ''-2''] [[''-a'', ''20''], [''--MUL=3''], [''-D''], [''--DIV=-2'']]"
    by (simp add: spelled_def)
  have n: "numeric int_arith ''20''" "numeric int_arith ''3''" "numeric int_arith ''-2''" "numeric int_arith ''2''"
    "number int_arith ''20'' = 20" "number int_arith ''3'' = 3" "number int_arith ''-2'' = -2" "number int_arith ''2'' = 2"
    by code_simp+
  have "plain ''2''" by (simp add: plain_def)
  with calc_main_computes [OF l, of "[''2'']" "''2''" int_arith] show ?thesis
    by (simp add: n c_rem_def)
qed

end
