(* ===== verification/Greeting.thy ===== *)
theory Greeting
  imports Echo Bytes
begin

text \<open>
  The TCP example: a server that greets every client from a child process, and a client that prints
  the greeting. What the system answers for a candidate address is part of the candidate; the open
  descriptors are a set; the handler of SIGCHLD works on the table of the server's children.
  Messages are left out, but for the greeting printed.
\<close>

section \<open>Finding an address\<close>

record candidate =
  cd_socket :: int            \<comment> \<open>what \<open>socket\<close> gives\<close>
  cd_setsockopt_fails :: bool
  cd_attach_fails :: bool     \<comment> \<open>\<open>bind\<close> of the server, \<open>connect\<close> of the client\<close>

text \<open>The loops over the results of \<open>getaddrinfo\<close>: \<open>Inl\<close> an exit, \<open>Inr (Some sockfd)\<close> the first
  candidate that works, \<open>Inr None\<close> for \<open>p == NULL\<close>, with the open descriptors.\<close>

fun bind_first :: "candidate list \<Rightarrow> int set \<Rightarrow> (int + int option) \<times> int set" where
  "bind_first [] fds = (Inr None, fds)"
| "bind_first (p # ps) fds =
     (let sockfd = cd_socket p in
      if sockfd = -1 then bind_first ps fds
      else
        (let fds1 = insert sockfd fds in
         if cd_setsockopt_fails p then (Inl 1, fds1)
         else if cd_attach_fails p then bind_first ps (fds1 - {sockfd})
         else (Inr (Some sockfd), fds1)))"

fun connect_first :: "candidate list \<Rightarrow> int set \<Rightarrow> int option \<times> int set" where
  "connect_first [] fds = (None, fds)"
| "connect_first (p # ps) fds =
     (let sockfd = cd_socket p in
      if sockfd = -1 then connect_first ps fds
      else
        (let fds1 = insert sockfd fds in
         if cd_attach_fails p then connect_first ps (fds1 - {sockfd})
         else (Some sockfd, fds1)))"

section \<open>The server\<close>

text \<open>One round: the result of \<open>accept\<close>, the result of \<open>fork\<close> in the parent (negative when it
  fails), and whether \<open>send\<close> fails in the child.\<close>

record a_event =
  a_accept :: int
  a_fork :: int
  a_send_fails :: bool

definition hello :: string where
  "hello = ''Hello, world!''"

text \<open>The child: what it sends, and its open descriptors at its exit.\<close>

definition child :: "int \<Rightarrow> a_event \<Rightarrow> int set \<Rightarrow> (int \<times> string) list \<times> int set" where
  "child sockfd ev fds =
     (let fds1 = fds - {sockfd};
          out = (if a_send_fails ev then [] else [(a_accept ev, hello)]) in
      (out, fds1 - {a_accept ev}))"

definition accept_step ::
    "int \<Rightarrow> a_event \<Rightarrow> int set \<times> (int \<times> string) list \<Rightarrow> int set \<times> (int \<times> string) list" where
  "accept_step sockfd ev st =
     (let (fds, sent) = st; new_fd = a_accept ev in
      if new_fd = -1 then st
      else
        (let fds1 = insert new_fd fds;
             sent1 = (if a_fork ev > 0 then sent @ fst (child sockfd ev fds1) else sent) in
         (fds1 - {new_fd}, sent1)))"

text \<open>The exit status, \<open>None\<close> while the program waits for more connections.\<close>

definition tcp_server_main ::
    "(int + candidate list) \<Rightarrow> bool \<Rightarrow> bool \<Rightarrow> a_event list \<Rightarrow> int set
      \<Rightarrow> int option \<times> int set \<times> (int \<times> string) list" where
  "tcp_server_main info listen_fails sigaction_fails evs fds =
     (case info of
        Inl rv \<Rightarrow> (Some 1, fds, [])
      | Inr servinfo \<Rightarrow>
          (case bind_first servinfo fds of
             (Inl st, fds1) \<Rightarrow> (Some st, fds1, [])
           | (Inr None, fds1) \<Rightarrow> (Some 1, fds1, [])
           | (Inr (Some sockfd), fds1) \<Rightarrow>
               if listen_fails then (Some 1, fds1, [])
               else if sigaction_fails then (Some 1, fds1, [])
               else (None, fold (accept_step sockfd) evs (fds1, []))))"

section \<open>The children\<close>

text \<open>The children of the server: those that run, those that have ended and were not waited for, and
  \<open>errno\<close>.\<close>

record children =
  ch_running :: "int set"
  ch_zombies :: "int list"
  ch_errno :: int

text \<open>\<open>waitpid(-1, NULL, WNOHANG)\<close>: a child that has ended is removed and its number returned; 0 if all
  of them run; without children the call fails with \<open>ECHILD\<close>.\<close>

definition waitpid_nohang :: "children \<Rightarrow> int \<times> children" where
  "waitpid_nohang st =
     (case ch_zombies st of
        pid # rest \<Rightarrow> (pid, st\<lparr>ch_zombies := rest\<rparr>)
      | [] \<Rightarrow> if ch_running st = {} then (-1, st\<lparr>ch_errno := 10\<rparr>) else (0, st))"

function reap :: "children \<Rightarrow> children" where
  "reap st = (case waitpid_nohang st of (pid, st') \<Rightarrow> if pid > 0 then reap st' else st')"
  by pat_completeness auto
termination
  by (relation "measure (\<lambda>st. length (ch_zombies st))")
    (auto simp: waitpid_nohang_def split: list.splits if_splits)

declare reap.simps [simp del]

definition sigchld_handler :: "children \<Rightarrow> children" where
  "sigchld_handler st = (let saved_errno = ch_errno st in (reap st)\<lparr>ch_errno := saved_errno\<rparr>)"

text \<open>The address inside a \<open>sockaddr\<close>, as an offset: \<open>sin_addr\<close> lies after the family and the port,
  \<open>sin6_addr\<close> after the flow information too.\<close>

definition get_in_addr :: "bytes \<Rightarrow> nat" where
  "get_in_addr sa = (if (of_le (take 2 sa) :: u16) = 2 then 4 else 8)"

section \<open>The client\<close>

definition MAXDATASIZE :: nat where
  "MAXDATASIZE = 100"

text \<open>\<open>received\<close> is what waits at the socket, \<open>None\<close> when \<open>recv\<close> fails; \<open>buf\<close> the uninitialised array.
  The result is the status and the text printed.\<close>

definition tcp_client_main ::
    "int \<Rightarrow> (int + candidate list) \<Rightarrow> bytes option \<Rightarrow> bytes \<Rightarrow> int set
      \<Rightarrow> (int \<times> bytes option \<times> int set) outcome" where
  "tcp_client_main argc info received buf fds =
     (if argc \<noteq> 2 then Inr (1, None, fds)
      else case info of
        Inl rv \<Rightarrow> Inr (1, None, fds)
      | Inr servinfo \<Rightarrow>
          (case connect_first servinfo fds of
             (None, fds1) \<Rightarrow> Inr (2, None, fds1)
           | (Some sockfd, fds1) \<Rightarrow>
               (case received of
                  None \<Rightarrow> Inr (1, None, fds1)
                | Some bs \<Rightarrow>
                    (let bs1 = take (MAXDATASIZE - 1) bs in
                     andthen (arr_write buf 0 bs1) (\<lambda>buf1.
                     andthen (arr_set buf1 (int (length bs1)) 0) (\<lambda>buf2.
                     andthen (c_string buf2) (\<lambda>text.
                     Inr (0, Some text, fds1 - {sockfd}))))))))"

section \<open>Laws\<close>

text \<open>Both loops close the sockets they give up: one descriptor more when they succeed, none when
  they do not.\<close>

lemma bind_first_fds:
  assumes "bind_first ps fds = (r, fds')" "\<forall>p\<in>set ps. cd_socket p \<notin> fds"
  shows "(case r of Inl st \<Rightarrow> st = 1 \<and> (\<exists>p\<in>set ps. fds' = insert (cd_socket p) fds)
     | Inr None \<Rightarrow> fds' = fds
     | Inr (Some fd) \<Rightarrow> fd \<notin> fds \<and> fds' = insert fd fds \<and> (\<exists>p\<in>set ps. cd_socket p = fd \<and> \<not> cd_attach_fails p))"
  using assms
proof (induction ps)
  case (Cons p ps)
  then have "insert (cd_socket p) fds - {cd_socket p} = fds" by auto
  with Cons show ?case by (auto simp: Let_def split: if_splits sum.splits option.splits)
qed auto

lemma connect_first_fds:
  assumes "connect_first ps fds = (r, fds')" "\<forall>p\<in>set ps. cd_socket p \<notin> fds"
  shows "(case r of None \<Rightarrow> fds' = fds
     | Some fd \<Rightarrow> fd \<notin> fds \<and> fds' = insert fd fds \<and> (\<exists>p\<in>set ps. cd_socket p = fd \<and> \<not> cd_attach_fails p))"
  using assms
proof (induction ps)
  case (Cons p ps)
  then have "insert (cd_socket p) fds - {cd_socket p} = fds" by auto
  with Cons show ?case by (auto simp: Let_def split: if_splits option.splits)
qed simp

text \<open>The server greets every connection for which \<open>fork\<close> and \<open>send\<close> work, in order, and keeps no
  descriptor of a connection; when \<open>fork\<close> fails the connection is closed without a greeting.\<close>

lemma accept_loop_greets:
  assumes "\<forall>ev\<in>set evs. a_accept ev \<notin> fds"
  shows "fold (accept_step sockfd) evs (fds, sent) =
    (fds, sent @ map (\<lambda>ev. (a_accept ev, hello)) (filter (\<lambda>ev. a_accept ev \<noteq> -1 \<and> a_fork ev > 0 \<and> \<not> a_send_fails ev) evs))"
  using assms by (induction evs arbitrary: sent) (auto simp: accept_step_def child_def Let_def)

text \<open>The client never leaves its array, whatever arrives, and closes its socket.\<close>

lemma tcp_client_safe:
  assumes "length buf = MAXDATASIZE"
  shows "\<exists>st out fds'. tcp_client_main argc info received buf fds = Inr (st, out, fds')"
    and "tcp_client_main argc info received buf fds = Inr (0, out, fds') \<Longrightarrow>
      \<exists>bs. received = Some bs \<and> out = Some (takeWhile (\<lambda>b. b \<noteq> 0) (take (MAXDATASIZE - 1) bs))"
proof -
  have run: "andthen (arr_write buf 0 bs1) (\<lambda>buf1. andthen (arr_set buf1 (int (length bs1)) 0) (\<lambda>buf2. andthen (c_string buf2) f))
      = f (takeWhile (\<lambda>b. b \<noteq> 0) bs1)" if "length bs1 < MAXDATASIZE" for bs1 and f :: "bytes \<Rightarrow> (int \<times> bytes option \<times> int set) outcome"
  proof -
    have "drop (length bs1) buf = buf ! length bs1 # drop (Suc (length bs1)) buf"
      using that assms by (simp add: Cons_nth_drop_Suc)
    then have a: "(bs1 @ drop (length bs1) buf)[length bs1 := 0] = bs1 @ 0 # drop (Suc (length bs1)) buf"
      by simp
    with a that assms show ?thesis
      by (simp add: arr_write_def put_at_0 arr_set_def c_string_cut)
  qed
  have lt: "length (take (MAXDATASIZE - 1) bs) < MAXDATASIZE" for bs :: bytes
    by (simp add: MAXDATASIZE_def)
  show "\<exists>st out fds'. tcp_client_main argc info received buf fds = Inr (st, out, fds')"
    by (auto simp: tcp_client_main_def Let_def run [OF lt, unfolded length_take One_nat_def] split: sum.splits prod.splits option.splits)
  show "tcp_client_main argc info received buf fds = Inr (0, out, fds') \<Longrightarrow>
      \<exists>bs. received = Some bs \<and> out = Some (takeWhile (\<lambda>b. b \<noteq> 0) (take (MAXDATASIZE - 1) bs))"
    by (auto simp: tcp_client_main_def Let_def run [OF lt, unfolded length_take One_nat_def] split: sum.splits prod.splits option.splits if_splits)
qed

text \<open>The handler waits for every child that has ended and for none that runs, and does not disturb
  \<open>errno\<close>.\<close>

lemma reap_all: "\<forall>pid\<in>set (ch_zombies st). 0 < pid \<Longrightarrow>
    reap st = (if ch_running st = {} then st\<lparr>ch_zombies := [], ch_errno := 10\<rparr> else st\<lparr>ch_zombies := []\<rparr>)"
proof (induction "ch_zombies st" arbitrary: st)
  case Nil
  then have "ch_zombies st = []" by simp
  moreover from this have "st\<lparr>ch_zombies := []\<rparr> = st" by (cases st) simp
  ultimately show ?case by (subst reap.simps) (simp add: waitpid_nohang_def)
next
  case (Cons pid rest)
  then have z: "ch_zombies st = pid # rest" by simp
  have "reap (st\<lparr>ch_zombies := rest\<rparr>) = (if ch_running st = {} then st\<lparr>ch_zombies := [], ch_errno := 10\<rparr>
      else st\<lparr>ch_zombies := []\<rparr>)"
    using Cons.hyps(1) [of "st\<lparr>ch_zombies := rest\<rparr>"] Cons.prems z by simp
  moreover have "0 < pid" using Cons.prems z by simp
  ultimately show ?case by (subst reap.simps) (simp add: waitpid_nohang_def z)
qed

lemma sigchld_handler_reaps:
  assumes "\<forall>pid\<in>set (ch_zombies st). 0 < pid"
  shows "sigchld_handler st = st\<lparr>ch_zombies := []\<rparr>"
  unfolding sigchld_handler_def Let_def reap_all [OF assms] by simp

text \<open>What \<open>get_in_addr\<close> points to is the address: of 4 bytes in a \<open>sockaddr_in\<close>, of 16 bytes in a
  \<open>sockaddr_in6\<close>.\<close>

lemma get_in_addr_points:
  "length port = 2 \<Longrightarrow> length addr = 4 \<Longrightarrow> sa = le16 2 @ port @ addr @ zero \<Longrightarrow>
     take 4 (drop (get_in_addr sa) sa) = addr"
  "length port = 2 \<Longrightarrow> length flow = 4 \<Longrightarrow> length addr6 = 16 \<Longrightarrow> sa = le16 10 @ port @ flow @ addr6 @ scope \<Longrightarrow>
     take 16 (drop (get_in_addr sa) sa) = addr6"
proof -
  have fam: "sa = le16 f @ rest \<Longrightarrow> get_in_addr sa = (if f = 2 then 4 else 8)" for f rest
    by (simp add: get_in_addr_def)
  show "length port = 2 \<Longrightarrow> length addr = 4 \<Longrightarrow> sa = le16 2 @ port @ addr @ zero \<Longrightarrow>
     take 4 (drop (get_in_addr sa) sa) = addr"
    using fam [of 2 "port @ addr @ zero"] by simp
  show "length port = 2 \<Longrightarrow> length flow = 4 \<Longrightarrow> length addr6 = 16 \<Longrightarrow> sa = le16 10 @ port @ flow @ addr6 @ scope \<Longrightarrow>
     take 16 (drop (get_in_addr sa) sa) = addr6"
    using fam [of 10 "port @ flow @ addr6 @ scope"] by simp
qed

end
