(* ===== verification/Record_Codec.thy ===== *)
theory Record_Codec
  imports Files
begin

text \<open>
  The record codec (record.c, record.h): a record of a 15 bit type, a footer flag, a payload of
  \<open>LENGTH\<close> bytes and, with the flag, a footer \<open>UUID\<close>; its accessors, and writing it to and reading
  it from a file. \<open>PAYLOAD\<close> refers to the heap of theory Memory.
\<close>

section \<open>The structure\<close>

record rec_t =
  R_TYPE :: "15 word"
  R_F :: "1 word"
  R_LENGTH :: u16
  R_PAYLOAD :: ptr
  R_UUID :: u32

text \<open>The first two bytes of the header as an integer: \<open>TYPE\<close> in the low 15 bits.\<close>

definition head_word :: "rec_t \<Rightarrow> u16" where
  "head_word r = ucast (R_TYPE r) OR push_bit 15 (ucast (R_F r))"

definition set_head_word :: "rec_t \<Rightarrow> u16 \<Rightarrow> rec_t" where
  "set_head_word r x = r\<lparr>R_TYPE := ucast x, R_F := ucast (drop_bit 15 x)\<rparr>"

section \<open>Accessors\<close>

text \<open>\<open>UUID\<close> is not assigned.\<close>

definition record_init :: "rec_t \<Rightarrow> int \<times> rec_t" where
  "record_init r = (0, r\<lparr>R_TYPE := 0, R_F := 0, R_LENGTH := 0, R_PAYLOAD := None\<rparr>)"

definition record_free :: "rec_t \<Rightarrow> world \<Rightarrow> (rec_t \<times> world) outcome" where
  "record_free r w =
     (if R_LENGTH r \<noteq> 0
      then andthen (free (R_PAYLOAD r) w) (\<lambda>w1. Inr (r\<lparr>R_LENGTH := 0, R_PAYLOAD := None\<rparr>, w1))
      else Inr (r, w))"

definition record_get_type :: "rec_t \<Rightarrow> int" where
  "record_get_type r = uint (R_TYPE r)"

definition record_set_type :: "rec_t \<Rightarrow> int \<Rightarrow> rec_t" where
  "record_set_type r type = r\<lparr>R_TYPE := word_of_int type\<rparr>"

definition record_get_length :: "rec_t \<Rightarrow> int" where
  "record_get_length r = uint (R_LENGTH r)"

text \<open>\<open>n\<close> is an \<open>int\<close>; as the argument of \<open>realloc\<close> and \<open>memcpy\<close> it becomes a \<open>size_t\<close>.\<close>

definition size_of_int :: "int \<Rightarrow> nat" where
  "size_of_int n = nat (n mod 2 ^ 64)"

definition record_set_payload ::
    "rec_t \<Rightarrow> bytes option \<Rightarrow> int \<Rightarrow> world \<Rightarrow> (int \<times> rec_t \<times> world) outcome" where
  "record_set_payload r buf n w =
     (if buf = None \<or> n = 0 then andthen (record_free r w) (\<lambda>(r1, w1). Inr (0, r1, w1))
      else
        andthen (realloc (R_PAYLOAD r) (size_of_int n) w) (\<lambda>(p, w1).
        let r1 = r\<lparr>R_PAYLOAD := p\<rparr> in
        if p = None then Inr (-1, r1, w1)
        else andthen (memcpy_to p buf (size_of_int n) w1) (\<lambda>w2.
             Inr (0, r1\<lparr>R_LENGTH := word_of_int n\<rparr>, w2))))"

text \<open>\<open>buf\<close> is the caller's array; the result is its contents and the return value.\<close>

definition record_get_payload :: "rec_t \<Rightarrow> bytes \<Rightarrow> int \<Rightarrow> world \<Rightarrow> (bytes \<times> int) outcome" where
  "record_get_payload r buf n w =
     andthen (load (R_PAYLOAD r) 0 (size_of_int n) w) (\<lambda>bs.
     andthen (arr_write buf 0 bs) (\<lambda>buf1.
     Inr (buf1, if uint (R_LENGTH r) < n then uint (R_LENGTH r) else n)))"

definition record_has_footer :: "rec_t \<Rightarrow> int" where
  "record_has_footer r = uint (R_F r)"

definition record_delete_footer :: "rec_t \<Rightarrow> rec_t" where
  "record_delete_footer r = (if R_F r \<noteq> 0 then r\<lparr>R_F := 0, R_UUID := 0\<rparr> else r)"

definition record_set_uuid :: "rec_t \<Rightarrow> u32 \<Rightarrow> rec_t" where
  "record_set_uuid r uuid = r\<lparr>R_F := 1, R_UUID := uuid\<rparr>"

definition record_get_uuid :: "rec_t \<Rightarrow> u32" where
  "record_get_uuid r = (if R_F r = 0 then 0 else R_UUID r)"

section \<open>Writing\<close>

definition write_footer :: "rec_t \<Rightarrow> int \<Rightarrow> sink \<Rightarrow> int \<times> sink" where
  "write_footer r count f =
     (if R_F r = 1 then
        (let (temp, f1) = fwrite (le32 (R_UUID r)) 4 f in
         if temp \<noteq> 1 then (-1, f1) else (count + 4, f1))
      else (count, f))"

definition record_write :: "rec_t \<Rightarrow> world \<Rightarrow> sink \<Rightarrow> (int \<times> sink) outcome" where
  "record_write r w f =
     (let (temp, f1) = fwrite (le16 (head_word r)) 2 f in
      if temp \<noteq> 1 then Inr (-1, f1)
      else let (temp, f2) = fwrite (le16 (htons (R_LENGTH r))) 2 f1 in
      if temp \<noteq> 1 then Inr (-1, f2)
      else if R_LENGTH r \<noteq> 0 then
        andthen (load (R_PAYLOAD r) 0 (unat (R_LENGTH r)) w) (\<lambda>bs.
        let (temp, f3) = fwrite bs 1 f2 in
        if temp \<noteq> unat (R_LENGTH r) then Inr (-1, f3)
        else Inr (write_footer r (4 + int temp) f3))
      else Inr (write_footer r 4 f2))"

section \<open>Reading\<close>

text \<open>The result of the two \<open>fread\<close> of the header is compared with -1, which it never is: after a
  short read the local variable is used although it was not assigned.\<close>

definition read_footer :: "rec_t \<Rightarrow> int \<Rightarrow> bytes \<Rightarrow> world \<Rightarrow> int \<times> rec_t \<times> bytes \<times> world" where
  "read_footer r count f w =
     (if R_F r = 1 then
        (let (bs, temp, f1) = fread 4 1 f in
         if temp \<noteq> 1 then (-1, r\<lparr>R_UUID := of_le (bs @ drop (length bs) (le32 (R_UUID r)))\<rparr>, f1, w)
         else (count + 4, r\<lparr>R_UUID := of_le bs\<rparr>, f1, w))
      else (count, r, f, w))"

text \<open>The temporary block is not released; the result of \<open>record_set_payload\<close> is not looked at.\<close>

definition read_payload :: "rec_t \<Rightarrow> bytes \<Rightarrow> world \<Rightarrow> (int \<times> rec_t \<times> bytes \<times> world) outcome" where
  "read_payload r f w =
     (let (buf, w1) = malloc (unat (R_LENGTH r)) w;
          (bs, temp, f1) = fread 1 (unat (R_LENGTH r)) f in
      andthen (memcpy_to buf (Some bs) (length bs) w1) (\<lambda>w2.
      if temp \<noteq> unat (R_LENGTH r) then Inr (-1, r, f1, w2)
      else
        andthen (record_set_payload r (case buf of None \<Rightarrow> None | Some a \<Rightarrow> mem w2 a)
                   (uint (R_LENGTH r)) w2) (\<lambda>(_, r1, w3).
        Inr (int temp, r1, f1, w3))))"

definition record_read :: "rec_t \<Rightarrow> bytes \<Rightarrow> world \<Rightarrow> (int \<times> rec_t \<times> bytes \<times> world) outcome" where
  "record_read r f w =
     (let (y, temp, f1) = fread 2 1 f in
      if temp \<noteq> 1 then Inl Uninitialised
      else let r1 = set_head_word r (of_le y); (y1, temp1, f2) = fread 2 1 f1 in
      if temp1 \<noteq> 1 then Inl Uninitialised
      else let r2 = r1\<lparr>R_LENGTH := ntohs (of_le y1)\<rparr> in
      if R_LENGTH r2 \<noteq> 0 then
        andthen (read_payload r2 f2 w) (\<lambda>(temp2, r3, f3, w1).
        if temp2 = -1 then Inr (-1, r3, f3, w1) else Inr (read_footer r3 (4 + temp2) f3 w1))
      else Inr (read_footer r2 4 f2 w))"

end
