(* ===== verification/Record_Demo.thy ===== *)
theory Record_Demo
  imports Record_Codec
begin

text \<open>
  \<open>main\<close> of database.c, the program that tries out the record codec. The records start with
  whatever is in memory; \<open>fp\<close> is what \<open>fopen\<close> gives. The result is what is printed. The output of
  the debug build is left out.
\<close>

definition database_main :: "rec_t \<Rightarrow> rec_t \<Rightarrow> sink option \<Rightarrow> world \<Rightarrow> (int \<times> int) outcome" where
  "database_main new0 second0 fp w =
     (let (_, new1) = record_init new0;
          new2 = record_set_type new1 1;
          (_, w1) = malloc 10 w;
          test = [116, 101, 115, 116, 0] in
      andthen (record_set_payload new2 (Some test) 20 w1) (\<lambda>(ret_set, new3, w2).
      let new4 = record_set_uuid new3 1;
          (test2, w3) = malloc 10 w2 in
      andthen (case test2 of
                 None \<Rightarrow> Inl NullDeref
               | Some a \<Rightarrow>
                   andthen (load test2 0 10 w3) (\<lambda>buf.
                   andthen (record_get_payload new4 buf 8 w3) (\<lambda>(buf1, ret_get).
                   memcpy_to test2 (Some buf1) 10 w3))) (\<lambda>w4.
      let (_, second1) = record_init second0 in
      case fp of
        None \<Rightarrow> Inl NullDeref
      | Some f \<Rightarrow>
          andthen (record_write new4 w4 f) (\<lambda>(count2W, f1).
          andthen (record_read second1 [] w4) (\<lambda>(count2, second2, rest, w5).
          Inr (count2W, count2))))))"

text \<open>Every run of the demonstration program has undefined behaviour: 20 bytes are copied from a string of 5, and when there is no
  memory for them, the absent payload is read.\<close>

theorem database_main_faults: "\<exists>f. database_main new0 second0 fp w = Inl f"
  by (cases "oom w (Suc (nalloc w))")
     (simp_all add: database_main_def record_init_def record_set_type_def record_set_uuid_def record_set_payload_def
        realloc_def memcpy_to_def record_get_payload_def size_of_int_def load_def Let_def malloc_def arr_read_def
        split: prod.splits)

end
