(* ===== verification/Record_Props.thy ===== *)
theory Record_Props
  imports Record_Codec Receiver_Props
begin

text \<open>
  The properties of the record codec, each followed by an instance.
\<close>

section \<open>Header and payload\<close>

lemma set_head_word_head_word:
  "set_head_word q (head_word r) = q\<lparr>R_TYPE := R_TYPE r, R_F := R_F r\<rparr>"
proof -
  have t: "(ucast (head_word r) :: 15 word) = R_TYPE r"
    by (rule bit_word_eqI) (auto simp: head_word_def bit_simps)
  have "(ucast (drop_bit 15 (head_word r)) :: 1 word) = R_F r"
    by (rule bit_word_eqI) (auto simp: head_word_def bit_simps dest: bit_imp_le_length)
  with t show ?thesis by (simp add: set_head_word_def)
qed

text \<open>The record holds the payload \<open>bs\<close>.\<close>

definition holds :: "rec_t \<Rightarrow> world \<Rightarrow> bytes \<Rightarrow> bool" where
  "holds r w bs \<longleftrightarrow> length bs < 65536 \<and> R_LENGTH r = of_nat (length bs) \<and>
     (bs \<noteq> [] \<longrightarrow> (\<exists>a blk. R_PAYLOAD r = Some a \<and> mem w a = Some blk \<and> length bs \<le> length blk \<and>
        take (length bs) blk = bs))"

lemma holds_load:
  "holds r w bs \<Longrightarrow> load (R_PAYLOAD r) 0 (length bs) w = Inr bs"
  by (cases "bs = []") (auto simp: holds_def load_def arr_read_def)

lemma holds_length:
  "holds r w bs \<Longrightarrow> unat (R_LENGTH r) = length bs" "holds r w bs \<Longrightarrow> R_LENGTH r = 0 \<longleftrightarrow> bs = []"
proof -
  show u: "holds r w bs \<Longrightarrow> unat (R_LENGTH r) = length bs"
    by (auto simp: holds_def unat_of_nat)
  show "holds r w bs \<Longrightarrow> R_LENGTH r = 0 \<longleftrightarrow> bs = []"
    using u by (metis length_0_conv unat_eq_zero)
qed

text \<open>The bytes of a record in a file.\<close>

definition record_image :: "rec_t \<Rightarrow> bytes \<Rightarrow> bytes" where
  "record_image r bs = le16 (head_word r) @ be16 (R_LENGTH r) @ bs @ (if R_F r = 1 then le32 (R_UUID r) else [])"

lemma F_cases: "R_F r = 0 \<or> R_F r = 1"
  using one_word_cases by blast

lemma be16_0: "be16 0 = le16 0"
  by (simp add: be16_def le16_def)

section \<open>Writing\<close>

lemma record_written:
  assumes "holds r w bs"
  shows "record_write r w f =
    (let im = record_image r bs in
     Inr (if length im \<le> room f then int (length im) else -1,
       f\<lparr>fbytes := fbytes f @ take (room f) im, room := room f - length im\<rparr>))"
proof -
  note L = holds_length [OF assms] holds_load [OF assms]
  let ?h = "le16 (head_word r)" and ?l = "be16 (R_LENGTH r)"
  let ?t = "if R_F r = 1 then le32 (R_UUID r) else []"
  have foot: "write_footer r c g = (if length ?t \<le> room g then c + int (length ?t) else -1,
      g\<lparr>fbytes := fbytes g @ take (room g) ?t, room := room g - length ?t\<rparr>)" for c g
    by (cases "4 \<le> room g") (auto simp: write_footer_def fwrite_fits fwrite_full)
  consider "room f < 2" | "2 \<le> room f" "room f < 4" | "4 \<le> room f" "room f < 4 + length bs"
    | "4 + length bs \<le> room f"
    by linarith
  then show ?thesis
  proof cases
    case 1
    then show ?thesis by (simp add: record_write_def record_image_def fwrite_full Let_def)
  next
    case 2
    then have "room f - 2 < 2" by simp
    with 2 show ?thesis by (simp add: record_write_def record_image_def fwrite_full fwrite_fits Let_def)
  next
    case 3
    then have "bs \<noteq> []" "room f - 4 < length bs" by auto
    with 3 L show ?thesis by (simp add: record_write_def record_image_def fwrite_full fwrite_fits Let_def)
  next
    case 4
    show ?thesis
    proof (cases "bs = []")
      case True
      with 4 L show ?thesis
        by (auto simp: record_write_def record_image_def fwrite_fits Let_def foot be16_0)
    next
      case False
      with 4 L show ?thesis
        by (auto simp: record_write_def record_image_def fwrite_fits Let_def foot)
    qed
  qed
qed

text \<open>C32. \<open>record_write\<close> on a record whose payload is allocated: it writes the type and flag in host byte
  order, the length in network byte order, the payload and the footer, and returns their size;
  when the device is too small it writes what fits and returns -1.\<close>

theorem record_write_image:
  assumes "holds r w bs"
  shows "record_write r w f =
    (let im = record_image r bs in
     Inr (if length im \<le> room f then int (length im) else -1,
       f\<lparr>fbytes := fbytes f @ take (room f) im, room := room f - length im\<rparr>))"
  using assms by (rule record_written)

section \<open>Storing a payload\<close>

text \<open>The block gets all \<open>n\<close> bytes, \<open>LENGTH\<close> the low 16 bits of \<open>n\<close>.\<close>

lemma set_payload_stores:
  assumes "0 < n" "n < 2 ^ 63" "n \<le> length bs" "live w (R_PAYLOAD r)" "heap_ok w" "\<not> oom w (nalloc w)"
  shows "record_set_payload r (Some bs) (int n) w =
    Inr (0, r\<lparr>R_PAYLOAD := Some (nalloc w), R_LENGTH := of_nat n\<rparr>, moved w (R_PAYLOAD r) (take n bs))"
proof -
  have sz: "size_of_int (int n) = n"
    using assms(2) by (simp add: size_of_int_def)
  from realloc_memcpy [OF assms(4-6,1-3)] obtain w1 where
    "realloc (R_PAYLOAD r) n w = Inr (Some (nalloc w), w1)"
    "memcpy_to (Some (nalloc w)) (Some bs) n w1 = Inr (moved w (R_PAYLOAD r) (take n bs))"
    by blast
  with assms(1) show ?thesis by (simp add: record_set_payload_def sz)
qed

section \<open>Reading\<close>

lemma fread_short: "length f < sz * n \<Longrightarrow> 0 < sz \<Longrightarrow> fread sz n f = (f, length f div sz, []) \<and> length f div sz \<noteq> n"
  by (simp add: fread_def) (metis div_less_iff_less_mult less_irrefl mult.commute)

lemma read_payload_ok:
  assumes "R_LENGTH r = of_nat (length bs)" "length bs < 65536" "bs \<noteq> []" "live w (R_PAYLOAD r)" "heap_ok w"
    and "\<And>k. \<not> oom w k"
  shows "read_payload r (bs @ rest) w =
    Inr (int (length bs), r\<lparr>R_PAYLOAD := Some (Suc (nalloc w))\<rparr>, rest, moved (stored w bs) (R_PAYLOAD r) bs)"
proof -
  have l: "unat (R_LENGTH r) = length bs" "uint (R_LENGTH r) = int (length bs)"
    using assms(1,2) by (simp_all add: unat_of_nat uint_nat)
  have m: "malloc (length bs) w = (Some (nalloc w), snd (malloc (length bs) w))"
    using assms(6) by (simp add: malloc_def Let_def)
  have c: "memcpy_to (Some (nalloc w)) (Some bs) (length bs) (snd (malloc (length bs) w)) = Inr (stored w bs)"
    using assms(3,6) by (simp add: malloc_def memcpy_to_def arr_read_def arr_write_def put_at_0 stored_def Let_def)
  have "live (stored w bs) (R_PAYLOAD r)" by (rule keeps_live [OF keeps_stored [OF assms(5)] assms(4)])
  from set_payload_stores [OF _ _ le_refl this heap_ok_stored [OF assms(5)]] assms(2,3,6)
  have "record_set_payload r (Some bs) (int (length bs)) (stored w bs) =
      Inr (0, r\<lparr>R_PAYLOAD := Some (Suc (nalloc w)), R_LENGTH := R_LENGTH r\<rparr>, moved (stored w bs) (R_PAYLOAD r) bs)"
    by (simp add: assms(1))
  moreover have "r\<lparr>R_PAYLOAD := Some (Suc (nalloc w)), R_LENGTH := R_LENGTH r\<rparr> = r\<lparr>R_PAYLOAD := Some (Suc (nalloc w))\<rparr>"
    by (cases r) simp
  ultimately show ?thesis
    unfolding read_payload_def l by (subst m) (simp add: fread_append c)
qed

lemma read_header:
  assumes "length bs < 65536" "R_LENGTH r = of_nat (length bs)"
  shows "record_read q (le16 (head_word r) @ be16 (R_LENGTH r) @ f) w =
    (let r2 = q\<lparr>R_TYPE := R_TYPE r, R_F := R_F r, R_LENGTH := R_LENGTH r\<rparr> in
     if bs = [] then Inr (read_footer r2 4 f w)
     else andthen (read_payload r2 f w) (\<lambda>(temp2, r3, f3, w1).
        if temp2 = -1 then Inr (-1, r3, f3, w1) else Inr (read_footer r3 (4 + temp2) f3 w1)))"
proof -
  have "R_LENGTH r = 0 \<longleftrightarrow> bs = []" using assms by (auto simp: word_of_nat_eq_0_iff dest: dvd_imp_le)
  then show ?thesis
    by (simp add: record_read_def fread_append set_head_word_head_word Let_def)
qed

text \<open>C31. Write then read: a record whose payload is allocated, written to a file with enough room, is
  read back into any initialised record with the same type, flag, length, payload and, with the
  flag, the same footer; both calls return the same count, and what follows in the file is left.\<close>

theorem record_roundtrip:
  assumes "holds r w bs" "length (record_image r bs) \<le> k"
    and "live w0 (R_PAYLOAD r0)" "heap_ok w0" "\<And>k. \<not> oom w0 k"
  shows "\<exists>n f r' w'. record_write r w \<lparr>fbytes = [], room = k\<rparr> = Inr (n, f) \<and> 4 \<le> n \<and>
    record_read r0 (fbytes f @ rest) w0 = Inr (n, r', rest, w') \<and>
    record_get_type r' = record_get_type r \<and> record_has_footer r' = record_has_footer r \<and>
    record_get_length r' = record_get_length r \<and> record_get_uuid r' = record_get_uuid r \<and> holds r' w' bs"
proof -
  have L: "length bs < 65536" "R_LENGTH r = of_nat (length bs)" using assms(1) by (simp_all add: holds_def)
  obtain f where f: "record_write r w \<lparr>fbytes = [], room = k\<rparr> = Inr (int (length (record_image r bs)), f)"
    "fbytes f = record_image r bs"
    using record_written [OF assms(1), of "\<lparr>fbytes = [], room = k\<rparr>"] assms(2) by (simp add: Let_def)
  define t where "t = (if R_F r = 1 then le32 (R_UUID r) else [])"
  let ?q = "r0\<lparr>R_TYPE := R_TYPE r, R_F := R_F r, R_LENGTH := R_LENGTH r\<rparr>"
  define p where "p = (if bs = [] then R_PAYLOAD r0 else Some (Suc (nalloc w0)))"
  define w1 where "w1 = (if bs = [] then w0 else moved (stored w0 bs) (R_PAYLOAD r0) bs)"
  let ?r = "?q\<lparr>R_PAYLOAD := p\<rparr>"
  have "record_read r0 (record_image r bs @ rest) w0 = Inr (read_footer ?r (4 + int (length bs)) (t @ rest) w1)"
  proof (cases "bs = []")
    case True
    have "?r = ?q" unfolding p_def using True by (cases r0) simp
    then show ?thesis
      using True read_header [OF L, of r0 "t @ rest" w0] by (simp add: record_image_def t_def w1_def)
  next
    case False
    have "live w0 (R_PAYLOAD ?q)" using assms(3) by simp
    from read_payload_ok [OF _ L(1) False this assms(4,5), of "t @ rest"] L(2) False
      read_header [OF L, of r0 "bs @ t @ rest" w0]
    show ?thesis by (simp add: record_image_def t_def w1_def p_def Let_def)
  qed
  moreover have "read_footer ?r c (t @ rest) w1 =
      (c + int (length t), if R_F r = 1 then ?r\<lparr>R_UUID := R_UUID r\<rparr> else ?r, rest, w1)" for c
    by (simp add: read_footer_def t_def fread_append)
  moreover have "int (length (record_image r bs)) = 4 + int (length bs) + int (length t)"
    by (simp add: record_image_def t_def)
  moreover have "mem (moved (stored w0 bs) (R_PAYLOAD r0) bs) (Suc (nalloc w0)) = Some bs"
    using moved_sel(3) [of "stored w0 bs" "R_PAYLOAD r0" bs] by simp
  then have "holds ?r w1 bs"
    using L by (simp add: holds_def p_def w1_def)
  ultimately show ?thesis
    using f F_cases [of r]
    by (intro exI [of _ "int (length (record_image r bs))"] exI [of _ f]
        exI [of _ "if R_F r = 1 then ?r\<lparr>R_UUID := R_UUID r\<rparr> else ?r"] exI [of _ w1])
      (auto simp: record_get_type_def record_has_footer_def record_get_length_def record_get_uuid_def holds_def)
qed

section \<open>Short files\<close>

text \<open>Cut off in the payload.\<close>

lemma read_payload_short:
  assumes "unat (R_LENGTH q) = length bs" "k < length bs" "\<And>k. \<not> oom w k"
  shows "\<exists>w'. read_payload q (take k bs) w = Inr (-1, q, [], w')"
proof -
  let ?x = "take k bs" and ?w1 = "snd (malloc (length bs) w)"
  have m: "malloc (length bs) w = (Some (nalloc w), ?w1)" using assms(3) by (simp add: malloc_def Let_def)
  have "\<exists>w2. memcpy_to (Some (nalloc w)) (Some ?x) (length ?x) ?w1 = Inr w2"
    using assms(2,3) by (auto simp: malloc_def memcpy_to_def arr_read_def arr_write_def Let_def)
  then obtain w2 where "memcpy_to (Some (nalloc w)) (Some ?x) (length ?x) ?w1 = Inr w2" by blast
  moreover have "length ?x < 1 * length bs" using assms(2) by simp
  ultimately show ?thesis
    using fread_short [of ?x 1 "length bs"] unfolding read_payload_def assms(1) using assms(2) by (subst m) simp
qed

text \<open>Cut off in the footer.\<close>

lemma read_footer_short:
  "R_F q = 1 \<Longrightarrow> length x < 4 \<Longrightarrow>
     \<exists>q'. read_footer q c x w = (-1, q', [], w) \<and> R_LENGTH q' = R_LENGTH q \<and> R_PAYLOAD q' = R_PAYLOAD q"
  using fread_short [of x 4 1] by (simp add: read_footer_def)

lemma read_cut_footer:
  assumes "length bs < 65536" "R_LENGTH r = of_nat (length bs)" "R_F r = 1" "length x < 4"
    and "live w0 (R_PAYLOAD r0)" "heap_ok w0" "\<And>k. \<not> oom w0 k"
  shows "\<exists>r' w'. record_read r0 (le16 (head_word r) @ be16 (R_LENGTH r) @ bs @ x) w0 = Inr (-1, r', [], w') \<and>
    R_LENGTH r' = R_LENGTH r"
proof -
  let ?q = "r0\<lparr>R_TYPE := R_TYPE r, R_F := R_F r, R_LENGTH := R_LENGTH r\<rparr>"
  show ?thesis
  proof (cases "bs = []")
    case True
    with read_footer_short [of ?q x 4 w0] assms(3,4) show ?thesis
      unfolding read_header [OF assms(1,2)] by auto
  next
    case False
    let ?r = "?q\<lparr>R_PAYLOAD := Some (Suc (nalloc w0))\<rparr>" and ?w = "moved (stored w0 bs) (R_PAYLOAD r0) bs"
    have "live w0 (R_PAYLOAD ?q)" using assms(5) by simp
    from read_payload_ok [OF _ assms(1) False this assms(6,7), of x] assms(2)
    have "read_payload ?q (bs @ x) w0 = Inr (int (length bs), ?r, x, ?w)" by simp
    then have eq: "record_read r0 (le16 (head_word r) @ be16 (R_LENGTH r) @ bs @ x) w0 =
        Inr (read_footer ?r (4 + int (length bs)) x ?w)"
      unfolding read_header [OF assms(1,2)] using False by (simp add: Let_def)
    have "R_F ?r = 1" "R_LENGTH ?r = R_LENGTH r" using assms(3) by simp_all
    from read_footer_short [OF this(1) assms(4), of "4 + int (length bs)" ?w] this(2) show ?thesis
      unfolding eq by metis
  qed
qed

text \<open>Reading a record from a file that is cut off: within the header the failure of \<open>fread\<close> is not
  noticed (its result is compared with -1) and an unassigned variable is used; after the header
  -1 is returned, but the record has already been changed: its length is the new one, and if the
  payload was cut off the payload pointer is still the old one.\<close>

theorem record_read_short:
  assumes "holds r w bs" "k < length (record_image r bs)" "live w0 (R_PAYLOAD r0)" "heap_ok w0" "\<And>k. \<not> oom w0 k"
  shows "if k < 4 then record_read r0 (take k (record_image r bs)) w0 = Inl Uninitialised
    else \<exists>r' w'. record_read r0 (take k (record_image r bs)) w0 = Inr (-1, r', [], w') \<and>
      R_LENGTH r' = R_LENGTH r \<and> (k < 4 + length bs \<longrightarrow> R_PAYLOAD r' = R_PAYLOAD r0)"
proof -
  have L: "length bs < 65536" "R_LENGTH r = of_nat (length bs)" using assms(1) by (simp_all add: holds_def)
  have ul: "unat (R_LENGTH r) = length bs" using holds_length(1) [OF assms(1)] .
  define t where "t = (if R_F r = 1 then le32 (R_UUID r) else [])"
  have im: "record_image r bs = le16 (head_word r) @ be16 (R_LENGTH r) @ bs @ t"
    by (simp add: record_image_def t_def)
  consider "k < 2" | "2 \<le> k" "k < 4" | "4 \<le> k" "k < 4 + length bs" | "4 + length bs \<le> k" by linarith
  then show ?thesis
  proof cases
    case 1
    then show ?thesis by (simp add: im record_read_def fread_short)
  next
    case 2
    then have "take k (record_image r bs) = le16 (head_word r) @ take (k - 2) (be16 (R_LENGTH r))"
      by (simp add: im)
    with 2 fread_short [of "take (k - 2) (be16 (R_LENGTH r))" 2 1] show ?thesis
      by (simp add: record_read_def fread_append Let_def)
  next
    case 3
    let ?q = "r0\<lparr>R_TYPE := R_TYPE r, R_F := R_F r, R_LENGTH := R_LENGTH r\<rparr>"
    have "bs \<noteq> []" "take k (record_image r bs) = le16 (head_word r) @ be16 (R_LENGTH r) @ take (k - 4) bs"
      using 3 by (auto simp: im)
    moreover have "unat (R_LENGTH ?q) = length bs" "k - 4 < length bs" using 3 ul by auto
    ultimately show ?thesis
      using read_payload_short [of ?q bs "k - 4" w0] assms(5) 3 read_header [OF L, of r0 "take (k - 4) bs" w0]
      by auto
  next
    case 4
    then have "R_F r = 1" "length (take (k - 4 - length bs) t) < 4"
      "take k (record_image r bs) = le16 (head_word r) @ be16 (R_LENGTH r) @ bs @ take (k - 4 - length bs) t"
      using assms(2) unfolding im by (auto simp: t_def split: if_splits)
    with read_cut_footer [OF L this(1,2) assms(3-5)] 4 show ?thesis by simp
  qed
qed

section \<open>Reading the payload\<close>

text \<open>\<open>record_get_payload\<close> copies \<open>n\<close> bytes whatever the length of the payload is: up to the length it
  returns \<open>n\<close> and the first \<open>n\<close> bytes; with \<open>n\<close> larger, which the documentation allows (at most
  \<open>n\<close> bytes are copied), it reads beyond the block, or through the null pointer of an empty record.\<close>

theorem record_get_payload_spec:
  assumes "R_LENGTH r = of_nat (length bs)" "length bs < 65536" "0 < n" "n < 2 ^ 63" "length buf = n"
    and "if bs = [] then R_PAYLOAD r = None else \<exists>a. R_PAYLOAD r = Some a \<and> mem w a = Some bs"
  shows "record_get_payload r buf (int n) w =
    (if n \<le> length bs then Inr (take n bs, int n)
     else if bs = [] then Inl NullDeref else Inl OutOfBounds)"
proof -
  have sz: "size_of_int (int n) = n" using assms(4) by (simp add: size_of_int_def)
  have l: "uint (R_LENGTH r) = int (length bs)" using assms(1,2) by (simp add: uint_nat unat_of_nat)
  show ?thesis
    using assms(3,5,6) by (auto simp: record_get_payload_def sz l load_def arr_read_def arr_write_def put_at_0)
qed

section \<open>Instances\<close>

definition rec0 :: rec_t where
  "rec0 = \<lparr>R_TYPE = 5, R_F = 1, R_LENGTH = 3, R_PAYLOAD = Some 0, R_UUID = 7\<rparr>"

definition world_rec :: world where
  "world_rec = world_r\<lparr>mem := [0 \<mapsto> [1, 2, 3]], nalloc := 1\<rparr>"

lemma rec0_holds: "holds rec0 world_rec [1, 2, 3]" "length (record_image rec0 [1, 2, 3]) = 11"
  by (simp_all add: holds_def rec0_def world_rec_def record_image_def)

theorem record_write_image_witness:
  "record_write rec0 world_rec \<lparr>fbytes = [], room = 6\<rparr> = Inr (-1, \<lparr>fbytes = [5, 128, 0, 3, 1, 2], room = 0\<rparr>)"
proof -
  have "take 6 (record_image rec0 [1, 2, 3]) = [5, 128, 0, 3, 1, 2]" by code_simp
  with record_write_image [OF rec0_holds(1), of "\<lparr>fbytes = [], room = 6\<rparr>"] rec0_holds(2) show ?thesis
    by (simp add: Let_def)
qed

theorem record_roundtrip_witness:
  "\<exists>n f r' w'. record_write rec0 world_rec \<lparr>fbytes = [], room = 20\<rparr> = Inr (n, f) \<and>
    record_read (rec0\<lparr>R_F := 0\<rparr>) (fbytes f @ [9]) world_rec = Inr (n, r', [9], w') \<and>
    record_get_uuid r' = 7 \<and> holds r' w' [1, 2, 3]"
proof -
  have u: "record_get_uuid rec0 = 7" by (simp add: record_get_uuid_def rec0_def)
  have "live world_rec (R_PAYLOAD (rec0\<lparr>R_F := 0\<rparr>))" "heap_ok world_rec" "\<And>k. \<not> oom world_rec k"
    using world_r_sel(1) by (simp_all add: rec0_def world_rec_def heap_ok_def env_good_def)
  from record_roundtrip [OF rec0_holds(1) _ this, of 20 "[9]"] rec0_holds(2) show ?thesis
    unfolding u by auto
qed

theorem record_read_short_witness:
  "record_read rec0 [5] world_rec = Inl Uninitialised"
proof -
  have "live world_rec (R_PAYLOAD rec0)" "heap_ok world_rec" "\<And>k. \<not> oom world_rec k"
    using world_r_sel(1) by (simp_all add: rec0_def world_rec_def heap_ok_def env_good_def)
  moreover have "take 1 (record_image rec0 [1, 2, 3]) = [5]" by code_simp
  ultimately show ?thesis
    using record_read_short [OF rec0_holds(1), of 1 world_rec rec0] rec0_holds(2) by simp
qed

theorem record_get_payload_spec_witness:
  "record_get_payload rec0 [0, 0] 2 world_rec = Inr ([1, 2], 2) \<and>
   record_get_payload rec0 [0, 0, 0, 0] 4 world_rec = Inl OutOfBounds"
proof -
  have "R_LENGTH rec0 = of_nat (length [1 :: byte, 2, 3])" "R_PAYLOAD rec0 = Some 0" "mem world_rec 0 = Some [1, 2, 3]"
    by (simp_all add: rec0_def world_rec_def)
  with record_get_payload_spec [of rec0 "[1, 2, 3]" 2 "[0, 0]" world_rec]
    record_get_payload_spec [of rec0 "[1, 2, 3]" 4 "[0, 0, 0, 0]" world_rec]
  show ?thesis by simp
qed

end
