(* ===== verification/Spec2Isabelle.thy ===== *)
theory Spec2Isabelle
  imports Programs Network_Recovery Network_Pipe Shapes Unit_Tests Segment_Tests Chat Calculator Greeting
    Record_Demo Record_Props
begin

text \<open>
  A verification development for the file transfer project: two programs that move a file in
  numbered packets over UDP, and the exercises that led to them.

  \<^bold>\<open>The program.\<close> \<open>src/Projet1/sender.c\<close> and \<open>receiver.c\<close> read the command line and call
  \<open>send_data\<close> (\<open>client.c\<close>) and \<open>receive_data\<close> (\<open>server.c\<close>). Both set up a socket with \<open>socket.c\<close>
  and exchange packets that \<open>packet_implem.c\<close> encodes and decodes. The sender cuts its input into
  payloads of up to 512 bytes, keeps the packets of its window in a ring of slots, moves the window
  when a cumulative acknowledgement comes, sends the oldest packet again in a round without news,
  and at last sends an empty packet until something answers. The receiver keeps payloads that come
  early in a ring of three slots, writes the contiguous run to its file, acknowledges with the next
  number it expects, answers truncated packets with a negative acknowledgement, and stops at the
  empty packet. Under \<open>src/Inginious\<close> there are an earlier version of the packet codec, a codec for
  records in files with its demonstration program, a chat program and a calculator, and under
  \<open>src/client-server\<close> small examples of clients and servers.

  \<^bold>\<open>How the code is modelled.\<close> Integers have their width (words for the fields of structures and
  for unsigned variables; \<open>int\<close> variables are integers, with C's remainder, where the code keeps
  them small). Undefined behaviour is a value: every computation that can have it has the type
  \<open>outcome\<close> of Prelude, \<open>Inl\<close> a fault. The state of the run-time environment is the record \<open>world\<close>
  of Memory: the heap of blocks, the clock, the log of what was written; which allocations and
  writes fail is decided by fields no operation changes. Loops around \<open>select\<close> take the list of
  events, what \<open>read\<close> returns in each round, so a run is a finite list and a state that is still
  \<open>Running\<close> says that the list was too short. The loop of \<open>adapt_buffer\<close> has no bound in the code
  and is a partial function, proved to end. Parameters are what is not in the repository: \<open>crc32\<close>
  of zlib (any function of the bytes), the arithmetic of \<open>double\<close>, the answers of the system calls
  that set up sockets, and \<open>strtod\<close>. No property assumes more of them than it says.

  \<^bold>\<open>Theories.\<close>
  \<^item> Prelude, Bytes, Memory: faults, arrays, C operators; byte order; heap, clock and log. Files:
    \<open>realloc\<close>, \<open>fread\<close>, \<open>fwrite\<close>.
  \<^item> Packet (\<open>struct pkt\<close>, constructor, destructor, accessors) and Packet_Laws; Codec (\<open>pkt_encode\<close>,
    \<open>pkt_decode\<close>), Codec_Laws (the image of a packet, the verdict on bytes), Codec_Roundtrip;
    Packet_Props: properties of \<open>packet_implem.c\<close>.
  \<^item> Receiver (\<open>add_buffer\<close>, \<open>send_ack\<close>, \<open>receive_data\<close> with one definition per part of its loop);
    Receiver_Window: the locale of a window buffer, its laws, and its interpretation on the ring
    of slots of the code; Receiver_Laws, Receiver_Run (the invariant, the abstract window and the
    refinement of a round), Receiver_Loop (whole runs), Receiver_Props.
  \<^item> Sender (\<open>adapt_rtt\<close>, \<open>adapt_buffer\<close>, \<open>send_data\<close> with one definition per part of its loop);
    Sender_Laws (the invariant of the window and what each operation does to it), Sender_Loop (whole
    runs), Sender_End (the end packet), Sender_Props, Sender_Faults (what goes wrong, and when).
  \<^item> Shapes: the types of both states, for any input and any failure (loops of \<open>client.c\<close> and
    \<open>server.c\<close> without any condition on the run).
  \<^item> Reachability (reachable states, the locale of a system with an invariant), Network (both programs
    as one system: an action is a round of a program, or a channel loses or repeats a datagram),
    Network_Laws (its invariant), Network_Inv (every action keeps it), Network_Progress (the
    interpretation of the locale, and a measure that some action decreases), Network_Props,
    Network_Loss (what losses at the end of a transfer do), Network_Recovery (how the timer makes up
    for losses before that, and that it does not without a file name), Refinement_Map (the locale of a
    refinement) and Network_Pipe (the closed loop refines a pipe).
  \<^item> Sockets (\<open>socket.c\<close>), Getopt (the C library's \<open>getopt\<close>, \<open>getopt_long\<close> and \<open>atoi\<close>), End_To_End
    (what the sender writes is what the receiver gets, for given runs of both), Programs (\<open>main\<close> of
    both and the set-up at the start of their functions, up to the theorem on both programs).
  \<^item> Record_Codec and Record_Props (\<open>record.c\<close>), Record_Demo (\<open>database.c\<close>); Segment_Access (the
    accessors of the earlier \<open>packet_implem.c\<close>, and that they agree with those of Projet1), Segment_Codec
    and Segment_Props (the rest of that file); Chat_Sockets (the socket functions of the chat exercise,
    and that they agree with \<open>socket.c\<close>), Chat (\<open>chat.c\<close>, \<open>read_write_loop.c\<close>, and two programs in a
    conversation); Calculator (\<open>calc.c\<close>); Echo and Greeting (the clients and servers of
    \<open>src/client-server\<close>, over UDP and TCP); Unit_Tests and Segment_Tests (the CUnit tests of
    \<open>Projet1/test.c\<close> and of the segment exercise, as programs over the models).

  \<^bold>\<open>What is shown.\<close> The transfer: both programs together deliver the file over a network that
  delivers in order, with repetitions (\<open>programs_transfer\<close>), and over one that loses, repeats and
  reorders the receiver's file is a prefix of the sender's (\<open>transfer_prefix\<close>). As a closed loop, in
  which each program reacts to what the other wrote, and for files of any length: no undefined
  behaviour and a prefix while channels lose and repeat (\<open>closed_loop_safe\<close>), the whole file if nothing
  is lost (\<open>closed_loop_exact\<close>), and no way into a state from which the transfer cannot be completed
  (\<open>closed_loop_completes\<close>), not even by losses as long as the file is being read
  (\<open>closed_loop_recovers\<close>); in short, it refines a pipe (\<open>closed_loop_refines_pipe\<close>). Losses after that
  leave a receiver that waits for ever (\<open>closed_loop_orphans\<close>) or a file that is cut off
  (\<open>closed_loop_truncates\<close>), and losses of what comes from standard input a transfer that stands still
  (\<open>stdin_never_retransmits\<close>). The receiver: no
  undefined behaviour and a prefix for admissible runs, refinement of the abstract window in every
  round, completeness. The sender: no undefined behaviour and the right packets in permitted runs,
  retransmission, the exchange at the end, termination of \<open>adapt_buffer\<close>. Of both, the types of the
  state in every run whatever. The codecs: wire format, round trip, soundness and totality of
  decoding, detection of corruption, capacity of buffers, and the test suite, which passes
  (\<open>unit_tests_pass\<close>) but for a test of the exercise (\<open>crc2_test_fails\<close>). The rest of the properties fix
  the boundaries of these: the runs in which the code reads released or uninitialised memory,
  overwrites packets that were not acknowledged, or ends too early.

  \<^bold>\<open>Bounds.\<close> A sequence number has 8 bits, and nothing in a packet tells numbers apart that differ
  by 256. The theorems on given runs (\<open>programs_transfer\<close>, \<open>transfer_prefix\<close>) are for transfers of up to
  253 chunks (with a window of 3 no number is then used twice) and let the network reorder. The
  receiver's theorems also cover longer transfers, \<open>receiver_prefix\<close> under a condition on the events
  (\<open>admissible\<close>) that excludes arrivals older than the numbers can tell. The closed loop has channels
  that keep the order, and files of fewer than \<open>2 ^ 31\<close> chunks, because \<open>int\<close> counters count them:
  there the window keeps the numbers apart, which is part of the invariant (\<open>core\<close>). Two faults of
  the code bound that system (\<open>fair\<close>): the file is not read while the window is full, because the
  code's own test is wrong once the numbers wrap (\<open>wrap_overwrites_oldest\<close>), and the timer does not run
  out on a slot that was never filled (\<open>small_file_uninitialised\<close>). The first excludes real runs of more
  than 256 chunks, since \<open>select\<close> reports a regular file as ready at any time. The second excludes no
  configuration, since the code has no next state there. So the steps can be described by one
  condition, which is void below 256 chunks: \<open>keeps_window\<close>, in \<open>loop_step\<close>. The two notions reach the same
  configurations (\<open>reachable_net_loop\<close>, \<open>reachable_loop_net\<close>); \<open>closed_loop_safe\<close> and \<open>closed_loop_exact\<close> are
  stated with \<open>fair\<close>, \<open>closed_loop_completes\<close>, \<open>closed_loop_recovers\<close> and \<open>closed_loop_refines_pipe\<close> with
  \<open>keeps_window\<close>, and what \<open>stdin_never_retransmits\<close> says of the future is for all actions (\<open>loop_act\<close>).
  With a file name \<open>closed_loop_completes\<close> and \<open>closed_loop_recovers\<close> need a file of at least a window's
  worth of chunks, because of the second fault. Between the window and 255 chunks everything is fair
  (\<open>fair_mid\<close>).
  The receiver's window is 3, as in the code; lemmas on its ring hold up to 7 slots, the number the
  code really marks as empty. The sender's window is what acknowledgements announce, at most 31.
  The functions that recurse do so over event lists or with a measure; no fuel is used.

  \<^bold>\<open>Not modelled.\<close> The conversions of \<open>double\<close> to \<open>int\<close> in \<open>adapt_rtt\<close> are total, though C leaves them undefined
  out of range (their result is never used); \<open>seq_ind\<close> of \<open>client.c\<close> is an unbounded integer, and the theorems
  on transfers bound it by the number of chunks; a \<open>write\<close> fails or writes everything, so short writes do
  not occur. Left out are messages for diagnosis; the text layout of \<open>printf\<close>; the time \<open>select\<close> waits (a
  round without events stands for a time-out); \<open>sockaddr_in6\<close> but for the port; CUnit itself and
  \<open>fork\<close> around the two tests that transfer a file; build files, documents and sample data. The headers
  hold prototypes, comments and the constants and types that are represented where they are used; the
  structure of the segment exercise is the one of Projet1. Every other function of the programs under
  \<open>src\<close> has a definition here, but for \<open>die\<close> of the UDP example, which is the exit with status 1 in its
  callers, and the TCP client's copy of \<open>get_in_addr\<close>.
\<close>

end
